(* ===== verification/Prelude.thy ===== *)
theory Prelude
  imports Main "HOL-Library.Word"
begin

text \<open>
  Shared vocabulary of the development: the machine integer types of \<open>src/src/types.h\<close>, the
  faults a kernel routine can end in, small lemmas on words, folds and function updates, and the
  interfaces that several components implement.
\<close>

unbundle bit_operations_syntax

section \<open>Machine integers\<close>

type_synonym u8 = "8 word"
type_synonym u16 = "16 word"
type_synonym u32 = "32 word"
type_synonym u64 = "64 word"

section \<open>Faults\<close>

text \<open>
  A C routine that leaves the defined behaviour of the language, or never returns, ends in a fault
  value; \<open>Inr\<close> carries the normal result.
\<close>

datatype fault =
    Hang
  | MissingVaArg
  | VaArgType
  | SignedOverflow
  | ReadPastEnd
  | NullDeref
  | OutOfBounds
  | UnboundedRecursion

named_theorems inv_intros \<open>preservation lemmas of the component invariants\<close>
named_theorems word_rules \<open>facts that move word arithmetic to natural numbers\<close>

definition array_get :: "'a list \<Rightarrow> nat \<Rightarrow> fault + 'a" where
  "array_get xs i = (if i < length xs then Inr (xs ! i) else Inl OutOfBounds)"

definition array_set :: "nat \<Rightarrow> 'a \<Rightarrow> 'a list \<Rightarrow> fault + 'a list" where
  "array_set i x xs = (if i < length xs then Inr (xs[i := x]) else Inl OutOfBounds)"

text \<open>Sequencing: the first fault ends the routine.\<close>

fun and_then :: "fault + 'a \<Rightarrow> ('a \<Rightarrow> fault + 'b) \<Rightarrow> fault + 'b" where
  "and_then (Inl e) f = Inl e"
| "and_then (Inr x) f = f x"

lemma and_then_cong [fundef_cong]:
  "m = m' \<Longrightarrow> (\<And>x. m' = Inr x \<Longrightarrow> f x = f' x) \<Longrightarrow> and_then m f = and_then m' f'"
  by (cases m') auto

lemma and_then_Inr_iff: "and_then m f = Inr y \<longleftrightarrow> (\<exists>x. m = Inr x \<and> f x = Inr y)"
  by (cases m) auto

lemma array_get_in [simp]: "i < length xs \<Longrightarrow> array_get xs i = Inr (xs ! i)"
  by (simp add: array_get_def)

lemma array_set_in [simp]: "i < length xs \<Longrightarrow> array_set i x xs = Inr (xs[i := x])"
  by (simp add: array_set_def)

section \<open>Lemmas on words\<close>

lemma unat_lt2p: "unat (w :: 'a::len word) < 2 ^ LENGTH('a)"
  by (rule unsigned_less)

lemma unat_u8_less: "unat (w :: u8) < 256"
  using unat_lt2p [of w] by simp

lemma unat_ucast_up:
  "LENGTH('a::len) \<le> LENGTH('b::len) \<Longrightarrow> unat (ucast (w :: 'a word) :: 'b word) = unat w"
  using order_less_le_trans [OF unat_lt2p [of w] power_increasing [of "LENGTH('a)" "LENGTH('b)" "2::nat"]]
  by (simp add: unsigned_ucast_eq take_bit_nat_eq_self)

lemma ucast_up_eq_0:
  "LENGTH('a::len) \<le> LENGTH('b::len) \<Longrightarrow> (ucast (w :: 'a word) :: 'b word) = 0 \<longleftrightarrow> w = 0"
  by (metis unat_eq_zero unat_ucast_up)

lemma ucast_up_down [simp]:
  "LENGTH('a::len) \<le> LENGTH('b::len) \<Longrightarrow> (ucast (ucast (w :: 'a word) :: 'b word) :: 'a word) = w"
  by (rule bit_word_eqI) (auto simp: bit_simps)

lemma ucast_scast_u8 [simp]: "(ucast (scast (w :: u8) :: u32) :: u8) = w"
  by (rule bit_word_eqI) (auto simp: bit_simps)

lemma unat_ucast_mod: "unat (ucast (w :: 'a::len word) :: 'b::len word) = unat w mod 2 ^ LENGTH('b)"
  by (simp add: unsigned_ucast_eq take_bit_eq_mod)

lemma unat_Suc_less:
  fixes w :: "'a::len word"
  assumes "w < v"
  shows "unat (w + 1) = unat w + 1"
proof -
  have "unat w < unat v" using assms by (simp add: word_less_nat_alt)
  then have "unat w + 1 < 2 ^ LENGTH('a)" using unat_lt2p [of v] by linarith
  then show ?thesis by (simp add: unat_word_ariths)
qed

lemma unat_pred:
  fixes w :: "'a::len word"
  assumes "w \<noteq> 0"
  shows "unat (w - 1) = unat w - 1"
  using assms by (rule unat_minus_one)

section \<open>Interfaces\<close>

text \<open>
  A component whose state is changed by a family of operations: every operation keeps the
  invariant, so every run of operations does.
\<close>

locale op_system =
  fixes step :: "'op \<Rightarrow> 's \<Rightarrow> 's"
    and inv :: "'s \<Rightarrow> bool"
  assumes step_inv: "inv s \<Longrightarrow> inv (step op s)"
begin

lemma run_inv: "inv s \<Longrightarrow> inv (fold step ops s)"
  by (induction ops arbitrary: s) (auto intro: step_inv)

end

text \<open>
  The same for operations that may fault: a run of operations from a state with the invariant
  never faults and ends in a state with the invariant.
\<close>

fun run_ops :: "('op \<Rightarrow> 's \<Rightarrow> fault + 's) \<Rightarrow> 'op list \<Rightarrow> 's \<Rightarrow> fault + 's" where
  "run_ops step [] s = Inr s"
| "run_ops step (op # ops) s = (case step op s of Inl e \<Rightarrow> Inl e | Inr s' \<Rightarrow> run_ops step ops s')"

locale safe_op_system =
  fixes step :: "'op \<Rightarrow> 's \<Rightarrow> fault + 's"
    and inv :: "'s \<Rightarrow> bool"
  assumes step_safe: "inv s \<Longrightarrow> \<exists>s'. step op s = Inr s' \<and> inv s'"
begin

lemma run_safe: "inv s \<Longrightarrow> \<exists>s'. run_ops step ops s = Inr s' \<and> inv s'"
proof (induction ops arbitrary: s)
  case Nil
  then show ?case by simp
next
  case (Cons op ops)
  then obtain s1 where s1: "step op s = Inr s1" "inv s1" using step_safe by blast
  with Cons.IH [of s1] show ?case by simp
qed

end

end
