(* ===== verification/Hardware.thy ===== *)
theory Hardware
  imports Prelude
begin

text \<open>
  The instructions of \<open>src/src/interrupt/asm.h\<close> and the volatile 32-bit accesses of the drivers. What the
  hardware does is a parameter: a record of its reactions over a hardware state \<open>'h\<close>. Two locales
  state the documented behaviour that drivers rely on (the PCI configuration mechanism, and register
  files behind a select/data window); \<open>chipset\<close> is a hardware that satisfies both.
\<close>

section \<open>Hardware as a parameter\<close>

record 'h hw =
  mmio_read :: "u64 \<Rightarrow> 'h \<Rightarrow> u32 \<times> 'h"
  mmio_write :: "u64 \<Rightarrow> u32 \<Rightarrow> 'h \<Rightarrow> 'h"
  port_in :: "u16 \<Rightarrow> 'h \<Rightarrow> u8 \<times> 'h"
  port_out :: "u16 \<Rightarrow> u8 \<Rightarrow> 'h \<Rightarrow> 'h"
  port_in32 :: "u16 \<Rightarrow> 'h \<Rightarrow> u32 \<times> 'h"
  port_out32 :: "u16 \<Rightarrow> u32 \<Rightarrow> 'h \<Rightarrow> 'h"
  rdmsr :: "u32 \<Rightarrow> 'h \<Rightarrow> (u32 \<times> u32) \<times> 'h"
  wrmsr :: "u32 \<Rightarrow> u32 \<Rightarrow> u32 \<Rightarrow> 'h \<Rightarrow> 'h"
  interrupt_flag :: "bool \<Rightarrow> 'h \<Rightarrow> 'h"

section \<open>The instruction wrappers\<close>

definition outb :: "'h hw \<Rightarrow> u16 \<Rightarrow> u8 \<Rightarrow> 'h \<Rightarrow> 'h" where
  "outb H port val h = port_out H port val h"

definition inb :: "'h hw \<Rightarrow> u16 \<Rightarrow> 'h \<Rightarrow> u8 \<times> 'h" where
  "inb H port h = port_in H port h"

definition outd :: "'h hw \<Rightarrow> u16 \<Rightarrow> u32 \<Rightarrow> 'h \<Rightarrow> 'h" where
  "outd H port val h = port_out32 H port val h"

definition ind :: "'h hw \<Rightarrow> u16 \<Rightarrow> 'h \<Rightarrow> u32 \<times> 'h" where
  "ind H port h = port_in32 H port h"

definition enable_interrupts :: "'h hw \<Rightarrow> 'h \<Rightarrow> 'h" where
  "enable_interrupts H h = interrupt_flag H True h"

definition disable_interrupts :: "'h hw \<Rightarrow> 'h \<Rightarrow> 'h" where
  "disable_interrupts H h = interrupt_flag H False h"

definition io_wait :: "'h hw \<Rightarrow> 'h \<Rightarrow> 'h" where
  "io_wait H h = outb H 0x80 0 h"

text \<open>\<open>rdmsr\<close> delivers edx (high) and eax (low), \<open>wrmsr\<close> takes them.\<close>

definition read_msr :: "'h hw \<Rightarrow> u32 \<Rightarrow> 'h \<Rightarrow> u64 \<times> 'h" where
  "read_msr H msr h =
     (case rdmsr H msr h of ((high, low), h') \<Rightarrow> (push_bit 32 (ucast high) OR ucast low, h'))"

definition write_msr :: "'h hw \<Rightarrow> u32 \<Rightarrow> u64 \<Rightarrow> 'h \<Rightarrow> 'h" where
  "write_msr H msr val h = wrmsr H msr (ucast (drop_bit 32 val)) (ucast val) h"

lemma join_halves: "(push_bit 32 (ucast (ucast (drop_bit 32 x) :: u32)) OR ucast (ucast x :: u32) :: u64) = x"
  by (rule bit_word_eqI) (auto simp: bit_simps)

lemma bit_bounded:
  fixes w :: "'a::len word"
  assumes "unat w < 2 ^ k" and "k \<le> n"
  shows "\<not> bit w n"
proof -
  have "(2::nat) ^ k \<le> 2 ^ n" using assms(2) by (rule power_increasing) simp
  then have "unat w div 2 ^ n = 0" using assms(1) by (intro div_less) linarith
  then have "\<not> bit (unat w) n" by (simp add: bit_iff_odd)
  then show ?thesis by (auto simp: bit_unsigned_iff bit_imp_le_length)
qed

section \<open>Interfaces\<close>

text \<open>
  The PCI configuration mechanism: the double word written to port 0xcf8 selects a configuration
  register, port 0xcfc is the register. Reading changes no register; writing changes the writable
  bits of the selected one. \<open>cfg_select\<close> holds of the addresses software may use: enable bit set, a
  multiple of 4.
\<close>

definition cfg_select :: "u32 \<Rightarrow> bool" where
  "cfg_select a \<longleftrightarrow> a AND 0x80000003 = 0x80000000"

locale config_space =
  fixes H :: "'h hw"
    and cfg :: "'h \<Rightarrow> u32 \<Rightarrow> u32"
    and writable :: "u32 \<Rightarrow> u32"
  assumes cfg_read: "cfg_select a \<Longrightarrow> fst (port_in32 H 0xcfc (port_out32 H 0xcf8 a h)) = cfg h a"
    and cfg_read_keeps: "cfg_select a \<Longrightarrow> cfg (snd (port_in32 H 0xcfc (port_out32 H 0xcf8 a h))) = cfg h"
    and cfg_write: "cfg_select a \<Longrightarrow> cfg (port_out32 H 0xcfc v (port_out32 H 0xcf8 a h)) =
      (cfg h)(a := (cfg h a AND NOT (writable a)) OR (v AND writable a))"

text \<open>
  A register file behind a window at \<open>base\<close>: the register number goes to \<open>base\<close>, the register is
  then at \<open>base + 0x10\<close>. Bits in \<open>fixed\<close> are read-only.
\<close>

locale window_registers =
  fixes H :: "'h hw"
    and win :: "u64 \<Rightarrow> bool"
    and reg :: "'h \<Rightarrow> u64 \<Rightarrow> u8 \<Rightarrow> u32"
    and fixed :: "u8 \<Rightarrow> u32"
  assumes reg_read: "win b \<Longrightarrow> fst (mmio_read H (b + 0x10) (mmio_write H b (ucast i) h)) = reg h b i"
    and reg_read_keeps: "win b \<Longrightarrow> reg (snd (mmio_read H (b + 0x10) (mmio_write H b (ucast i) h))) = reg h"
    and reg_write: "win b \<Longrightarrow> reg (mmio_write H (b + 0x10) v (mmio_write H b (ucast i) h)) =
      (reg h)(b := (reg h b)(i := (reg h b i AND fixed i) OR (v AND NOT (fixed i))))"

text \<open>
  The same beside plain registers (of the local APIC), whose values \<open>val\<close> an access to the windows does
  not change, and which change no window register.
\<close>

locale apic_registers = window_registers +
  fixes val :: "'a \<Rightarrow> u64 \<Rightarrow> u32"
  assumes val_read: "\<not> win a \<Longrightarrow> \<not> win (a - 0x10) \<Longrightarrow> fst (mmio_read H a h) = val h a"
    and val_read_keeps: "val (snd (mmio_read H a h)) = val h"
    and val_window_keeps: "win b \<Longrightarrow> val (mmio_write H b v h) = val h"
    and val_data_keeps: "win b \<Longrightarrow> val (mmio_write H (b + 0x10) v h) = val h"
    and reg_plain_read: "\<not> win a \<Longrightarrow> \<not> win (a - 0x10) \<Longrightarrow> reg (snd (mmio_read H a h)) = reg h"
    and reg_plain_write: "\<not> win a \<Longrightarrow> \<not> win (a - 0x10) \<Longrightarrow> reg (mmio_write H a v h) = reg h"

section \<open>A hardware\<close>

text \<open>
  A machine with one configuration space, register windows in the pages of 0xfec00000 to 0xfecfffff,
  and plain registers at all other addresses. \<open>out_log\<close> is the sequence of bytes written to ports, newest first.
\<close>

record chipset =
  latch :: u32
  space :: "u32 \<Rightarrow> u32"
  selected :: "u64 \<Rightarrow> u8"
  window_regs :: "u64 \<Rightarrow> u8 \<Rightarrow> u32"
  plain_regs :: "u64 \<Rightarrow> u32"
  msrs :: "u32 \<Rightarrow> u64"
  in_bytes :: "u8 list"
  out_log :: "(u16 \<times> u8) list"
  iflag :: bool

definition is_window :: "u64 \<Rightarrow> bool" where
  "is_window b \<longleftrightarrow> b AND 0xfffffffffff00fff = 0xfec00000"

definition chipset_read :: "u64 \<Rightarrow> chipset \<Rightarrow> u32 \<times> chipset" where
  "chipset_read a h =
     (if is_window (a - 0x10) then (window_regs h (a - 0x10) (selected h (a - 0x10)), h)
      else (plain_regs h a, h))"

definition chipset_write :: "(u8 \<Rightarrow> u32) \<Rightarrow> u64 \<Rightarrow> u32 \<Rightarrow> chipset \<Rightarrow> chipset" where
  "chipset_write fixed a v h =
     (if is_window a then h\<lparr>selected := (selected h)(a := ucast v)\<rparr>
      else if is_window (a - 0x10) then
        (let b = a - 0x10; i = selected h b; old = window_regs h b i
         in h\<lparr>window_regs := (window_regs h)(b := (window_regs h b)(i := (old AND fixed i) OR (v AND NOT (fixed i))))\<rparr>)
      else h\<lparr>plain_regs := (plain_regs h)(a := v)\<rparr>)"

definition chipset_hw :: "(u32 \<Rightarrow> u32) \<Rightarrow> (u8 \<Rightarrow> u32) \<Rightarrow> chipset hw" where
  "chipset_hw wr fixed =
     \<lparr>mmio_read = chipset_read,
      mmio_write = chipset_write fixed,
      port_in = (\<lambda>port h. case in_bytes h of [] \<Rightarrow> (0, h) | b # bs \<Rightarrow> (b, h\<lparr>in_bytes := bs\<rparr>)),
      port_out = (\<lambda>port v h. h\<lparr>out_log := (port, v) # out_log h\<rparr>),
      port_in32 = (\<lambda>port h. (if port = 0xcfc then space h (latch h) else 0xffffffff, h)),
      port_out32 = (\<lambda>port v h.
        if port = 0xcf8 then h\<lparr>latch := v\<rparr>
        else if port = 0xcfc then
          h\<lparr>space := (space h)(latch h := (space h (latch h) AND NOT (wr (latch h))) OR (v AND wr (latch h)))\<rparr>
        else h),
      rdmsr = (\<lambda>msr h. ((ucast (drop_bit 32 (msrs h msr)), ucast (msrs h msr)), h)),
      wrmsr = (\<lambda>msr high low h. h\<lparr>msrs := (msrs h)(msr := push_bit 32 (ucast high) OR ucast low)\<rparr>),
      interrupt_flag = (\<lambda>b h. h\<lparr>iflag := b\<rparr>)\<rparr>"

interpretation chip: config_space "chipset_hw wr fixed" space wr
  by unfold_locales (simp_all add: chipset_hw_def)

lemma window_offset:
  assumes "is_window b"
  shows "take_bit 12 b = 0"
proof -
  have "b AND 0xfff = (b AND 0xfffffffffff00fff) AND 0xfff" by (simp add: and.assoc)
  also have "\<dots> = 0" using assms by (simp add: is_window_def)
  finally show ?thesis by (simp add: take_bit_eq_mask mask_eq_exp_minus_1)
qed

lemma window_data:
  assumes "is_window b"
  shows "\<not> is_window (b + 0x10)"
proof
  assume "is_window (b + 0x10)"
  then have "bit (take_bit 12 (b + 0x10)) 4 = False" by (simp add: window_offset)
  moreover have low: "\<not> bit b n" if "n < 12" for n
    using window_offset [OF assms] that by (metis bit_0_eq bit_take_bit_iff bot_apply bot_bool_def)
  have sixteen: "bit (0x10 :: u64) n \<longleftrightarrow> n = 4" for n
    using bit_exp_iff [of 4 n, where 'a = u64] by (auto simp del: bit_numeral_iff)
  have "b AND 0x10 = 0"
  proof (rule bit_word_eqI)
    fix n
    show "bit (b AND 0x10) n = bit 0 n"
      using low [of 4] unfolding bit_and_iff sixteen bit_0_eq by auto
  qed
  then have "b + 0x10 = b OR 0x10" by (simp only: disjunctive_add_eq_or)
  ultimately show False
    by (simp only: bit_take_bit_iff bit_or_iff sixteen) simp
qed

interpretation chip: window_registers "chipset_hw wr fixed" is_window window_regs fixed
  by unfold_locales
    (simp_all add: chipset_hw_def chipset_read_def chipset_write_def window_data Let_def)

interpretation chip: apic_registers "chipset_hw wr fixed" is_window window_regs fixed plain_regs
  by unfold_locales
    (simp_all add: chipset_hw_def chipset_read_def chipset_write_def window_data Let_def)

end
