(* ===== verification/Frames.thy ===== *)
theory Frames
  imports Prelude
begin

text \<open>
  The frame bitmap of \<open>src/src/memory/phys.c\<close>: \<open>reserve_frames\<close>, \<open>free_frames\<close> and
  \<open>pmm_is_free\<close>, and which frames a range update reaches. A frame is one bit, the most significant bit of a byte first; a
  set bit means used. The bitmap is read and written through the pointer \<open>bitmap\<close> in the byte memory
  of the kernel, so an index past \<open>bitmap_size\<close> reaches the bytes behind the bitmap.
\<close>

section \<open>State\<close>

text \<open>
  The memory-management state: the static variables of \<open>phys.c\<close> and \<open>paging.c\<close>, the byte memory
  (used for the bitmap), the page-table memory as 8-byte entries indexed by physical address, and
  the pages whose translations were flushed, newest first.
\<close>

record mm =
  bitmap :: u64
  bitmap_size :: u64
  last_idx :: u64
  last_idx_bit :: u64
  bytes :: "u64 \<Rightarrow> u8"
  s_pml4_table :: u64
  entries :: "u64 \<Rightarrow> u64"
  flushed :: "u64 list"

definition rd_bm :: "mm \<Rightarrow> u64 \<Rightarrow> u8" where
  "rd_bm s i = bytes s (bitmap s + i)"

definition wr_bm :: "u64 \<Rightarrow> u8 \<Rightarrow> mm \<Rightarrow> mm" where
  "wr_bm i v s = s\<lparr>bytes := (bytes s)(bitmap s + i := v)\<rparr>"

section \<open>Reserving and freeing ranges\<close>

definition or_bm :: "u32 \<Rightarrow> u8 \<Rightarrow> mm \<Rightarrow> mm" where
  "or_bm i m s = wr_bm (ucast i) (rd_bm s (ucast i) OR m) s"

definition andnot_bm :: "u32 \<Rightarrow> u8 \<Rightarrow> mm \<Rightarrow> mm" where
  "andnot_bm i m s = wr_bm (ucast i) (rd_bm s (ucast i) AND NOT m) s"

text \<open>
  The shifts are done at the width of a byte: C shifts at \<open>int\<close> and truncates when it stores, which
  gives the same byte. The loops over \<open>uint32_t i\<close> run through the numbers from the start block to
  below the end block.
\<close>

definition reserve_frames :: "u64 \<Rightarrow> u64 \<Rightarrow> mm \<Rightarrow> mm" where
  "reserve_frames start_addr sz s =
     (if sz = 0 then s
      else
        let pages = (ucast ((sz - 1) div 4096 + 1) :: u32);
            blocks = pages div 8;
            start_block = (ucast (start_addr div 4096 div 8) :: u32);
            offset = (ucast (start_addr div 4096 mod 8) :: u32);
            end_block = start_block + blocks;
            s1 = (if blocks \<noteq> 0 then
                    (let s1 = or_bm start_block (drop_bit (unat offset) 0xff) s;
                         s2 = fold (\<lambda>i. wr_bm (of_nat i) 0xff)
                                [unat (start_block + 1)..<unat end_block] s1
                     in if blocks > 1 then or_bm end_block (push_bit (unat (8 - offset)) 0xff) s2
                        else s2)
                  else s);
            rest = (ucast (pages mod 8) :: u8)
        in if rest \<noteq> 0 then
             (let bits = drop_bit (unat (8 - rest)) (0xff :: u8);
                  bits' = push_bit (unat (8 - rest)) bits
              in or_bm (end_block + 1) (push_bit (unat (8 - offset)) bits')
                   (or_bm end_block (drop_bit (unat offset) bits') s1))
           else s1)"

definition free_frames :: "u64 \<Rightarrow> u64 \<Rightarrow> mm \<Rightarrow> mm" where
  "free_frames start_addr sz s =
     (if sz = 0 then s
      else
        let pages = (ucast ((sz - 1) div 4096 + 1) :: u32);
            blocks = pages div 8;
            start_block = (ucast (start_addr div 4096 div 8) :: u32);
            offset = (ucast (start_addr div 4096 mod 8) :: u32);
            end_block = start_block + blocks;
            s1 = (if blocks \<noteq> 0 then
                    (let s1 = andnot_bm start_block (drop_bit (unat offset) 0xff) s;
                         s2 = fold (\<lambda>i. wr_bm (of_nat i) 0)
                                [unat (start_block + 1)..<unat end_block] s1
                     in if blocks > 1 then andnot_bm end_block (push_bit (unat (8 - offset)) 0xff) s2
                        else s2)
                  else s);
            rest = (ucast (pages mod 8) :: u8)
        in if rest \<noteq> 0 then
             (let bits = drop_bit (unat (8 - rest)) (0xff :: u8);
                  bits' = push_bit (unat (8 - rest)) bits
              in andnot_bm (end_block + 1) (push_bit (unat (8 - offset)) bits')
                   (andnot_bm end_block (drop_bit (unat offset) bits') s1))
           else s1)"

definition pmm_is_free :: "u64 \<Rightarrow> mm \<Rightarrow> bool" where
  "pmm_is_free addr s =
     (let block = (ucast (addr div 4096 div 8) :: u32);
          offset = (ucast (addr div 4096 mod 8) :: u32)
      in drop_bit (unat (8 - offset - 1)) (rd_bm s (ucast block)) AND 1 = 0)"

section \<open>The frames a bitmap marks as used\<close>

definition frame_used :: "mm \<Rightarrow> nat \<Rightarrow> bool" where
  "frame_used s n \<longleftrightarrow> bit (rd_bm s (of_nat (n div 8))) (7 - n mod 8)"

definition set_bm :: "bool \<Rightarrow> u32 \<Rightarrow> u8 \<Rightarrow> mm \<Rightarrow> mm" where
  "set_bm v i m s = (if v then or_bm i m s else andnot_bm i m s)"

text \<open>Both range updates are the same function of the value they write.\<close>

definition mark_range :: "bool \<Rightarrow> u64 \<Rightarrow> u64 \<Rightarrow> mm \<Rightarrow> mm" where
  "mark_range v start_addr sz s =
     (if sz = 0 then s
      else
        let pages = (ucast ((sz - 1) div 4096 + 1) :: u32);
            blocks = pages div 8;
            start_block = (ucast (start_addr div 4096 div 8) :: u32);
            offset = (ucast (start_addr div 4096 mod 8) :: u32);
            end_block = start_block + blocks;
            s1 = (if blocks \<noteq> 0 then
                    (let s1 = set_bm v start_block (drop_bit (unat offset) 0xff) s;
                         s2 = fold (\<lambda>i. wr_bm (of_nat i) (if v then 0xff else 0))
                                [unat (start_block + 1)..<unat end_block] s1
                     in if blocks > 1 then set_bm v end_block (push_bit (unat (8 - offset)) 0xff) s2
                        else s2)
                  else s);
            rest = (ucast (pages mod 8) :: u8)
        in if rest \<noteq> 0 then
             (let bits = drop_bit (unat (8 - rest)) (0xff :: u8);
                  bits' = push_bit (unat (8 - rest)) bits
              in set_bm v (end_block + 1) (push_bit (unat (8 - offset)) bits')
                   (set_bm v end_block (drop_bit (unat offset) bits') s1))
           else s1)"

lemma reserve_frames_mark: "reserve_frames = mark_range True"
  by (intro ext) (simp add: reserve_frames_def mark_range_def set_bm_def Let_def)

lemma free_frames_mark: "free_frames = mark_range False"
  by (intro ext) (simp add: free_frames_def mark_range_def set_bm_def Let_def)

lemma of_nat_u64_eq:
  assumes "n < 2 ^ 64"
  shows "(of_nat n :: u64) = w \<longleftrightarrow> n = unat w"
proof -
  have "unat (of_nat n :: u64) = n" using assms by (simp add: unat_of_nat)
  then show ?thesis by auto
qed

lemma rd_bm_wr_bm [simp]: "rd_bm (wr_bm i b s) j = (if j = i then b else rd_bm s j)"
  by (simp add: rd_bm_def wr_bm_def)

lemma frame_used_wr_bm:
  assumes "n div 8 < 2 ^ 64"
  shows "frame_used (wr_bm i b s) n \<longleftrightarrow>
    (if n div 8 = unat i then bit b (7 - n mod 8) else frame_used s n)"
  using assms by (simp add: frame_used_def of_nat_u64_eq)

lemma frame_used_set_bm:
  assumes "n div 8 < 2 ^ 64"
  shows "frame_used (set_bm v i m s) n \<longleftrightarrow>
    (if n div 8 = unat i \<and> bit m (7 - n mod 8) then v else frame_used s n)"
proof -
  have "of_nat (n div 8) = (ucast i :: u64) \<longleftrightarrow> n div 8 = unat i"
    using assms by (simp add: of_nat_u64_eq unat_ucast_up)
  then show ?thesis
    by (auto simp: set_bm_def or_bm_def andnot_bm_def frame_used_def bit_simps)
qed

lemma frame_used_fold_wr_bm:
  assumes "n div 8 < 2 ^ 64" "b < 2 ^ 64"
  shows "frame_used (fold (\<lambda>i. wr_bm (of_nat i) (if v then 0xff else 0)) [a..<b] s) n \<longleftrightarrow>
    (if a \<le> n div 8 \<and> n div 8 < b then v else frame_used s n)"
  using assms(2)
proof (induction b)
  case 0
  then show ?case by simp
next
  case (Suc b)
  have m: "(0xff :: u8) = mask 8" by (simp add: mask_eq_exp_minus_1)
  have "unat (of_nat b :: u64) = b" using Suc.prems by (simp add: unat_of_nat)
  then show ?case using Suc assms(1)
    by (auto simp: frame_used_wr_bm m bit_simps)
qed

lemma bit_head_mask: "p < 8 \<Longrightarrow> bit (drop_bit k (0xff :: u8)) (7 - p) \<longleftrightarrow> k \<le> p"
proof -
  have m: "(0xff :: u8) = mask 8" by (simp add: mask_eq_exp_minus_1)
  show "p < 8 \<Longrightarrow> ?thesis" unfolding m by (auto simp: bit_simps)
qed

lemma bit_tail_mask: "p < 8 \<Longrightarrow> k \<le> 8 \<Longrightarrow> bit (push_bit (8 - k) (0xff :: u8)) (7 - p) \<longleftrightarrow> p < k"
proof -
  have m: "(0xff :: u8) = mask 8" by (simp add: mask_eq_exp_minus_1)
  show "p < 8 \<Longrightarrow> k \<le> 8 \<Longrightarrow> ?thesis" unfolding m by (auto simp: bit_simps)
qed

lemma bit_rest_mask:
  assumes "p < 8" "r \<le> 8" "k \<le> 7"
  shows "bit (drop_bit k (push_bit (8 - r) (drop_bit (8 - r) (0xff :: u8)))) (7 - p) \<longleftrightarrow>
           k \<le> p \<and> p < k + r"
    and "bit (push_bit (8 - k) (push_bit (8 - r) (drop_bit (8 - r) (0xff :: u8)))) (7 - p) \<longleftrightarrow>
           p + 8 < k + r"
proof -
  have m: "(0xff :: u8) = mask 8" by (simp add: mask_eq_exp_minus_1)
  show "bit (drop_bit k (push_bit (8 - r) (drop_bit (8 - r) (0xff :: u8)))) (7 - p) \<longleftrightarrow>
           k \<le> p \<and> p < k + r"
    using assms unfolding m by (auto simp: bit_simps)
  show "bit (push_bit (8 - k) (push_bit (8 - r) (drop_bit (8 - r) (0xff :: u8)))) (7 - p) \<longleftrightarrow>
           p + 8 < k + r"
    using assms unfolding m by (auto simp: bit_simps)
qed

text \<open>
  The frames a range update reaches: all frames of the range, except that a range of eight to
  fifteen frames that does not start at a byte boundary misses the first bits of the next byte.
\<close>

definition range_pages :: "u64 \<Rightarrow> nat" where
  "range_pages sz = (if sz = 0 then 0 else (unat sz - 1) div 4096 + 1)"

definition marked :: "u64 \<Rightarrow> u64 \<Rightarrow> nat \<Rightarrow> bool" where
  "marked a sz n \<longleftrightarrow>
     (let f = unat a div 4096; pages = range_pages sz
      in f \<le> n \<and> n < f + pages \<and>
         \<not> (pages div 8 = 1 \<and> 8 * (f div 8 + 1) \<le> n \<and> n < 8 * (f div 8 + 1) + f mod 8))"

lemma marked_blocks:
  fixes S B Q R :: nat
  assumes "Q < 8" "R < 8" "p < 8" "n = 8 * q + p"
  shows "((B \<noteq> 0 \<and> (q = S \<and> Q \<le> p \<or> S < q \<and> q < S + B \<or> 1 < B \<and> q = S + B \<and> p < Q)) \<or>
          (R \<noteq> 0 \<and> (q = S + B \<and> Q \<le> p \<and> p < Q + R \<or> q = S + B + 1 \<and> p + 8 < Q + R))) \<longleftrightarrow>
         (8 * S + Q \<le> n \<and> n < 8 * S + Q + (8 * B + R) \<and>
          \<not> (B = 1 \<and> 8 * (S + 1) \<le> n \<and> n < 8 * (S + 1) + Q))"
proof -
  consider "q < S" | "q = S" | "S < q" "q < S + B" | "q = S + B" "B \<noteq> 0" | "q = S + B + 1"
    | "q > S + B + 1" by linarith
  then show ?thesis
  proof cases
    case 5
    then show ?thesis using assms by (auto; presburger)
  qed (use assms in \<open>auto; presburger\<close>)+
qed

text \<open>The word arithmetic of a range update, in natural numbers.\<close>

lemma range_words:
  fixes a sz :: u64
  assumes "sz \<noteq> 0" "unat a + unat sz < 2 ^ 43"
  shows "unat (ucast ((sz - 1) div 4096 + 1) :: u32) = range_pages sz"
    and "unat (ucast (a div 4096 div 8) :: u32) = unat a div 4096 div 8"
    and "unat (ucast (a div 4096 mod 8) :: u32) = unat a div 4096 mod 8"
    and "unat ((ucast (a div 4096 div 8) :: u32) + ucast ((sz - 1) div 4096 + 1) div 8) =
           unat a div 4096 div 8 + range_pages sz div 8"
proof -
  have s: "0 < unat sz" using assms(1) by (simp add: unat_gt_0)
  have p1: "unat (sz - 1) = unat sz - 1" using assms(1) by (rule unat_pred)
  have pg: "unat ((sz - 1) div 4096 + 1) = range_pages sz"
    using assms p1 by (simp add: range_pages_def unat_word_ariths unat_div)
  have pl: "range_pages sz < 2 ^ 32" using assms by (simp add: range_pages_def)
  show e1: "unat (ucast ((sz - 1) div 4096 + 1) :: u32) = range_pages sz"
    using pg pl by (simp add: unat_ucast_mod)
  show e2: "unat (ucast (a div 4096 div 8) :: u32) = unat a div 4096 div 8"
    using assms by (simp add: unat_ucast_mod unat_div)
  show "unat (ucast (a div 4096 mod 8) :: u32) = unat a div 4096 mod 8"
    by (simp add: unat_ucast_mod unat_div unat_mod)
  have "unat a div 4096 div 8 + range_pages sz div 8 < 2 ^ 32"
    using assms by (simp add: range_pages_def)
  then show "unat ((ucast (a div 4096 div 8) :: u32) + ucast ((sz - 1) div 4096 + 1) div 8) =
           unat a div 4096 div 8 + range_pages sz div 8"
    using e1 e2 by (simp add: unat_word_ariths unat_div)
qed

lemma frame_used_if: "frame_used (if c then s else t) n \<longleftrightarrow> (if c then frame_used s n else frame_used t n)"
  by simp

lemma frame_used_mark_range:
  assumes "unat a + unat sz < 2 ^ 43" "n div 8 < 2 ^ 64"
  shows "frame_used (mark_range v a sz s) n \<longleftrightarrow> (if marked a sz n then v else frame_used s n)"
proof (cases "sz = 0")
  case True
  then show ?thesis by (auto simp: mark_range_def marked_def range_pages_def Let_def)
next
  case False
  define S where "S = unat a div 4096 div 8"
  define Q where "Q = unat a div 4096 mod 8"
  define B where "B = range_pages sz div 8"
  define R where "R = range_pages sz mod 8"
  define q where "q = n div 8"
  define p where "p = n mod 8"
  note w = range_words [OF False assms(1)]
  have ql: "Q < 8" "R < 8" "p < 8" by (simp_all add: Q_def R_def p_def)
  have le1: "S + 1 \<le> q \<longleftrightarrow> S < q" by linarith
  have Q7: "Q \<le> 7" using ql by simp
  have n: "n = 8 * q + p" by (simp add: q_def p_def)
  have small: "S + B + 1 < 2 ^ 32"
    using assms False by (simp add: S_def B_def range_pages_def)
  let ?start = "ucast (a div 4096 div 8) :: u32"
  let ?pages = "ucast ((sz - 1) div 4096 + 1) :: u32"
  let ?off = "ucast (a div 4096 mod 8) :: u32"
  let ?last = "?start + ?pages div 8"
  let ?rest = "ucast (?pages mod 8) :: u8"
  have start: "unat ?start = S" and off: "unat ?off = Q" and pages: "unat (?pages div 8) = B"
    and last: "unat ?last = S + B"
    using w by (simp_all add: S_def Q_def B_def unat_div)
  have rest: "unat ?rest = R"
    using w(1) by (simp add: R_def unat_ucast_mod unat_mod)
  have start1: "unat (?start + 1) = S + 1" and end1: "unat (?last + 1) = S + B + 1"
    using start last small by (simp_all add: unat_word_ariths)
  have off8: "unat (8 - ?off) = 8 - Q"
    using off ql by (simp add: unat_sub word_le_nat_alt)
  have rest8: "unat (8 - ?rest) = 8 - R"
    using rest ql by (simp add: unat_sub word_le_nat_alt)
  have b0: "?pages div 8 = 0 \<longleftrightarrow> B = 0" using pages by (simp add: word_unat_eq_iff)
  have b1: "?pages div 8 > 1 \<longleftrightarrow> 1 < B" using pages by (simp add: word_less_nat_alt)
  have r0: "?rest = 0 \<longleftrightarrow> R = 0" using rest by (simp add: word_unat_eq_iff)
  have qb: "n div 8 = q" "n mod 8 = p" by (simp_all add: q_def p_def)
  have bS: "S + B < 2 ^ 64" using small by simp
  have used: "frame_used (mark_range v a sz s) n \<longleftrightarrow>
      (if (B \<noteq> 0 \<and> (q = S \<and> Q \<le> p \<or> S < q \<and> q < S + B \<or> 1 < B \<and> q = S + B \<and> p < Q)) \<or>
          (R \<noteq> 0 \<and> (q = S + B \<and> Q \<le> p \<and> p < Q + R \<or> q = S + B + 1 \<and> p + 8 < Q + R))
       then v else frame_used s n)"
    unfolding mark_range_def Let_def
    by (simp only: False if_False frame_used_if frame_used_set_bm [OF assms(2)]
        frame_used_fold_wr_bm [OF assms(2) bS] start off pages last rest start1 end1 off8 rest8
        b0 b1 r0 qb bit_head_mask bit_tail_mask bit_rest_mask ql less_imp_le Q7 le1) (cases v; cases "frame_used s n"; simp; blast)
  have eq: "8 * S + Q = unat a div 4096" "8 * B + R = range_pages sz"
    by (simp_all add: S_def Q_def B_def R_def)
  show ?thesis
    unfolding used marked_blocks [OF ql n, of B S] eq
    by (simp add: marked_def Let_def S_def Q_def B_def)
qed

lemma wr_bm_fields [simp]:
  "bitmap (wr_bm i b s) = bitmap s" "bitmap_size (wr_bm i b s) = bitmap_size s"
  "last_idx (wr_bm i b s) = last_idx s" "last_idx_bit (wr_bm i b s) = last_idx_bit s"
  "s_pml4_table (wr_bm i b s) = s_pml4_table s" "entries (wr_bm i b s) = entries s"
  "flushed (wr_bm i b s) = flushed s"
  by (simp_all add: wr_bm_def)

lemma set_bm_fields [simp]:
  "bitmap (set_bm v i m s) = bitmap s" "bitmap_size (set_bm v i m s) = bitmap_size s"
  "last_idx (set_bm v i m s) = last_idx s" "last_idx_bit (set_bm v i m s) = last_idx_bit s"
  "s_pml4_table (set_bm v i m s) = s_pml4_table s" "entries (set_bm v i m s) = entries s"
  "flushed (set_bm v i m s) = flushed s"
  by (simp_all add: set_bm_def or_bm_def andnot_bm_def)

lemma fold_wr_bm_fields [simp]:
  "bitmap (fold (\<lambda>i. wr_bm (f i) (b i)) is s) = bitmap s"
  "bitmap_size (fold (\<lambda>i. wr_bm (f i) (b i)) is s) = bitmap_size s"
  "last_idx (fold (\<lambda>i. wr_bm (f i) (b i)) is s) = last_idx s"
  "last_idx_bit (fold (\<lambda>i. wr_bm (f i) (b i)) is s) = last_idx_bit s"
  "s_pml4_table (fold (\<lambda>i. wr_bm (f i) (b i)) is s) = s_pml4_table s"
  "entries (fold (\<lambda>i. wr_bm (f i) (b i)) is s) = entries s"
  "flushed (fold (\<lambda>i. wr_bm (f i) (b i)) is s) = flushed s"
  by (induction "is" arbitrary: s) simp_all

lemma mark_range_fields [simp]:
  "bitmap (mark_range v a sz s) = bitmap s" "bitmap_size (mark_range v a sz s) = bitmap_size s"
  "last_idx (mark_range v a sz s) = last_idx s"
  "last_idx_bit (mark_range v a sz s) = last_idx_bit s"
  "s_pml4_table (mark_range v a sz s) = s_pml4_table s"
  "entries (mark_range v a sz s) = entries s" "flushed (mark_range v a sz s) = flushed s"
  by (simp_all add: mark_range_def Let_def)

lemmas frame_fields [simp] =
  mark_range_fields [of True, folded reserve_frames_mark]
  mark_range_fields [of False, folded free_frames_mark]

lemmas frame_used_reserve = frame_used_mark_range [of _ _ _ True, folded reserve_frames_mark]
lemmas frame_used_free = frame_used_mark_range [of _ _ _ False, folded free_frames_mark]

section \<open>Exactness of the range updates\<close>

text \<open>A bitmap of 32 frames, the first eight given by a byte, for examples.\<close>

definition small_bitmap :: "u8 \<Rightarrow> mm" where
  "small_bitmap b = \<lparr>bitmap = 0x1000, bitmap_size = 4, last_idx = 0, last_idx_bit = 7,
     bytes = (\<lambda>i. if i = 0x1000 then b else 0), s_pml4_table = 0, entries = (\<lambda>_. 0), flushed = []\<rparr>"

lemma marked_hit:
  fixes a sz :: u64
  defines "f \<equiv> unat a div 4096" and "pages \<equiv> (unat sz + 4095) div 4096"
  shows "marked a sz n \<longleftrightarrow> f \<le> n \<and> n < f + pages \<and>
      \<not> (pages div 8 = 1 \<and> 8 * (f div 8 + 1) \<le> n \<and> n < 8 * (f div 8 + 1) + f mod 8)"
proof -
  have "range_pages sz = pages"
  proof (cases "sz = 0")
    case False
    then obtain k where "unat sz = Suc k" by (metis unat_eq_zero not0_implies_Suc)
    then show ?thesis using False by (simp add: range_pages_def pages_def)
  qed (simp add: range_pages_def pages_def)
  then show ?thesis by (simp add: marked_def f_def Let_def)
qed

text \<open>C29:
  Reserving or freeing a range that ends below 2^43 sets or clears exactly the frames of the
  range, partial last frame included, and no other frame -- except that a range of eight to fifteen
  frames that starts inside a bitmap byte leaves out the frames of the next byte that precede the
  start's offset, because the tail byte is only written when more than one whole block is covered.
\<close>

theorem frame_ranges_exact:
  assumes "unat a + unat sz < 2 ^ 43" "n div 8 < 2 ^ 64"
  defines "f \<equiv> unat a div 4096" and "pages \<equiv> (unat sz + 4095) div 4096"
  defines "hit \<equiv> f \<le> n \<and> n < f + pages \<and>
      \<not> (pages div 8 = 1 \<and> 8 * (f div 8 + 1) \<le> n \<and> n < 8 * (f div 8 + 1) + f mod 8)"
  shows "(frame_used (reserve_frames a sz s) n \<longleftrightarrow> hit \<or> frame_used s n) \<and>
         (frame_used (free_frames a sz s) n \<longleftrightarrow> \<not> hit \<and> frame_used s n)"
proof -
  have "marked a sz n \<longleftrightarrow> hit" using marked_hit [of a sz n] by (simp add: hit_def f_def pages_def)
  then show ?thesis
    using frame_used_reserve [OF assms(1,2), of s] frame_used_free [OF assms(1,2), of s] by auto
qed

theorem frame_ranges_exact_witness:
  "frame_used (reserve_frames 0x4000 0x8000 (small_bitmap 0)) 7 \<and>
   \<not> frame_used (reserve_frames 0x4000 0x8000 (small_bitmap 0)) 8"
  using frame_ranges_exact [where a = "0x4000" and sz = "0x8000" and n = 7 and s = "small_bitmap 0"]
    frame_ranges_exact [where a = "0x4000" and sz = "0x8000" and n = 8 and s = "small_bitmap 0"]
  by (simp add: small_bitmap_def frame_used_def rd_bm_def)

end
