(* ===== verification/Frame_Alloc.thy ===== *)
theory Frame_Alloc
  imports Frames
begin

text \<open>
  The search of \<open>pmm_alloc_unmapped\<close> in \<open>src/src/memory/phys.c\<close>: the scan over the bytes and bits of
  the bitmap from the hint on, with one retry from the start of the bitmap; its equivalence with a
  linear scan over frame numbers; soundness and completeness of an allocation; the interface a
  client of single frames relies on.
\<close>

section \<open>Searching for free frames\<close>

text \<open>
  The inner loop over the bits of a block, from bit \<open>n - 1\<close> down: \<open>Inl\<close> the bit where the run of
  free frames is long enough, with the length of the run, or \<open>Inr\<close> the length of the run that
  reaches the end of the block.
\<close>

fun scan_bits :: "u8 \<Rightarrow> u64 \<Rightarrow> nat \<Rightarrow> u64 \<Rightarrow> nat \<times> u64 + u64" where
  "scan_bits b count 0 continues_frames = Inr continues_frames"
| "scan_bits b count (Suc j) continues_frames =
     (if drop_bit j b AND 1 = 0 then
        (let continues_frames = continues_frames + 1
         in if continues_frames \<ge> count then Inl (j, continues_frames)
            else scan_bits b count j continues_frames)
      else scan_bits b count j 0)"

text \<open>\<open>int8_t j = last_idx_bit\<close> gives the loop \<open>j + 1\<close> rounds.\<close>

definition bit_rounds :: "u64 \<Rightarrow> nat" where
  "bit_rounds v = nat (sint (ucast v :: u8) + 1)"

function alloc_scan :: "u64 \<Rightarrow> u64 \<Rightarrow> u64 \<Rightarrow> mm \<Rightarrow> u64 \<times> mm" where
  "alloc_scan count i continues_frames s =
     (if i < bitmap_size s then
        let b = rd_bm s i
        in (case (if b \<noteq> 0xff then scan_bits b count (bit_rounds (last_idx_bit s)) continues_frames
                  else Inr 0) of
              Inl (j, continues_frames') \<Rightarrow>
                let s1 = s\<lparr>last_idx := i, last_idx_bit := of_nat j\<rparr>;
                    addr = (i * 8 + (8 - of_nat j) - continues_frames') * 4096
                in (addr, reserve_frames addr (continues_frames' * 4096) s1)
            | Inr continues_frames' \<Rightarrow>
                alloc_scan count (i + 1) continues_frames' (s\<lparr>last_idx_bit := 7\<rparr>))
      else (0, s))"
  by pat_completeness auto
termination
proof (relation "measure (\<lambda>(count, i, c, s). unat (bitmap_size s) - unat i)", goal_cases)
  case 1
  show ?case by simp
next
  case (2 count i c s b c')
  then have "unat (i + 1) = unat i + 1" by (intro unat_Suc_less)
  then show ?case using 2(1) by (simp add: word_less_nat_alt)
qed

definition pmm_alloc_unmapped_once :: "u64 \<Rightarrow> mm \<Rightarrow> u64 \<times> mm" where
  "pmm_alloc_unmapped_once count s =
     (if count = 0 then (0, s) else alloc_scan count (last_idx s) 0 s)"

definition pmm_alloc_unmapped :: "u64 \<Rightarrow> mm \<Rightarrow> u64 \<times> mm" where
  "pmm_alloc_unmapped count s =
     (let (addr, s1) = pmm_alloc_unmapped_once count s
      in if addr = 0 then pmm_alloc_unmapped_once count (s1\<lparr>last_idx := 0\<rparr>) else (addr, s1))"

section \<open>The search as a linear scan\<close>

text \<open>
  The search over bytes and bits, as a scan over frame numbers: \<open>find_run used cnt p c n\<close> looks at
  the \<open>n\<close> frames from \<open>p\<close> on, the \<open>c\<close> frames before \<open>p\<close> being free, and returns the first frame of
  the first run of \<open>cnt\<close> free frames.
\<close>

fun find_run :: "(nat \<Rightarrow> bool) \<Rightarrow> nat \<Rightarrow> nat \<Rightarrow> nat \<Rightarrow> nat \<Rightarrow> nat option" where
  "find_run used cnt p c 0 = None"
| "find_run used cnt p c (Suc n) =
     (if used p then find_run used cnt (p + 1) 0 n
      else if cnt \<le> c + 1 then Some (p - c)
      else find_run used cnt (p + 1) (c + 1) n)"

definition free_run :: "(nat \<Rightarrow> bool) \<Rightarrow> nat \<Rightarrow> nat \<Rightarrow> bool" where
  "free_run used q cnt \<longleftrightarrow> (\<forall>k\<in>{q..<q + cnt}. \<not> used k)"

lemma find_run_Some:
  assumes "find_run used cnt p c n = Some q" "c < cnt" "c \<le> p" "free_run used (p - c) c"
  shows "p - c \<le> q \<and> q + cnt \<le> p + n \<and> free_run used q cnt"
  using assms
proof (induction used cnt p c n rule: find_run.induct)
  case (1 used cnt p c)
  then show ?case by simp
next
  case (2 used cnt p c n)
  show ?case
  proof (cases "used p")
    case True
    then have "find_run used cnt (p + 1) 0 n = Some q" using "2.prems" by simp
    from "2.IH"(1) [OF True this] "2.prems" show ?thesis by (auto simp: free_run_def)
  next
    case False
    have run: "free_run used (p - c) (c + 1)"
      using False "2.prems" by (auto simp: free_run_def less_Suc_eq)
    show ?thesis
    proof (cases "cnt \<le> c + 1")
      case True
      then have "cnt = c + 1" using "2.prems" by simp
      then show ?thesis using "2.prems" False run by simp
    next
      case c: False
      then have "find_run used cnt (p + 1) (c + 1) n = Some q" using False "2.prems" by simp
      from "2.IH"(2) [OF False c this] "2.prems" c run show ?thesis by auto
    qed
  qed
qed

lemma find_run_None:
  assumes "find_run used cnt p c n = None" "c < cnt" "c \<le> p"
    "p - c \<le> q" "q + cnt \<le> p + n"
  shows "\<not> free_run used q cnt"
  using assms
proof (induction used cnt p c n rule: find_run.induct)
  case (1 used cnt p c)
  then show ?case by simp
next
  case (2 used cnt p c n)
  show ?case
  proof (cases "used p")
    case True
    show ?thesis
    proof (cases "q \<le> p")
      case q: True
      have "p < q + cnt" using "2.prems" by linarith
      then show ?thesis using True q by (auto simp: free_run_def)
    next
      case False
      then show ?thesis using "2.IH"(1) [OF True] True "2.prems" by simp
    qed
  next
    case False
    then have "\<not> cnt \<le> c + 1" using "2.prems" by auto
    then show ?thesis using "2.IH"(2) [OF False] False "2.prems" by simp
  qed
qed

text \<open>The frames before position \<open>p\<close> that a run of \<open>c\<close> frames has collected.\<close>

definition open_run :: "(nat \<Rightarrow> bool) \<Rightarrow> nat \<Rightarrow> nat \<Rightarrow> bool" where
  "open_run used p c \<longleftrightarrow> c \<le> p \<and> free_run used (p - c) c"

lemma open_run_0 [simp]: "open_run used p 0"
  by (simp add: open_run_def free_run_def)

lemma open_run_Suc: "open_run used p c \<Longrightarrow> \<not> used p \<Longrightarrow> open_run used (Suc p) (Suc c)"
  by (auto simp: open_run_def free_run_def less_Suc_eq)

lemma div_mod_8: "(t :: nat) < 8 \<Longrightarrow> (8 * x + t) div 8 = x \<and> (8 * x + t) mod 8 = t"
  by simp

lemma scan_bits_run:
  assumes "j \<le> 8" "unat c < unat count"
    "\<forall>k<8. used (8 * i + k) \<longleftrightarrow> bit b (7 - k)" "open_run used (8 * i + (8 - j)) (unat c)"
  shows "case scan_bits b count j c of
      Inl (j', c') \<Rightarrow> j' < j \<and> c' = count \<and> unat count \<le> 8 * i + (8 - j') \<and>
        find_run used (unat count) (8 * i + (8 - j)) (unat c) (j + m) =
          Some (8 * i + (8 - j') - unat count)
    | Inr c' \<Rightarrow> unat c' < unat count \<and> open_run used (8 * i + 8) (unat c') \<and>
        find_run used (unat count) (8 * i + (8 - j)) (unat c) (j + m) =
          find_run used (unat count) (8 * i + 8) (unat c') m"
  using assms(1,2,4)
proof (induction j arbitrary: c)
  case 0
  then show ?case by simp
next
  case (Suc j)
  define p where "p = 8 * i + (7 - j)"
  have p: "8 * i + (8 - Suc j) = p" "8 * i + (8 - j) = Suc p"
    using Suc.prems(1) by (simp_all add: p_def)
  have u: "used p \<longleftrightarrow> bit b j"
    using assms(3) [rule_format, of "7 - j"] Suc.prems by (simp add: p_def)
  have one: "drop_bit j b AND 1 = 0 \<longleftrightarrow> \<not> bit b j"
    by (simp add: and_one_eq bit_iff_odd_drop_bit odd_iff_mod_2_eq_one)
  have c1: "unat (c + 1) = unat c + 1"
    using Suc.prems by (intro unat_Suc_less) (simp add: word_less_nat_alt)
  show ?case
  proof (cases "bit b j")
    case True
    then show ?thesis
      using Suc.IH [of 0] Suc.prems u p by (auto simp: one split: sum.splits)
  next
    case False
    have run: "open_run used (Suc p) (unat (c + 1))"
      using Suc.prems(3) [unfolded p] False u c1 by (simp add: open_run_Suc)
    show ?thesis
    proof (cases "count \<le> c + 1")
      case True
      then have "unat count = unat c + 1"
        using Suc.prems c1 by (simp add: word_le_nat_alt)
      then have cnt: "count = c + 1" "unat count = unat c + 1"
        using c1 by (simp_all add: word_unat_eq_iff)
      then show ?thesis using False u p Suc.prems c1 run
        by (auto simp: one Let_def open_run_def)
    next
      case c: False
      then have "unat (c + 1) < unat count" by (simp add: word_le_nat_alt)
      then show ?thesis
        using Suc.IH [of "c + 1"] Suc.prems u p False c c1 run
        by (auto simp: one Let_def word_le_nat_alt split: sum.splits)
    qed
  qed
qed

lemma find_run_skip:
  assumes "\<forall>k\<in>{p..<p + j}. used k" "0 < j"
  shows "find_run used cnt p c (j + n) = find_run used cnt (p + j) 0 n"
  using assms
proof (induction j arbitrary: p c)
  case 0
  then show ?case by simp
next
  case (Suc j)
  then have "used p" "\<forall>k\<in>{Suc p..<Suc p + j}. used k" by auto
  then show ?case using Suc.IH [of "Suc p" 0] by (cases "j = 0") simp_all
qed

text \<open>
  The allocator's invariant: the bitmap covers less than 2^43 bytes of memory, the hint is a bit of
  the bitmap, and frame 0 is used (it belongs to the boot section).
\<close>

definition pmm_ok :: "mm \<Rightarrow> bool" where
  "pmm_ok s \<longleftrightarrow> unat (bitmap_size s) < 2 ^ 28 \<and> unat (last_idx_bit s) \<le> 7 \<and>
     (last_idx s < bitmap_size s \<or> last_idx_bit s = 7) \<and> frame_used s 0"

definition pmm_frames :: "mm \<Rightarrow> nat" where
  "pmm_frames s = 8 * unat (bitmap_size s)"

definition frame_addr :: "nat \<Rightarrow> u64" where
  "frame_addr q = of_nat (q * 4096)"

lemma unat_frame_addr:
  assumes "q < 2 ^ 31"
  shows "unat (frame_addr q) = q * 4096"
proof -
  have "q * 4096 < 2 ^ 64" using assms by simp
  then show ?thesis by (simp only: frame_addr_def unat_of_nat take_bit_eq_mod) simp
qed

text \<open>What the search does when it finds the run of \<open>cnt\<close> frames from frame \<open>q\<close> on, or none.\<close>

definition take_run :: "nat \<Rightarrow> nat option \<Rightarrow> mm \<Rightarrow> mm \<Rightarrow> u64 \<times> mm" where
  "take_run cnt r t s = (case r of
      None \<Rightarrow> (0, t)
    | Some q \<Rightarrow> (frame_addr q, reserve_frames (frame_addr q) (frame_addr cnt)
        (s\<lparr>last_idx := of_nat ((q + cnt - 1) div 8),
           last_idx_bit := of_nat (7 - (q + cnt - 1) mod 8)\<rparr>)))"

lemma bit_rounds_eq: "unat v \<le> 7 \<Longrightarrow> bit_rounds v = unat v + 1"
proof -
  assume v: "unat v \<le> 7"
  then have "v = of_nat (unat v)" by simp
  moreover have "unat v \<in> {0, 1, 2, 3, 4, 5, 6, 7}" using v by auto
  ultimately show "bit_rounds v = unat v + 1"
    by (elim insertE) (simp_all add: bit_rounds_def)
qed

lemma frame_used_block:
  assumes "k < 8"
  shows "frame_used s (8 * unat i + k) \<longleftrightarrow> bit (rd_bm s i) (7 - k)"
  using assms by (simp add: frame_used_def)

lemma frame_used_hint [simp]:
  "frame_used (s\<lparr>last_idx := x\<rparr>) = frame_used s" "frame_used (s\<lparr>last_idx_bit := y\<rparr>) = frame_used s"
  by (auto simp: frame_used_def rd_bm_def fun_eq_iff)

lemma rd_bm_hint [simp]: "rd_bm (s\<lparr>last_idx_bit := y\<rparr>) i = rd_bm s i"
  by (simp add: rd_bm_def)

lemma alloc_block_run:
  fixes m :: nat
  assumes "unat (last_idx_bit s) \<le> 7" "unat c < unat count"
  defines "R \<equiv> unat (last_idx_bit s) + 1"
  assumes "open_run (frame_used s) (8 * unat i + (8 - R)) (unat c)"
  shows "case (if rd_bm s i \<noteq> 0xff
          then scan_bits (rd_bm s i) count (bit_rounds (last_idx_bit s)) c else Inr 0) of
      Inl (j, c') \<Rightarrow> j < 8 \<and> c' = count \<and> unat count \<le> 8 * unat i + (8 - j) \<and>
        find_run (frame_used s) (unat count) (8 * unat i + (8 - R)) (unat c) (R + m) =
          Some (8 * unat i + (8 - j) - unat count)
    | Inr c' \<Rightarrow> unat c' < unat count \<and> open_run (frame_used s) (8 * unat i + 8) (unat c') \<and>
        find_run (frame_used s) (unat count) (8 * unat i + (8 - R)) (unat c) (R + m) =
          find_run (frame_used s) (unat count) (8 * unat i + 8) (unat c') m"
proof (cases "rd_bm s i = 0xff")
  case True
  have m: "(0xff :: u8) = mask 8" by (simp add: mask_eq_exp_minus_1)
  have "frame_used s k" if "k \<in> {8 * unat i + (8 - R)..<8 * unat i + (8 - R) + R}" for k
  proof -
    have "k = 8 * unat i + (k - 8 * unat i)" "k - 8 * unat i < 8"
      using that assms by (auto simp: R_def)
    then show ?thesis
      using frame_used_block [of "k - 8 * unat i" s i] True by (simp add: m bit_simps)
  qed
  then have "find_run (frame_used s) (unat count) (8 * unat i + (8 - R)) (unat c) (R + m) =
      find_run (frame_used s) (unat count) (8 * unat i + 8) 0 m"
    using find_run_skip [of "8 * unat i + (8 - R)" R "frame_used s"] assms(1)
    by (simp add: R_def add.commute)
  then show ?thesis using True assms(2) by simp
next
  case False
  have r: "bit_rounds (last_idx_bit s) = R" using assms(1) by (simp add: bit_rounds_eq R_def)
  have "\<forall>k<8. frame_used s (8 * unat i + k) \<longleftrightarrow> bit (rd_bm s i) (7 - k)"
    by (simp add: frame_used_block)
  from scan_bits_run [OF _ assms(2) this assms(4), of m] assms(1)
  show ?thesis using False by (auto simp: r R_def split: sum.splits)
qed

text \<open>The address that the scan computes when the run of \<open>count\<close> frames ends at bit \<open>j\<close> of byte \<open>i\<close>, and the hints it leaves.\<close>

lemma found_address:
  fixes i count :: u64
  assumes "j < 8" "unat count \<le> 8 * unat i + (8 - j)" "0 < unat count" "q = 8 * unat i + (8 - j) - unat count"
  shows "(i * 8 + (8 - of_nat j) - count) * 4096 = frame_addr q"
    and "(q + unat count - 1) div 8 = unat i" "7 - (q + unat count - 1) mod 8 = j"
proof -
  have last: "q + unat count - 1 = 8 * unat i + (7 - j)" using assms by auto
  show "(q + unat count - 1) div 8 = unat i" "7 - (q + unat count - 1) mod 8 = j"
    unfolding last using div_mod_8 [of "7 - j" "unat i"] assms(1) by auto
  have "(of_nat q :: u64) + count = of_nat (q + unat count)" by simp
  also have "q + unat count = 8 * unat i + (8 - j)" using assms(2,4) by simp
  also have "(of_nat (8 * unat i + (8 - j)) :: u64) = i * 8 + (8 - of_nat j)"
    using assms(1) by (simp add: of_nat_diff)
  finally have "i * 8 + (8 - of_nat j) - count = (of_nat q :: u64)"
    by (metis add_diff_cancel_right')
  then show "(i * 8 + (8 - of_nat j) - count) * 4096 = frame_addr q" by (simp add: frame_addr_def)
qed

lemma alloc_scan_run:
  assumes "unat (last_idx_bit s) \<le> 7" "unat c < unat count"
    "unat (bitmap_size s) < 2 ^ 28"
    "open_run (frame_used s) (8 * unat i + (7 - unat (last_idx_bit s))) (unat c)"
  shows "alloc_scan count i c s = take_run (unat count)
      (find_run (frame_used s) (unat count) (8 * unat i + (7 - unat (last_idx_bit s))) (unat c)
         (pmm_frames s - (8 * unat i + (7 - unat (last_idx_bit s)))))
      (if i < bitmap_size s then s\<lparr>last_idx_bit := 7\<rparr> else s) s"
  using assms
proof (induction count i c s rule: alloc_scan.induct)
  case (1 count i c s)
  show ?case
  proof (cases "i < bitmap_size s")
    case False
    then have "pmm_frames s - (8 * unat i + (7 - unat (last_idx_bit s))) = 0"
      using "1.prems"(1) by (simp add: pmm_frames_def word_less_nat_alt)
    then show ?thesis using False by (simp add: take_run_def)
  next
    case True
    then have ib: "unat i < unat (bitmap_size s)" by (simp add: word_less_nat_alt)
    define R where "R = unat (last_idx_bit s) + 1"
    define m where "m = pmm_frames s - (8 * unat i + 8)"
    define p where "p = 8 * unat i + (8 - R)"
    define r where "r = (if rd_bm s i \<noteq> 0xff
          then scan_bits (rd_bm s i) count (bit_rounds (last_idx_bit s)) c else Inr 0)"
    have p: "8 * unat i + (7 - unat (last_idx_bit s)) = p"
      using "1.prems"(1) by (simp add: p_def R_def)
    have n: "pmm_frames s - p = R + m"
      using ib "1.prems"(1) by (simp add: p_def R_def m_def pmm_frames_def)
    have "open_run (frame_used s) (8 * unat i + (8 - (unat (last_idx_bit s) + 1))) (unat c)"
      using "1.prems"(1,4) by simp
    note blk = alloc_block_run [OF "1.prems"(1,2) this, of m, folded R_def, folded p_def r_def]
    have step: "alloc_scan count i c s = (case r of
              Inl (j, c') \<Rightarrow>
                let s1 = s\<lparr>last_idx := i, last_idx_bit := of_nat j\<rparr>;
                    addr = (i * 8 + (8 - of_nat j) - c') * 4096
                in (addr, reserve_frames addr (c' * 4096) s1)
            | Inr c' \<Rightarrow> alloc_scan count (i + 1) c' (s\<lparr>last_idx_bit := 7\<rparr>))"
      using True by (subst alloc_scan.simps) (simp add: r_def Let_def del: alloc_scan.simps)
    show ?thesis
    proof (cases r)
      case (Inl x)
      obtain j c' where x: "x = (j, c')" by (cases x)
      define q where "q = 8 * unat i + (8 - j) - unat count"
      have j: "j < 8" and c': "c' = count" and cnt: "unat count \<le> 8 * unat i + (8 - j)"
        and found: "find_run (frame_used s) (unat count) p (unat c) (R + m) = Some q"
        using blk Inl x by (auto simp: q_def)
      have cnt0: "0 < unat count" using "1.prems"(2) by simp
      note found_at = found_address [OF j cnt cnt0 q_def]
      note idx = found_at(2,3)
      note found_at(1)
      moreover have "count * 4096 = frame_addr (unat count)" by (simp add: frame_addr_def)
      ultimately show ?thesis
        unfolding step p n found
        by (simp only: Inl x c' Let_def take_run_def idx sum.case option.case prod.case) simp
    next
      case (Inr c')
      have c': "unat c' < unat count" "open_run (frame_used s) (8 * unat i + 8) (unat c')"
        and same: "find_run (frame_used s) (unat count) p (unat c) (R + m) =
          find_run (frame_used s) (unat count) (8 * unat i + 8) (unat c') m"
        using blk Inr by auto
      have i1: "unat (i + 1) = unat i + 1" using True by (intro unat_Suc_less)
      have m: "m = pmm_frames (s\<lparr>last_idx_bit := 7\<rparr>) - 8 * (unat i + 1)"
        by (simp add: m_def pmm_frames_def)
      define s1 where "s1 = s\<lparr>last_idx_bit := 7\<rparr>"
      have s1: "unat (last_idx_bit s1) = 7" "bitmap_size s1 = bitmap_size s"
        "frame_used s1 = frame_used s" "s1\<lparr>last_idx_bit := 7\<rparr> = s1"
        by (simp_all add: s1_def)
      have run: "open_run (frame_used s1) (8 * unat (i + 1) + (7 - unat (last_idx_bit s1))) (unat c')"
        using c' i1 by (simp only: s1) (simp add: add.commute)
      have "alloc_scan count (i + 1) c' s1 = take_run (unat count)
         (find_run (frame_used s1) (unat count) (8 * unat (i + 1) + (7 - unat (last_idx_bit s1))) (unat c')
            (pmm_frames s1 - (8 * unat (i + 1) + (7 - unat (last_idx_bit s1)))))
         (if i + 1 < bitmap_size s1 then s1\<lparr>last_idx_bit := 7\<rparr> else s1) s1"
        unfolding s1_def
        by (rule "1.IH" [OF True refl Inr [unfolded r_def]])
          (use c' "1.prems"(3) run s1 in \<open>simp_all add: s1_def\<close>)
      then have "alloc_scan count (i + 1) c' s1 = take_run (unat count)
         (find_run (frame_used s) (unat count) (8 * unat i + 8) (unat c') m) s1 s1"
        using i1 by (simp only: s1) (simp add: m_def pmm_frames_def s1_def add.commute)
      then show ?thesis
        unfolding step p n same using True by (simp add: Inr s1_def take_run_def del: alloc_scan.simps split: option.splits)
    qed
  qed
qed

lemma pmm_alloc_unmapped_once_run:
  assumes "pmm_ok s" "0 < unat count"
  shows "pmm_alloc_unmapped_once count s = take_run (unat count)
      (find_run (frame_used s) (unat count) (8 * unat (last_idx s) + (7 - unat (last_idx_bit s))) 0
         (pmm_frames s - (8 * unat (last_idx s) + (7 - unat (last_idx_bit s)))))
      (if last_idx s < bitmap_size s then s\<lparr>last_idx_bit := 7\<rparr> else s) s"
proof -
  have "count \<noteq> 0" using assms(2) by auto
  then show ?thesis
    using assms alloc_scan_run [of s 0 count "last_idx s"]
    by (simp add: pmm_alloc_unmapped_once_def pmm_ok_def)
qed

lemma unat_of_nat_bit: "unat (of_nat (7 - k) :: u64) \<le> 7"
proof -
  have "7 - k < 2 ^ 64" by simp
  then have "unat (of_nat (7 - k) :: u64) = 7 - k"
    by (simp only: unat_of_nat take_bit_eq_mod) simp
  then show ?thesis by simp
qed

text \<open>The effect of taking a run that the search found.\<close>

lemma take_run_Some:
  assumes "pmm_ok s" "0 < cnt" "free_run (frame_used s) q cnt" "q + cnt \<le> pmm_frames s"
    "take_run cnt (Some q) t s = (addr, s')"
  shows "unat addr = q * 4096" "0 < q" "pmm_ok s'"
    "n div 8 < 2 ^ 64 \<Longrightarrow>
       frame_used s' n \<longleftrightarrow> marked addr (frame_addr cnt) n \<or> frame_used s n"
    "bitmap s' = bitmap s" "bitmap_size s' = bitmap_size s" "s_pml4_table s' = s_pml4_table s"
    "entries s' = entries s" "flushed s' = flushed s"
proof -
  have bs: "unat (bitmap_size s) < 2 ^ 28" and u0: "frame_used s 0"
    using assms(1) by (simp_all add: pmm_ok_def)
  have q31: "q < 2 ^ 31" "cnt < 2 ^ 31" "q + cnt < 2 ^ 31"
    using assms(2,4) bs by (simp_all add: pmm_frames_def)
  have addr: "addr = frame_addr q" and s': "s' = reserve_frames (frame_addr q) (frame_addr cnt)
        (s\<lparr>last_idx := of_nat ((q + cnt - 1) div 8),
           last_idx_bit := of_nat (7 - (q + cnt - 1) mod 8)\<rparr>)"
    using assms(5) by (auto simp: take_run_def)
  show ua: "unat addr = q * 4096" unfolding addr using q31 by (simp only: unat_frame_addr)
  have uc: "unat (frame_addr cnt) = cnt * 4096"
    using q31 by (simp only: unat_frame_addr)
  show "0 < q" using assms(2,3) u0 by (cases "q = 0") (auto simp: free_run_def)
  have lim: "unat (frame_addr q) + unat (frame_addr cnt) < 2 ^ 43"
    unfolding ua [unfolded addr] uc using q31 by simp
  show fu: "n div 8 < 2 ^ 64 \<Longrightarrow>
       frame_used s' n \<longleftrightarrow> marked addr (frame_addr cnt) n \<or> frame_used s n" for n
    unfolding s' addr by (simp add: frame_used_reserve [OF lim])
  show "bitmap s' = bitmap s" "bitmap_size s' = bitmap_size s" "s_pml4_table s' = s_pml4_table s"
    "entries s' = entries s" "flushed s' = flushed s"
    by (simp_all add: s')
  have "(q + cnt - 1) div 8 < unat (bitmap_size s)"
    using assms(2,4) by (simp add: pmm_frames_def div_less_iff_less_mult)
  then have "(of_nat ((q + cnt - 1) div 8) :: u64) < bitmap_size s"
    by (simp add: word_less_nat_alt unat_of_nat)
  then show "pmm_ok s'"
    using fu [of 0] u0 bs unat_of_nat_bit [of "(q + cnt - 1) mod 8"] unfolding pmm_ok_def
    by (simp add: s' del: of_nat_diff)
qed

lemma range_pages_frames:
  assumes "cnt < 2 ^ 31"
  shows "range_pages (frame_addr cnt) = cnt"
proof (cases cnt)
  case 0
  then show ?thesis by (simp add: range_pages_def frame_addr_def)
next
  case (Suc k)
  have u: "unat (frame_addr cnt) = cnt * 4096" using assms by (rule unat_frame_addr)
  then have "frame_addr cnt \<noteq> 0" using Suc by auto
  then show ?thesis using u Suc by (simp add: range_pages_def)
qed

lemma pmm_alloc_unmapped_cases:
  assumes "pmm_ok s" "0 < unat count" "pmm_alloc_unmapped count s = (addr, s')"
  shows "(\<exists>q t. pmm_ok t \<and> frame_used t = frame_used s \<and> bitmap t = bitmap s \<and>
           bitmap_size t = bitmap_size s \<and> s_pml4_table t = s_pml4_table s \<and>
           entries t = entries s \<and> flushed t = flushed s \<and>
           free_run (frame_used s) q (unat count) \<and> q + unat count \<le> pmm_frames s \<and>
           take_run (unat count) (Some q) t t = (addr, s')) \<or>
         (addr = 0 \<and> s' = s\<lparr>last_idx := 0, last_idx_bit := 7\<rparr> \<and>
           (\<forall>q. q + unat count \<le> pmm_frames s \<longrightarrow> \<not> free_run (frame_used s) q (unat count)))"
proof -
  define p where "p = 8 * unat (last_idx s) + (7 - unat (last_idx_bit s))"
  define n where "n = pmm_frames s - p"
  define s1 where "s1 = (if last_idx s < bitmap_size s then s\<lparr>last_idx_bit := 7\<rparr> else s)"
  have once: "pmm_alloc_unmapped_once count s =
      take_run (unat count) (find_run (frame_used s) (unat count) p 0 n) s1 s"
    using pmm_alloc_unmapped_once_run [OF assms(1,2)] by (simp only: p_def n_def s1_def)
  show ?thesis
  proof (cases "find_run (frame_used s) (unat count) p 0 n")
    case (Some q)
    have q: "free_run (frame_used s) q (unat count)" "p \<le> q" "q + unat count \<le> p + n"
      using find_run_Some [OF Some] assms(2) by (auto simp: free_run_def)
    then have qn: "q + unat count \<le> pmm_frames s" using assms(2) by (auto simp: n_def)
    obtain a' t' where t': "take_run (unat count) (Some q) s1 s = (a', t')" by (cases "take_run (unat count) (Some q) s1 s")
    from take_run_Some (1,2) [OF assms(1,2) q(1) qn t'] have "a' \<noteq> 0" by auto
    then have "take_run (unat count) (Some q) s1 s = (addr, s')"
      using assms(3) by (simp add: pmm_alloc_unmapped_def once Some t')
    then have "take_run (unat count) (Some q) s s = (addr, s')" by (auto simp: take_run_def)
    then show ?thesis using q(1) qn assms(1) by blast
  next
    case None
    define t where "t = s\<lparr>last_idx := 0, last_idx_bit := 7\<rparr>"
    have s1: "s1\<lparr>last_idx := 0\<rparr> = t"
      using assms(1) by (auto simp: s1_def t_def pmm_ok_def)
    have t: "pmm_ok t" "frame_used t = frame_used s" "bitmap t = bitmap s"
      "bitmap_size t = bitmap_size s" "s_pml4_table t = s_pml4_table s" "entries t = entries s"
      "flushed t = flushed s" "pmm_frames t = pmm_frames s" "last_idx t = 0" "last_idx_bit t = 7"
      "t\<lparr>last_idx_bit := 7\<rparr> = t"
      using assms(1) by (simp_all add: pmm_ok_def t_def pmm_frames_def)
    have again: "pmm_alloc_unmapped_once count t =
        take_run (unat count) (find_run (frame_used s) (unat count) 0 0 (pmm_frames s)) t t"
      using pmm_alloc_unmapped_once_run [OF t(1) assms(2)] by (simp add: t(2,8-11))
    have res: "take_run (unat count) (find_run (frame_used s) (unat count) 0 0 (pmm_frames s)) t t
        = (addr, s')"
      using assms(3) None again by (simp add: pmm_alloc_unmapped_def once s1 take_run_def)
    show ?thesis
    proof (cases "find_run (frame_used s) (unat count) 0 0 (pmm_frames s)")
      case None
      from find_run_None [OF this] assms(2) res None show ?thesis
        by (simp add: take_run_def t_def)
    next
      case (Some q)
      have "free_run (frame_used s) q (unat count)" "q + unat count \<le> pmm_frames s"
        using find_run_Some [OF Some] assms(2) by (auto simp: free_run_def)
      then show ?thesis using res Some t(1-7) by (intro disjI1 exI [of _ q] exI [of _ t]) simp
    qed
  qed
qed

text \<open>C1:
  An allocation of \<open>count\<close> frames that returns an address gives frames of the bitmap that
  were all free, never frame 0; afterwards exactly the frames the range update reaches are used in
  addition, and the allocator's invariant holds.
\<close>

theorem pmm_alloc_sound:
  assumes "pmm_ok s" "count \<noteq> 0" "pmm_alloc_unmapped count s = (addr, s')" "addr \<noteq> 0"
  shows "\<exists>f. unat addr = 4096 * f \<and> 0 < f \<and> f + unat count \<le> pmm_frames s \<and>
      (\<forall>n. f \<le> n \<and> n < f + unat count \<longrightarrow> \<not> frame_used s n) \<and>
      (\<forall>n. n div 8 < 2 ^ 64 \<longrightarrow> frame_used s' n \<longleftrightarrow>
         (f \<le> n \<and> n < f + unat count \<and>
            \<not> (unat count div 8 = 1 \<and> 8 * (f div 8 + 1) \<le> n \<and> n < 8 * (f div 8 + 1) + f mod 8)) \<or>
         frame_used s n) \<and>
      pmm_ok s'"
proof -
  have c: "0 < unat count" using assms(2) by (simp add: unat_gt_0)
  from pmm_alloc_unmapped_cases [OF assms(1) c assms(3)] assms(4)
  obtain q t where t: "pmm_ok t" "frame_used t = frame_used s" "bitmap_size t = bitmap_size s"
      "free_run (frame_used t) q (unat count)" "q + unat count \<le> pmm_frames t"
      "take_run (unat count) (Some q) t t = (addr, s')"
    by (auto simp: pmm_frames_def)
  note r = take_run_Some [OF t(1) c t(4,5,6)]
  have small: "unat count < 2 ^ 31"
    using t(1,5) by (simp add: pmm_ok_def pmm_frames_def)
  then have "marked addr (frame_addr (unat count)) n \<longleftrightarrow> (q \<le> n \<and> n < q + unat count \<and>
            \<not> (unat count div 8 = 1 \<and> 8 * (q div 8 + 1) \<le> n \<and> n < 8 * (q div 8 + 1) + q mod 8))" for n
    by (simp add: marked_def r(1) range_pages_frames Let_def)
  then show ?thesis
    using r(1-4) t by (intro exI [of _ q]) (auto simp: free_run_def pmm_frames_def)
qed

lemma small_bitmap_ok: "pmm_ok (small_bitmap 0xf0)"
  by (simp add: small_bitmap_def pmm_ok_def frame_used_def rd_bm_def)

lemma small_bitmap_alloc: "fst (pmm_alloc_unmapped 3 (small_bitmap 0xf0)) = 0x4000"
  by code_simp

theorem pmm_alloc_sound_witness:
  "\<exists>f. unat (0x4000 :: u64) = 4096 * f \<and>
     \<not> frame_used (small_bitmap 0xf0) f \<and> \<not> frame_used (small_bitmap 0xf0) (f + 2)"
proof -
  obtain s' where "pmm_alloc_unmapped 3 (small_bitmap 0xf0) = (0x4000, s')"
    using small_bitmap_alloc by (metis prod.collapse)
  from pmm_alloc_sound [OF small_bitmap_ok _ this] show ?thesis by auto
qed

text \<open>C14:
  An allocation returns 0 exactly when the bitmap has no run of \<open>count\<close> free frames (wrap
  to the start of the bitmap included), and then changes only the search hint.
\<close>

theorem pmm_alloc_complete:
  assumes "pmm_ok s" "count \<noteq> 0" "pmm_alloc_unmapped count s = (addr, s')"
  shows "addr = 0 \<longleftrightarrow>
      (\<forall>f. f + unat count \<le> pmm_frames s \<longrightarrow> (\<exists>n. f \<le> n \<and> n < f + unat count \<and> frame_used s n))"
    (is "_ \<longleftrightarrow> ?full")
proof -
  have c: "0 < unat count" using assms(2) by (simp add: unat_gt_0)
  from pmm_alloc_unmapped_cases [OF assms(1) c assms(3)] show ?thesis
  proof (elim disjE exE conjE)
    fix q t
    assume t: "pmm_ok t" "frame_used t = frame_used s" "bitmap_size t = bitmap_size s"
      "free_run (frame_used s) q (unat count)" "q + unat count \<le> pmm_frames s"
      "take_run (unat count) (Some q) t t = (addr, s')"
    then have "unat addr = q * 4096" "0 < q"
      using take_run_Some (1,2) [of t "unat count" q t addr s'] c by (auto simp: pmm_frames_def)
    then have "addr \<noteq> 0" by auto
    moreover have "\<not> ?full" using t(4,5) by (auto simp: free_run_def)
    ultimately show ?thesis by simp
  next
    assume "addr = 0" "\<forall>q. q + unat count \<le> pmm_frames s \<longrightarrow> \<not> free_run (frame_used s) q (unat count)"
    then show ?thesis unfolding free_run_def by (metis atLeastLessThan_iff)
  qed
qed

lemma full_bitmap_alloc: "fst (pmm_alloc_unmapped 30 (small_bitmap 0xf0)) = 0"
  by code_simp

theorem pmm_alloc_complete_witness:
  "\<exists>n. 1 \<le> n \<and> n < 31 \<and> frame_used (small_bitmap 0xf0) n"
proof -
  obtain s' where *: "pmm_alloc_unmapped 30 (small_bitmap 0xf0) = (0, s')"
    using full_bitmap_alloc by (metis prod.collapse)
  have "pmm_frames (small_bitmap 0xf0) = 32" by (simp add: pmm_frames_def small_bitmap_def)
  then show ?thesis
    using pmm_alloc_complete [OF small_bitmap_ok _ *] by (simp add: all_conj_distrib) (erule allE [of _ 1], simp)
qed

text \<open>
  When an allocation of eight frames starts inside a bitmap byte, the next allocation of one
  frame returns the last of the eight frames again: both callers own it.
\<close>

theorem pmm_alloc_eight_reused:
  assumes "pmm_ok s" "pmm_alloc_unmapped 8 s = (addr, s')" "addr \<noteq> 0" "unat addr div 4096 mod 8 \<noteq> 0"
  shows "unat (fst (pmm_alloc_unmapped 1 s')) = unat addr + 7 * 4096"
proof -
  have u8: "unat (8 :: u64) = 8" "unat (1 :: u64) = 1" by simp_all
  from pmm_alloc_unmapped_cases [OF assms(1) _ assms(2)] assms(3)
  obtain q t where t: "pmm_ok t" "free_run (frame_used t) q 8" "q + 8 \<le> pmm_frames t"
      "take_run 8 (Some q) t t = (addr, s')" "frame_used t = frame_used s" "bitmap_size t = bitmap_size s"
    by (auto simp: pmm_frames_def)
  note r = take_run_Some [OF t(1) _ t(2,3,4)]
  have q31: "q + 8 < 2 ^ 31" using t(1,3) by (simp add: pmm_ok_def pmm_frames_def)
  have q8: "q mod 8 \<noteq> 0" using assms(4) r(1) by simp
  have "s' = reserve_frames (frame_addr q) (frame_addr 8)
        (t\<lparr>last_idx := of_nat ((q + 7) div 8), last_idx_bit := of_nat (7 - (q + 7) mod 8)\<rparr>)"
    using t(4) by (auto simp: take_run_def add.commute)
  then have hint: "unat (last_idx s') = (q + 7) div 8" "unat (last_idx_bit s') = 7 - (q + 7) mod 8"
    using q31 unat_of_nat_bit by (simp_all del: of_nat_diff add: unat_of_nat)
  then have p: "8 * unat (last_idx s') + (7 - unat (last_idx_bit s')) = q + 7" by simp
  have "\<not> marked addr (frame_addr 8) (q + 7)"
    using q8 by (simp add: marked_def r(1) range_pages_frames Let_def) presburger
  moreover have "(q + 7) div 8 < 2 ^ 64" using q31 by simp
  ultimately have free: "\<not> frame_used s' (q + 7)"
    using r(4) [of "q + 7"] t(2) by (simp add: free_run_def)
  have room: "pmm_frames s' - (q + 7) = Suc (pmm_frames s' - (q + 8))"
    using t(3) r(6) by (simp add: pmm_frames_def)
  have "pmm_alloc_unmapped_once 1 s' = take_run 1 (Some (q + 7))
      (if last_idx s' < bitmap_size s' then s'\<lparr>last_idx_bit := 7\<rparr> else s') s'"
    using pmm_alloc_unmapped_once_run [of s' 1] r(3) free by (simp add: p room)
  then have "fst (pmm_alloc_unmapped_once 1 s') = frame_addr (q + 7)"
    by (simp add: take_run_def)
  moreover have "unat (frame_addr (q + 7)) = (q + 7) * 4096" using q31 by (intro unat_frame_addr) simp
  moreover from this have "frame_addr (q + 7) \<noteq> 0" by auto
  ultimately show ?thesis
    using r(1) by (simp add: pmm_alloc_unmapped_def split_def)
qed

theorem pmm_alloc_eight_reused_witness:
  "unat (fst (pmm_alloc_unmapped 1 (snd (pmm_alloc_unmapped 8 (small_bitmap 0xf0))))) =
     unat (0x4000 :: u64) + 7 * 4096"
proof -
  have "fst (pmm_alloc_unmapped 8 (small_bitmap 0xf0)) = 0x4000" by code_simp
  then have "pmm_alloc_unmapped 8 (small_bitmap 0xf0) =
      (0x4000, snd (pmm_alloc_unmapped 8 (small_bitmap 0xf0)))"
    by (metis prod.collapse)
  from pmm_alloc_eight_reused [OF small_bitmap_ok this] show ?thesis by simp
qed

section \<open>The interface of a single-frame allocator\<close>

text \<open>A sequence of \<open>n\<close> allocations: the addresses returned, in order, and the final state.\<close>

primrec allocs :: "('s \<Rightarrow> u64 \<times> 's) \<Rightarrow> nat \<Rightarrow> 's \<Rightarrow> u64 list \<times> 's" where
  "allocs alloc 0 s = ([], s)"
| "allocs alloc (Suc n) s = (let (a, s1) = alloc s; (as, s2) = allocs alloc n s1 in (a # as, s2))"

text \<open>
  What \<open>paging.c\<close> relies on when it takes one frame for a page table: a non-zero result is the
  address of a frame that was free and is used from then on; used frames stay used.
\<close>

locale frame_allocator =
  fixes alloc :: "'s \<Rightarrow> u64 \<times> 's"
    and inv :: "'s \<Rightarrow> bool"
    and used :: "'s \<Rightarrow> nat \<Rightarrow> bool"
  assumes alloc_inv: "inv s \<Longrightarrow> alloc s = (a, s') \<Longrightarrow> inv s'"
    and alloc_mono: "inv s \<Longrightarrow> alloc s = (a, s') \<Longrightarrow> used s n \<Longrightarrow> used s' n"
    and alloc_frame: "inv s \<Longrightarrow> alloc s = (a, s') \<Longrightarrow> a \<noteq> 0 \<Longrightarrow>
      \<exists>f. unat a = 4096 * f \<and> \<not> used s f \<and> used s' f"
begin

lemma allocs_fresh:
  assumes "inv s" "allocs alloc n s = (as, s')"
  shows "inv s' \<and> (\<forall>f. used s f \<longrightarrow> used s' f) \<and> distinct (filter (\<lambda>a. a \<noteq> 0) as) \<and>
    (\<forall>a\<in>set as. a \<noteq> 0 \<longrightarrow> (\<exists>f. unat a = 4096 * f \<and> \<not> used s f \<and> used s' f))"
  using assms
proof (induction n arbitrary: s as s')
  case 0
  then show ?case by simp
next
  case (Suc n)
  obtain a s1 where a: "alloc s = (a, s1)" by (cases "alloc s")
  obtain bs where bs: "allocs alloc n s1 = (bs, s')" "as = a # bs"
    using Suc.prems(2) a by (auto split: prod.splits)
  have i1: "inv s1" using alloc_inv [OF Suc.prems(1) a] .
  have mono: "used s f \<Longrightarrow> used s1 f" for f using alloc_mono [OF Suc.prems(1) a] .
  note ih = Suc.IH [OF i1 bs(1)]
  have new: "a \<noteq> 0 \<Longrightarrow> \<exists>f. unat a = 4096 * f \<and> \<not> used s f \<and> used s1 f"
    using alloc_frame [OF Suc.prems(1) a] .
  have "a \<notin> set bs" if "a \<noteq> 0"
  proof
    assume "a \<in> set bs"
    with ih that obtain f where "unat a = 4096 * f" "\<not> used s1 f" by blast
    with new [OF that] show False by auto
  qed
  then show ?case using ih new mono bs(2) by auto blast+
qed

end

lemma pmm_alloc_one:
  assumes "pmm_ok s" "pmm_alloc_unmapped 1 s = (a, s')"
  shows "pmm_ok s'" "n < 2 ^ 67 \<Longrightarrow> frame_used s n \<Longrightarrow> frame_used s' n"
    "a \<noteq> 0 \<Longrightarrow> \<exists>f. unat a = 4096 * f \<and> f < pmm_frames s \<and> \<not> frame_used s f \<and> frame_used s' f"
    "n < 2 ^ 67 \<Longrightarrow> unat a \<noteq> 4096 * n \<Longrightarrow> frame_used s' n \<Longrightarrow> frame_used s n"
    "bitmap s' = bitmap s" "bitmap_size s' = bitmap_size s" "s_pml4_table s' = s_pml4_table s"
    "entries s' = entries s" "flushed s' = flushed s"
proof -
  have one: "0 < unat (1 :: u64)" and u1: "unat (1 :: u64) = 1" by simp_all
  note alt = pmm_alloc_unmapped_cases [OF assms(1) one assms(2), unfolded u1]
  have *: "pmm_ok s' \<and> (\<forall>n < 2 ^ 67. frame_used s n \<longrightarrow> frame_used s' n) \<and>
     (\<forall>n < 2 ^ 67. unat a \<noteq> 4096 * n \<longrightarrow> frame_used s' n \<longrightarrow> frame_used s n) \<and>
     (a \<noteq> 0 \<longrightarrow> (\<exists>f. unat a = 4096 * f \<and> f < pmm_frames s \<and> \<not> frame_used s f \<and> frame_used s' f)) \<and>
     bitmap s' = bitmap s \<and> bitmap_size s' = bitmap_size s \<and> s_pml4_table s' = s_pml4_table s \<and>
     entries s' = entries s \<and> flushed s' = flushed s"
  proof (cases "a = 0")
    case True
    have "s' = s\<lparr>last_idx := 0, last_idx_bit := 7\<rparr>"
      using alt
    proof (elim disjE exE conjE, goal_cases)
      case (1 q t)
      then have "unat a = q * 4096" "0 < q"
        using take_run_Some (1,2) [of t 1 q t a s'] by (simp_all add: pmm_frames_def)
      then show ?case using True by simp
    qed simp_all
    then show ?thesis using True assms(1) by (simp add: pmm_ok_def)
  next
    case False
    then obtain q t where t: "pmm_ok t" "free_run (frame_used t) q 1" "q + 1 \<le> pmm_frames t"
      "take_run 1 (Some q) t t = (a, s')" "frame_used t = frame_used s"
      "bitmap t = bitmap s" "bitmap_size t = bitmap_size s" "s_pml4_table t = s_pml4_table s"
      "entries t = entries s" "flushed t = flushed s"
      using alt by (auto simp: pmm_frames_def)
    note r = take_run_Some [OF t(1) _ t(2,3,4)]
    have m: "marked a (frame_addr 1) n \<longleftrightarrow> n = q" for n
      using r(1) by (auto simp: marked_def range_pages_frames Let_def)
    have "\<not> frame_used s q" using t(2,5) by (simp add: free_run_def)
    moreover have "q < 2 ^ 31" using t(1,3) by (simp add: pmm_ok_def pmm_frames_def)
    moreover have "frame_used s' n \<longleftrightarrow> n = q \<or> frame_used s n" if "n < 2 ^ 67" for n
      using r(4) [of n] that m t(5) by simp
    ultimately show ?thesis
      using False r(1,3,5-) t(3,5-) by (auto simp: pmm_frames_def)
  qed
  then show "pmm_ok s'" "n < 2 ^ 67 \<Longrightarrow> frame_used s n \<Longrightarrow> frame_used s' n"
    "a \<noteq> 0 \<Longrightarrow> \<exists>f. unat a = 4096 * f \<and> f < pmm_frames s \<and> \<not> frame_used s f \<and> frame_used s' f"
    "n < 2 ^ 67 \<Longrightarrow> unat a \<noteq> 4096 * n \<Longrightarrow> frame_used s' n \<Longrightarrow> frame_used s n"
    "bitmap s' = bitmap s" "bitmap_size s' = bitmap_size s" "s_pml4_table s' = s_pml4_table s"
    "entries s' = entries s" "flushed s' = flushed s"
    by blast+
qed

definition owned :: "mm \<Rightarrow> nat \<Rightarrow> bool" where
  "owned s n \<longleftrightarrow> n < 2 ^ 67 \<and> frame_used s n"

interpretation frames1: frame_allocator "pmm_alloc_unmapped 1" pmm_ok owned
proof (unfold_locales, goal_cases)
  case (1 s a s')
  then show ?case by (rule pmm_alloc_one)
next
  case (2 s a s' n)
  then show ?case using pmm_alloc_one(2) [OF 2(1,2)] by (simp add: owned_def)
next
  case (3 s a s')
  have "pmm_frames s < 2 ^ 67" using 3(1) by (simp add: pmm_ok_def pmm_frames_def)
  with pmm_alloc_one(3) [OF 3] show ?case by (auto simp: owned_def)
qed


text \<open>
  In any sequence of single-frame allocations the addresses returned (0 for a failure
  aside) are pairwise distinct frames that were free at the start and are used at the end, and every
  frame used at the start stays used.
\<close>

theorem pmm_single_allocs_distinct:
  assumes "pmm_ok s" "allocs (pmm_alloc_unmapped 1) n s = (as, s')"
  shows "pmm_ok s' \<and> distinct (filter (\<lambda>a. a \<noteq> 0) as) \<and>
    (\<forall>a\<in>set as. a \<noteq> 0 \<longrightarrow> (\<exists>f. unat a = 4096 * f \<and> \<not> frame_used s f \<and> frame_used s' f)) \<and>
    (\<forall>f < 2 ^ 67. frame_used s f \<longrightarrow> frame_used s' f)"
proof -
  note fresh = frames1.allocs_fresh [OF assms]
  have "unat a = 4096 * f \<Longrightarrow> f < 2 ^ 67" for a :: u64 and f
    using unat_lt2p [of a] by simp
  with fresh show ?thesis by (fastforce simp: owned_def)
qed

theorem pmm_single_allocs_distinct_witness:
  "distinct (filter (\<lambda>a. a \<noteq> 0) (fst (allocs (pmm_alloc_unmapped 1) 3 (small_bitmap 0xf0))))"
  using pmm_single_allocs_distinct [OF small_bitmap_ok, of 3] by (metis prod.collapse)

end
