(* ===== verification/Paging.thy ===== *)
theory Paging
  imports Frame_Alloc
begin

text \<open>
  The page tables of \<open>src/src/memory/paging.c\<close>. Page-table entries are read and written through
  virtual addresses: the page at \<open>TMP_ADDR\<close> shows the frame that its own page-table entry names, which \<open>tmp_map\<close>
  changes to reach tables elsewhere in memory; every other address that the code reads or writes is one that the kernel
  maps to itself (the first 8 MiB, and the table that \<open>create_user_pml4\<close> has just mapped), and \<open>vread\<close> and \<open>vwrite\<close> take
  it as physical without a walk. That the mapping is there is not checked by them: \<open>create_user_pml4_shares_kernel\<close> shows it
  where the code makes it. \<open>entries\<close> holds the 8-byte entries by physical address. A pointer result is returned with the
  new state. The diagnostics printed on failure are left out.
\<close>

section \<open>Flags and indices\<close>

abbreviation Present :: u64 where "Present \<equiv> 1"
abbreviation Writeable :: u64 where "Writeable \<equiv> 2"
abbreviation User :: u64 where "User \<equiv> 4"
abbreviation DisableCache :: u64 where "DisableCache \<equiv> 16"
abbreviation ExecDisable :: u64 where "ExecDisable \<equiv> 0x8000000000000000"

abbreviation TMP_ADDR :: u64 where "TMP_ADDR \<equiv> 0x200000"

text \<open>An address without its offset in the page, \<open>addr & ~0xfff\<close>, and the offset, \<open>addr & 0xfff\<close>.\<close>

definition page_base :: "u64 \<Rightarrow> u64" where
  "page_base addr = addr AND NOT 0xfff"

definition page_off :: "u64 \<Rightarrow> u64" where
  "page_off addr = addr AND 0xfff"

definition to_frame :: "u64 \<Rightarrow> u64" where
  "to_frame addr = page_base addr"

definition to_page :: "u64 \<Rightarrow> u64" where
  "to_page addr = page_base addr"

definition is_entry_present :: "u64 \<Rightarrow> bool" where
  "is_entry_present entry \<longleftrightarrow> entry AND Present \<noteq> 0"

definition get_lv4_index :: "u64 \<Rightarrow> u16" where
  "get_lv4_index virt_addr = ucast (drop_bit 39 virt_addr AND 0x1ff)"

definition get_lv3_index :: "u64 \<Rightarrow> u16" where
  "get_lv3_index virt_addr = ucast (drop_bit 30 virt_addr AND 0x1ff)"

definition get_lv2_index :: "u64 \<Rightarrow> u16" where
  "get_lv2_index virt_addr = ucast (drop_bit 21 virt_addr AND 0x1ff)"

definition get_lv1_index :: "u64 \<Rightarrow> u16" where
  "get_lv1_index virt_addr = ucast (drop_bit 12 virt_addr AND 0x1ff)"

text \<open>The address of entry \<open>i\<close> of the table at \<open>table\<close>, a table of 512 eight-byte entries.\<close>

definition entry_addr :: "u64 \<Rightarrow> u16 \<Rightarrow> u64" where
  "entry_addr table i = table + 8 * ucast i"

section \<open>The temporary mapping\<close>

definition flush_TLB :: "u64 \<Rightarrow> mm \<Rightarrow> mm" where
  "flush_TLB m s = s\<lparr>flushed := m # flushed s\<rparr>"

definition get_temp_entry :: "mm \<Rightarrow> u64" where
  "get_temp_entry s =
     (let i1 = get_lv1_index TMP_ADDR;
          i2 = get_lv2_index TMP_ADDR;
          i3 = get_lv3_index TMP_ADDR;
          i4 = get_lv4_index TMP_ADDR;
          pml4_entry = entry_addr (s_pml4_table s) i4;
          pdp_entry = entry_addr (page_base (entries s pml4_entry)) i3;
          pd_entry = entry_addr (page_base (entries s pdp_entry)) i2
      in entry_addr (page_base (entries s pd_entry)) i1)"

text \<open>The bits of an entry that hold the physical address of a frame.\<close>

definition phys_base :: "u64 \<Rightarrow> u64" where
  "phys_base entry = entry AND 0x000ffffffffff000"

definition resolve :: "mm \<Rightarrow> u64 \<Rightarrow> u64" where
  "resolve s v =
     (if page_base v = TMP_ADDR
      then phys_base (entries s (get_temp_entry s)) + page_off v else v)"

definition vread :: "mm \<Rightarrow> u64 \<Rightarrow> u64" where
  "vread s v = entries s (resolve s v)"

definition vwrite :: "u64 \<Rightarrow> u64 \<Rightarrow> mm \<Rightarrow> mm" where
  "vwrite v x s = s\<lparr>entries := (entries s)(resolve s v := x)\<rparr>"

definition tmp_map :: "u64 \<Rightarrow> mm \<Rightarrow> u64 \<times> mm" where
  "tmp_map phys_addr s =
     (let tmp_entry = get_temp_entry s;
          frame = to_frame phys_addr
      in (TMP_ADDR + page_off phys_addr,
          flush_TLB TMP_ADDR (vwrite tmp_entry (frame OR Present OR Writeable) s)))"

definition create_table :: "u64 \<Rightarrow> u64 \<Rightarrow> mm \<Rightarrow> u64 \<times> mm" where
  "create_table entry flags s =
     (let (table, s1) = pmm_alloc_unmapped 1 s
      in tmp_map table (vwrite entry (table OR flags) s1))"

definition valid_pointer :: "u64 \<Rightarrow> mm \<Rightarrow> u64 \<times> mm" where
  "valid_pointer pointer s = (if pointer \<ge> 0x800000 then tmp_map pointer s else (pointer, s))"

section \<open>Walking the tables\<close>

abbreviation no_create :: u64 where "no_create \<equiv> - 1"

definition get_table_from_entry :: "u64 \<Rightarrow> u64 \<Rightarrow> mm \<Rightarrow> u64 \<times> mm" where
  "get_table_from_entry entry0 new_table_flags s0 =
     (let (entry, s) = valid_pointer entry0 s0;
          table = page_base (vread s entry)
      in if table = 0 \<or> pmm_is_free table s then
           (if new_table_flags \<noteq> no_create then create_table entry new_table_flags s else (0, s))
         else
           let s1 = (if \<not> is_entry_present (vread s entry) \<and> new_table_flags \<noteq> no_create
                     then vwrite entry (vread s entry OR new_table_flags) s else s)
           in valid_pointer table s1)"

definition get_entry_by_index ::
    "u64 \<Rightarrow> u64 \<Rightarrow> u16 \<Rightarrow> u16 \<Rightarrow> u16 \<Rightarrow> u16 \<Rightarrow> mm \<Rightarrow> u64 \<times> mm" where
  "get_entry_by_index pml4_table new_table_flags i4 i3 i2 i1 s =
     (let (pdp_table, s) = get_table_from_entry (entry_addr pml4_table i4) new_table_flags s
      in if pdp_table = 0 then (0, s)
         else let (pd_table, s) = get_table_from_entry (entry_addr pdp_table i3) new_table_flags s
         in if pd_table = 0 then (0, s)
            else let (pt_table, s) = get_table_from_entry (entry_addr pd_table i2) new_table_flags s
            in if pt_table = 0 then (0, s) else (entry_addr pt_table i1, s))"

definition lookup_entry_by_index ::
    "u64 \<Rightarrow> u16 \<Rightarrow> u16 \<Rightarrow> u16 \<Rightarrow> u16 \<Rightarrow> mm \<Rightarrow> u64 \<times> mm" where
  "lookup_entry_by_index pml4_table i4 i3 i2 i1 s =
     get_entry_by_index pml4_table no_create i4 i3 i2 i1 s"

definition get_entry :: "u64 \<Rightarrow> u64 \<Rightarrow> u64 \<Rightarrow> mm \<Rightarrow> u64 \<times> mm" where
  "get_entry pml4_table new_table_flags virt_addr s =
     get_entry_by_index pml4_table new_table_flags (get_lv4_index virt_addr) (get_lv3_index virt_addr)
       (get_lv2_index virt_addr) (get_lv1_index virt_addr) s"

definition lookup_entry :: "u64 \<Rightarrow> u64 \<Rightarrow> mm \<Rightarrow> u64 \<times> mm" where
  "lookup_entry pml4_table virt_addr s = get_entry pml4_table no_create virt_addr s"

section \<open>The operations\<close>

definition init_paging :: "u64 \<Rightarrow> mm \<Rightarrow> mm" where
  "init_paging cr3 s = s\<lparr>s_pml4_table := cr3\<rparr>"

definition to_usr_phys :: "u64 \<Rightarrow> u64 \<Rightarrow> mm \<Rightarrow> u64 \<times> mm" where
  "to_usr_phys pml4_table virt_addr s =
     (let (entry, s) = lookup_entry pml4_table virt_addr s
      in if entry = 0 then (0, s)
         else if \<not> is_entry_present (vread s entry) then (0, s)
         else (page_base (vread s entry) + page_off virt_addr, s))"

definition to_phys :: "u64 \<Rightarrow> mm \<Rightarrow> u64 \<times> mm" where
  "to_phys virt_addr s =
     (let (entry, s) = lookup_entry (s_pml4_table s) virt_addr s
      in if entry = 0 then (0, s)
         else if \<not> is_entry_present (vread s entry) then (0, s)
         else (page_base (vread s entry) + page_off virt_addr, s))"

definition map_page :: "u64 \<Rightarrow> u64 \<Rightarrow> u64 \<Rightarrow> u64 \<Rightarrow> mm \<Rightarrow> mm" where
  "map_page pml4_table page frame flags s =
     (let (entry, s) = get_entry pml4_table flags page s
      in if entry \<noteq> 0 then flush_TLB page (vwrite entry (frame OR flags) s) else s)"

definition unmap :: "u64 \<Rightarrow> u64 \<Rightarrow> mm \<Rightarrow> mm" where
  "unmap pml4_table page s =
     (let (entry, s) = lookup_entry pml4_table page s
      in if entry \<noteq> 0 then flush_TLB page (vwrite entry 0 s) else s)"

definition map_frame :: "u64 \<Rightarrow> u64 \<Rightarrow> u64 \<Rightarrow> mm \<Rightarrow> mm" where
  "map_frame page frame flags s = map_page (s_pml4_table s) page frame flags s"

definition map_user_frame :: "u64 \<Rightarrow> u64 \<Rightarrow> u64 \<Rightarrow> u64 \<Rightarrow> mm \<Rightarrow> mm" where
  "map_user_frame pml4_table page frame flags s = map_page pml4_table page frame flags s"

definition unmap_page :: "u64 \<Rightarrow> mm \<Rightarrow> mm" where
  "unmap_page page s = unmap (s_pml4_table s) page s"

definition unmap_user_page :: "u64 \<Rightarrow> u64 \<Rightarrow> mm \<Rightarrow> mm" where
  "unmap_user_page pml4_table page s = unmap pml4_table page s"

definition create_user_pml4 :: "mm \<Rightarrow> u64 \<times> mm" where
  "create_user_pml4 s =
     (let (pml4_addr, s) = pmm_alloc_unmapped 1 s;
          s = map_frame (to_page pml4_addr) (to_frame pml4_addr) (Present OR Writeable OR User) s;
          s = fold (\<lambda>i. vwrite (entry_addr pml4_addr (of_nat i)) 0) [1..<512] s;
          s = vwrite (entry_addr pml4_addr 0) (vread s (entry_addr (s_pml4_table s) 0)) s
      in (pml4_addr, s))"

definition is_usr_addr_present :: "u64 \<Rightarrow> u64 \<Rightarrow> mm \<Rightarrow> bool \<times> mm" where
  "is_usr_addr_present pml4_table virt_addr s =
     (let (entry, s) = lookup_entry pml4_table virt_addr s
      in (entry \<noteq> 0 \<and> is_entry_present (vread s entry), s))"

definition is_addr_present :: "u64 \<Rightarrow> mm \<Rightarrow> bool \<times> mm" where
  "is_addr_present virt_addr s =
     (let (entry, s) = lookup_entry (s_pml4_table s) virt_addr s
      in (entry \<noteq> 0 \<and> is_entry_present (vread s entry), s))"

section \<open>Page arithmetic\<close>

lemma fff: "(0xfff :: u64) = mask 12"
  by (simp add: mask_eq_exp_minus_1)

lemma phys_base_mask: "phys_base w = w AND (mask 52 AND NOT (mask 12))"
  by (simp add: phys_base_def mask_eq_exp_minus_1)

lemma unat_page_off: "unat (page_off w) = unat w mod 4096"
  unfolding page_off_def fff by (simp add: take_bit_eq_mask [symmetric] take_bit_eq_mod unat_mod)

lemma page_split: "page_base w + page_off w = w"
proof -
  have "page_base w AND page_off w = 0"
    unfolding page_base_def page_off_def fff by (rule bit_word_eqI) (simp add: bit_simps)
  then have "page_base w + page_off w = page_base w OR page_off w"
    by (rule disjunctive_add_eq_or)
  also have "\<dots> = w"
    unfolding page_base_def page_off_def fff by (rule bit_word_eqI) (auto simp: bit_simps)
  finally show ?thesis .
qed

lemma unat_page_base: "unat (page_base w) = 4096 * (unat w div 4096)"
proof -
  have "page_base w = w - page_off w" using page_split [of w] by (metis add_diff_cancel_right')
  moreover have "page_off w \<le> w" by (simp add: word_le_nat_alt unat_page_off)
  ultimately have "unat (page_base w) = unat w - unat w mod 4096"
    by (simp add: unat_sub unat_page_off)
  then show ?thesis by (simp add: minus_mod_eq_mult_div)
qed

lemma page_off_0_iff: "page_off w = 0 \<longleftrightarrow> unat w mod 4096 = 0"
  by (metis unat_page_off unat_eq_zero)

lemma page_base_id: "page_off w = 0 \<Longrightarrow> page_base w = w"
  using page_split [of w] by simp
lemma unat_entry_addr:
  assumes "page_off b = 0" "unat i < 512"
  shows "unat (entry_addr b i) = unat b + 8 * unat i"
proof -
  obtain k where k: "unat b = 4096 * k"
    using assms(1) by (auto simp: page_off_0_iff)
  then have "4096 * k < 4096 * 2 ^ 52" using unat_lt2p [of b] by simp
  then have "k + 1 \<le> 2 ^ 52" by simp
  then have "unat b + 8 * unat i < 2 ^ 64" using k assms(2) by simp
  moreover have "unat (8 * ucast i :: u64) = 8 * unat i"
    using assms(2) by (simp add: unat_word_ariths unat_ucast_up)
  ultimately show ?thesis by (simp add: entry_addr_def unat_word_ariths)
qed

lemma entry_addr_page:
  assumes "page_off b = 0" "unat i < 512"
  shows "page_base (entry_addr b i) = b" "page_off (entry_addr b i) = 8 * ucast i"
proof -
  obtain k where k: "unat b = 4096 * k"
    using assms(1) by (auto simp: page_off_0_iff)
  have "(4096 * k + 8 * unat i) div 4096 = k" using assms(2) by simp
  then have "unat (page_base (entry_addr b i)) = unat b"
    using k assms by (simp add: unat_page_base unat_entry_addr)
  then show "page_base (entry_addr b i) = b" by (simp add: word_unat_eq_iff)
  then show "page_off (entry_addr b i) = 8 * ucast i"
    using page_split [of "entry_addr b i"] by (simp add: entry_addr_def)
qed

lemma entry_addr_inj:
  assumes "page_off b = 0" "unat i < 512" "page_off c = 0" "unat j < 512"
  shows "entry_addr b i = entry_addr c j \<longleftrightarrow> b = c \<and> i = j"
proof
  assume eq: "entry_addr b i = entry_addr c j"
  then have "b = c" using entry_addr_page(1) assms by metis
  moreover have "unat i = unat j"
    using unat_entry_addr [OF assms(1,2)] unat_entry_addr [OF assms(3,4)] eq \<open>b = c\<close> by simp
  ultimately show "b = c \<and> i = j" by (simp add: word_unat_eq_iff)
qed simp

lemma index_less [simp]:
  "unat (get_lv4_index v) < 512" "unat (get_lv3_index v) < 512"
  "unat (get_lv2_index v) < 512" "unat (get_lv1_index v) < 512"
proof -
  have m: "(0x1ff :: u64) = mask 9" by (simp add: mask_eq_exp_minus_1)
  have "unat (ucast (w AND 0x1ff) :: u16) < 512" for w :: u64
    unfolding m by (simp add: take_bit_eq_mask [symmetric] take_bit_eq_mod unat_mod unat_ucast_mod)
  then show "unat (get_lv4_index v) < 512" "unat (get_lv3_index v) < 512"
    "unat (get_lv2_index v) < 512" "unat (get_lv1_index v) < 512"
    by (simp_all add: get_lv4_index_def get_lv3_index_def get_lv2_index_def get_lv1_index_def)
qed

lemma tmp_entry_frame [simp]: "phys_base (to_frame p OR Present OR Writeable) = phys_base p"
proof -
  have or3: "(w OR Present) OR Writeable = w OR mask 2" for w :: u64
    by (simp add: or.assoc mask_eq_exp_minus_1)
  show ?thesis
    unfolding or.assoc [symmetric] or3 phys_base_mask to_frame_def page_base_def fff
    by (rule bit_word_eqI) (auto simp: bit_simps)
qed

lemma base_simps [simp]:
  "page_off (phys_base p) = 0" "phys_base (page_base p) = phys_base p" "page_off (page_base p) = 0"
  "page_base (page_base p) = page_base p"
  unfolding phys_base_mask page_base_def page_off_def fff
  by (rule bit_word_eqI; auto simp: bit_simps)+

lemma phys_base_id:
  assumes "page_off p = 0" "unat p < 2 ^ 52"
  shows "phys_base p = p"
proof -
  have "take_bit 52 p = p"
    using assms(2) by (simp add: word_unat_eq_iff unsigned_take_bit_eq take_bit_nat_eq_self)
  then have "p AND mask 52 = p" by (simp add: take_bit_eq_mask)
  moreover have "p AND NOT (mask 12) = p"
    using page_base_id [OF assms(1)] by (simp add: page_base_def fff)
  ultimately show ?thesis unfolding phys_base_mask by (metis and.assoc)
qed
section \<open>The temporary mapping is transparent\<close>

text \<open>The entries the processor reads to find the entry of the temporary page.\<close>

definition tmp_path :: "mm \<Rightarrow> u64 list" where
  "tmp_path s =
     (let a4 = entry_addr (s_pml4_table s) 0;
          a3 = entry_addr (page_base (entries s a4)) 0;
          a2 = entry_addr (page_base (entries s a3)) 1
      in [a4, a3, a2])"

lemma temp_entry_path:
  "get_temp_entry s = entry_addr (page_base (entries s (last (tmp_path s)))) 0"
proof -
  have "get_lv4_index TMP_ADDR = 0" "get_lv3_index TMP_ADDR = 0" "get_lv2_index TMP_ADDR = 1"
    "get_lv1_index TMP_ADDR = 0"
    by (code_simp)+
  then show ?thesis by (simp add: get_temp_entry_def tmp_path_def Let_def)
qed

text \<open>
  The tables that map the temporary page are present and used, its frame is used, and the entry of the
  temporary page is not one of the entries that lead to it.
\<close>

definition paging_ok :: "mm \<Rightarrow> bool" where
  "paging_ok s \<longleftrightarrow>
     get_temp_entry s \<notin> set (tmp_path s) \<and> get_temp_entry s < 0x800000 \<and>
     page_base (get_temp_entry s) \<noteq> TMP_ADDR \<and>
     \<not> pmm_is_free TMP_ADDR s \<and> \<not> pmm_is_free (s_pml4_table s) s \<and>
     page_off (s_pml4_table s) = 0 \<and>
     (\<forall>a\<in>set (tmp_path s). is_entry_present (entries s a) \<and> page_base (entries s a) \<noteq> 0 \<and>
        \<not> pmm_is_free (page_base (entries s a)) s)"

text \<open>States that differ only in the entry of the temporary page and the record of flushes.\<close>

definition sim :: "mm \<Rightarrow> mm \<Rightarrow> bool" where
  "sim s s' \<longleftrightarrow> (\<exists>e f. s' = s\<lparr>entries := e, flushed := f\<rparr>) \<and>
     (\<forall>a. a \<noteq> get_temp_entry s \<longrightarrow> entries s' a = entries s a)"

lemma pmm_is_free_entries [simp]:
  "pmm_is_free a (s\<lparr>entries := e\<rparr>) = pmm_is_free a s"
  "pmm_is_free a (s\<lparr>flushed := f\<rparr>) = pmm_is_free a s"
  by (simp_all add: pmm_is_free_def rd_bm_def)

lemma frame_used_entries [simp]:
  "frame_used (s\<lparr>entries := e\<rparr>) = frame_used s" "frame_used (s\<lparr>flushed := f\<rparr>) = frame_used s"
  by (auto simp: frame_used_def rd_bm_def fun_eq_iff)

lemma tmp_path_stable:
  assumes "s_pml4_table s' = s_pml4_table s"
    "\<forall>a\<in>set (tmp_path s). page_base (entries s' a) = page_base (entries s a)"
  shows "tmp_path s' = tmp_path s" "get_temp_entry s' = get_temp_entry s"
proof -
  show "tmp_path s' = tmp_path s" using assms by (simp add: tmp_path_def Let_def)
  then show "get_temp_entry s' = get_temp_entry s"
    using assms(2) by (simp add: temp_entry_path tmp_path_def Let_def)
qed

lemma sim_refl [simp]: "sim s s"
proof -
  have "s = s\<lparr>entries := entries s, flushed := flushed s\<rparr>" by simp
  then show ?thesis unfolding sim_def by blast
qed

lemma sim_fields:
  assumes "sim s s'"
  shows "s_pml4_table s' = s_pml4_table s" "pmm_is_free a s' = pmm_is_free a s"
    "frame_used s' = frame_used s" "pmm_ok s' = pmm_ok s" "pmm_frames s' = pmm_frames s"
    "a \<noteq> get_temp_entry s \<Longrightarrow> entries s' a = entries s a"
  using assms by (auto simp: sim_def pmm_ok_def pmm_frames_def)

lemma sim_paging:
  assumes "paging_ok s" "sim s s'"
  shows "get_temp_entry s' = get_temp_entry s" "tmp_path s' = tmp_path s" "paging_ok s'"
proof -
  have e: "\<forall>a\<in>set (tmp_path s). entries s' a = entries s a"
    using assms by (auto simp: paging_ok_def intro: sim_fields(6))
  then have "\<forall>a\<in>set (tmp_path s). page_base (entries s' a) = page_base (entries s a)" by simp
  from tmp_path_stable [OF sim_fields(1) [OF assms(2)] this]
  show t: "get_temp_entry s' = get_temp_entry s" "tmp_path s' = tmp_path s" by simp_all
  show "paging_ok s'"
    using assms(1) e sim_fields [OF assms(2)] by (simp add: paging_ok_def t)
qed

lemma sim_trans:
  assumes "paging_ok s" "sim s s1" "sim s1 s2"
  shows "sim s s2"
proof -
  obtain e f where "s1 = s\<lparr>entries := e, flushed := f\<rparr>" using assms(2) unfolding sim_def by blast
  moreover obtain e' f' where "s2 = s1\<lparr>entries := e', flushed := f'\<rparr>"
    using assms(3) unfolding sim_def by blast
  ultimately have "s2 = s\<lparr>entries := e', flushed := f'\<rparr>" by simp
  moreover have "\<forall>a. a \<noteq> get_temp_entry s \<longrightarrow> entries s2 a = entries s a"
    using sim_fields(6) [OF assms(2)] sim_fields(6) [OF assms(3)] sim_paging(1) [OF assms(1,2)] by simp
  ultimately show ?thesis unfolding sim_def by blast
qed

lemma page_in_range:
  assumes "page_off b = 0" "x < 0x1000"
  shows "page_base (b + x) = b" "page_off (b + x) = x"
proof -
  obtain k where k: "unat b = 4096 * k" using assms(1) by (auto simp: page_off_0_iff)
  have x: "unat x < 4096" using assms(2) by (simp add: word_less_nat_alt)
  have "4096 * k < 4096 * 2 ^ 52" using k unat_lt2p [of b] by simp
  then have "k + 1 \<le> 2 ^ 52" by simp
  then have "unat (b + x) = 4096 * k + unat x" using k x by (simp add: unat_word_ariths)
  then have "unat (page_base (b + x)) = unat b" "unat (page_off (b + x)) = unat x"
    using x k by (simp_all add: unat_page_base unat_page_off)
  then show "page_base (b + x) = b" "page_off (b + x) = x" by (simp_all add: word_unat_eq_iff)
qed

lemma page_off_less: "page_off p < 0x1000"
  by (simp add: word_less_nat_alt unat_page_off)

lemma page_off_TMP [simp]: "page_off TMP_ADDR = 0"
  by (simp add: page_off_def)

lemma tmp_map_spec:
  assumes "paging_ok s" "tmp_map p s = (v, s')"
  shows "v = TMP_ADDR + page_off p" "sim s s'" "resolve s' v = phys_base p + page_off p"
proof -
  let ?T = "get_temp_entry s"
  have r: "resolve s ?T = ?T" using assms(1) by (simp add: resolve_def paging_ok_def)
  show v: "v = TMP_ADDR + page_off p" using assms(2) by (simp add: tmp_map_def Let_def)
  have s': "s' = s\<lparr>entries := (entries s)(?T := to_frame p OR Present OR Writeable),
      flushed := TMP_ADDR # flushed s\<rparr>"
    using assms(2) by (simp add: tmp_map_def Let_def vwrite_def flush_TLB_def r)
  show sim: "sim s s'" unfolding sim_def s' by auto
  have t: "get_temp_entry s' = ?T" by (rule sim_paging(1) [OF assms(1) sim])
  have "entries s' ?T = to_frame p OR Present OR Writeable" by (simp add: s')
  then have "phys_base (entries s' (get_temp_entry s')) = phys_base p"
    unfolding t by (simp only: tmp_entry_frame)
  then show "resolve s' v = phys_base p + page_off p"
    using page_in_range [OF page_off_TMP page_off_less] by (simp add: resolve_def v)
qed
text \<open>The physical address that \<open>valid_pointer\<close> makes a pointer reach.\<close>

definition den :: "mm \<Rightarrow> u64 \<Rightarrow> u64" where
  "den s p = (if p \<ge> 0x800000 then phys_base p + page_off p else resolve s p)"

lemma valid_pointer_spec:
  assumes "paging_ok s" "valid_pointer p s = (v, s')"
  shows "sim s s'" "resolve s' v = den s p" "v < 0x800000" "page_off v = page_off p"
    "p < 0x800000 \<Longrightarrow> v = p" "p \<noteq> 0 \<Longrightarrow> v \<noteq> 0"
proof -
  have c: "(\<not> p < 0x800000 \<and> tmp_map p s = (v, s')) \<or> (p < 0x800000 \<and> v = p \<and> s' = s)"
    using assms(2) by (auto simp: valid_pointer_def split: if_splits)
  have v: "TMP_ADDR + page_off p < 0x800000" "page_off (TMP_ADDR + page_off p) = page_off p"
    "TMP_ADDR + page_off p \<noteq> 0"
  proof -
    have "unat (page_off p) < 4096" by (simp add: unat_page_off)
    then have u: "unat (TMP_ADDR + page_off p) = 0x200000 + unat (page_off p)"
      by (simp add: unat_word_ariths)
    then show "TMP_ADDR + page_off p < 0x800000" "TMP_ADDR + page_off p \<noteq> 0"
      using \<open>unat (page_off p) < 4096\<close> by (auto simp: word_less_nat_alt)
    show "page_off (TMP_ADDR + page_off p) = page_off p"
      using page_in_range [OF page_off_TMP page_off_less] by simp
  qed
  show "sim s s'" "resolve s' v = den s p" "v < 0x800000" "page_off v = page_off p"
    "p < 0x800000 \<Longrightarrow> v = p" "p \<noteq> 0 \<Longrightarrow> v \<noteq> 0"
    using c tmp_map_spec [OF assms(1), of p v s'] v by (auto simp: den_def not_less)
qed

text \<open>A pointer to a table: dereferenceable as it is, and reaching the table at a physical address.\<close>

definition table_ptr :: "mm \<Rightarrow> u64 \<Rightarrow> u64 \<Rightarrow> bool" where
  "table_ptr s v b \<longleftrightarrow> v \<noteq> 0 \<and> v < 0x800000 \<and> page_off v = 0 \<and> page_off b = 0 \<and> resolve s v = b"

lemma small_entry_addr:
  assumes "v < 0x800000" "page_off v = 0" "unat i < 512"
  shows "entry_addr v i < 0x800000"
proof -
  obtain k where k: "unat v = 4096 * k" using assms(2) by (auto simp: page_off_0_iff)
  then show ?thesis
    using unat_entry_addr [OF assms(2,3)] assms(1,3) by (simp add: word_less_nat_alt)
qed

lemma table_ptr_entry:
  assumes "table_ptr s v b" "unat i < 512"
  shows "den s (entry_addr v i) = entry_addr b i" "entry_addr v i < 0x800000"
proof -
  have v: "v < 0x800000" "page_off v = 0" "resolve s v = b" "page_off b = 0"
    using assms(1) by (simp_all add: table_ptr_def)
  show l: "entry_addr v i < 0x800000" using small_entry_addr [OF v(1,2) assms(2)] .
  have "resolve s (entry_addr v i) = entry_addr b i"
    using v entry_addr_page [OF v(2) assms(2)] page_base_id [OF v(2)]
    by (auto simp: resolve_def entry_addr_def)
  then show "den s (entry_addr v i) = entry_addr b i" using l by (simp add: den_def not_le [symmetric])
qed

text \<open>The table an entry leads to, read from physical memory, if it leads to one.\<close>

definition table_at :: "mm \<Rightarrow> u64 \<Rightarrow> u64 option" where
  "table_at s a =
     (let t = page_base (entries s a) in if t = 0 \<or> pmm_is_free t s then None else Some (phys_base t))"

lemma table_lookup_level:
  assumes "paging_ok s" "den s p = a" "a \<noteq> get_temp_entry s" "page_base (entries s a) \<noteq> TMP_ADDR"
    "get_table_from_entry p no_create s = (t, s')"
  shows "sim s s' \<and> (case table_at s a of None \<Rightarrow> t = 0 | Some b \<Rightarrow> table_ptr s' t b)"
proof -
  obtain v s1 where v: "valid_pointer p s = (v, s1)" by (cases "valid_pointer p s")
  note vp = valid_pointer_spec [OF assms(1) v]
  have p1: "paging_ok s1" by (rule sim_paging(3) [OF assms(1) vp(1)])
  define b where "b = page_base (entries s a)"
  have b: "page_base (vread s1 v) = b"
    using sim_fields(6) [OF vp(1) assms(3)] vp(2) assms(2) by (simp add: vread_def b_def)
  have fr: "pmm_is_free b s1 = pmm_is_free b s" by (rule sim_fields(2) [OF vp(1)])
  show ?thesis
  proof (cases "b = 0 \<or> pmm_is_free b s")
    case True
    then have "t = 0" "s' = s1"
      using assms(5) b fr by (auto simp: get_table_from_entry_def v Let_def)
    then show ?thesis using True vp(1) by (simp add: table_at_def b_def)
  next
    case False
    then have vt: "valid_pointer b s1 = (t, s')"
      using assms(5) b fr by (auto simp: get_table_from_entry_def v Let_def)
    note tp = valid_pointer_spec [OF p1 vt]
    have "den s1 b = phys_base b"
    proof (cases "b < 0x800000")
      case True
      have "unat b < 2 ^ 52" using True by (simp add: word_less_nat_alt)
      then have "phys_base b = b" by (intro phys_base_id) (simp_all add: b_def)
      then show ?thesis using True assms(4) by (simp add: den_def resolve_def b_def)
    next
      case False
      then show ?thesis by (simp add: den_def b_def not_less)
    qed
    then have "table_ptr s' t (phys_base b)"
      using tp False by (simp add: table_ptr_def b_def)
    then show ?thesis
      using False sim_trans [OF assms(1) vp(1) tp(1)] by (simp add: table_at_def b_def)
  qed
qed
section \<open>Lookup is a walk through physical memory\<close>

text \<open>
  The addresses of the entries on the way from the table at \<open>b\<close> along a list of indices, as far as
  the tables exist.
\<close>

fun entry_path :: "mm \<Rightarrow> u64 \<Rightarrow> u16 list \<Rightarrow> u64 list" where
  "entry_path s b [] = []"
| "entry_path s b (i # is) = entry_addr b i #
     (case table_at s (entry_addr b i) of None \<Rightarrow> [] | Some b' \<Rightarrow> entry_path s b' is)"

definition indices :: "u64 \<Rightarrow> u16 list" where
  "indices va = [get_lv4_index va, get_lv3_index va, get_lv2_index va, get_lv1_index va]"

definition va_path :: "mm \<Rightarrow> u64 \<Rightarrow> u64 \<Rightarrow> u64 list" where
  "va_path s pml4 va = entry_path s pml4 (indices va)"

definition root_ok :: "u64 \<Rightarrow> bool" where
  "root_ok pml4 \<longleftrightarrow> pml4 \<noteq> 0 \<and> page_off pml4 = 0 \<and> unat pml4 < 2 ^ 52 \<and> pml4 \<noteq> TMP_ADDR"

text \<open>
  The entries that lead to tables are not the entry of the temporary page, and no table lies in the
  frame at \<open>TMP_ADDR\<close>.
\<close>

definition tables_ok :: "mm \<Rightarrow> u64 list \<Rightarrow> bool" where
  "tables_ok s path \<longleftrightarrow>
     (\<forall>a\<in>set (take 3 path). a \<noteq> get_temp_entry s \<and> phys_base (entries s a) \<noteq> TMP_ADDR)"

lemma phys_TMP: "phys_base x \<noteq> TMP_ADDR \<Longrightarrow> page_base x \<noteq> TMP_ADDR"
proof -
  have "phys_base TMP_ADDR = TMP_ADDR" by (simp add: phys_base_def)
  then show "phys_base x \<noteq> TMP_ADDR \<Longrightarrow> page_base x \<noteq> TMP_ADDR" by (metis base_simps(2))
qed

lemma sim_table_at: "sim s s' \<Longrightarrow> a \<noteq> get_temp_entry s \<Longrightarrow> table_at s' a = table_at s a"
  using sim_fields(2,6) [of s s'] by (simp add: table_at_def Let_def)

lemma root_den:
  assumes "root_ok pml4" "unat i < 512"
  shows "den s (entry_addr pml4 i) = entry_addr pml4 i"
proof -
  have r: "page_off pml4 = 0" "unat pml4 < 2 ^ 52" "pml4 \<noteq> TMP_ADDR"
    using assms(1) by (simp_all add: root_ok_def)
  note e = entry_addr_page [OF r(1) assms(2)]
  have "phys_base (entry_addr pml4 i) = pml4"
    using base_simps(2) [of "entry_addr pml4 i"] e phys_base_id [OF r(1,2)] by simp
  then show ?thesis
    using e r(3) by (simp add: den_def resolve_def) (simp add: entry_addr_def)
qed

lemma lookup_level:
  assumes "paging_ok s0" "sim s0 s" "den s p = a" "a \<noteq> get_temp_entry s0"
    "phys_base (entries s0 a) \<noteq> TMP_ADDR" "get_table_from_entry p no_create s = (t, s')"
  shows "sim s0 s'" "table_at s0 a = None \<Longrightarrow> t = 0"
    "table_at s0 a = Some b \<Longrightarrow> table_ptr s' t b"
proof -
  note q = sim_paging [OF assms(1,2)]
  have "entries s a = entries s0 a" by (rule sim_fields(6) [OF assms(2,4)])
  then have e: "a \<noteq> get_temp_entry s" "page_base (entries s a) \<noteq> TMP_ADDR"
    using assms(4) phys_TMP [OF assms(5)] q(1) by simp_all
  note l = table_lookup_level [OF q(3) assms(3) e assms(6)]
  show "sim s0 s'" using l sim_trans [OF assms(1,2)] by blast
  show "table_at s0 a = None \<Longrightarrow> t = 0" "table_at s0 a = Some b \<Longrightarrow> table_ptr s' t b"
    using l sim_table_at [OF assms(2,4)] by simp_all
qed

lemma lookup_walk:
  assumes "paging_ok s" "root_ok pml4" "tables_ok s (va_path s pml4 va)"
    "lookup_entry pml4 va s = (p, s')"
  shows "sim s s' \<and> (if length (va_path s pml4 va) = 4
      then p \<noteq> 0 \<and> resolve s' p = va_path s pml4 va ! 3 else p = 0)"
proof -
  define e4 where "e4 = entry_addr pml4 (get_lv4_index va)"
  obtain t3 s1 where l3: "get_table_from_entry e4 no_create s = (t3, s1)" by (meson surj_pair)
  have d4: "den s e4 = e4" unfolding e4_def by (rule root_den [OF assms(2)]) simp
  have ok4: "e4 \<noteq> get_temp_entry s" "phys_base (entries s e4) \<noteq> TMP_ADDR"
    using assms(3) by (simp_all add: tables_ok_def va_path_def indices_def e4_def)
  note L3 = lookup_level [OF assms(1) sim_refl d4 ok4 l3]
  show ?thesis
  proof (cases "table_at s e4")
    case None
    then show ?thesis
      using L3 assms(4)
      by (auto simp: lookup_entry_def get_entry_def get_entry_by_index_def e4_def [symmetric] l3
          va_path_def indices_def)
  next
    case b3: (Some b3)
    note p3 = L3(3) [OF b3]
    define e3 where "e3 = entry_addr b3 (get_lv3_index va)"
    define q3 where "q3 = entry_addr t3 (get_lv3_index va)"
    have d3: "den s1 q3 = e3" unfolding q3_def e3_def by (rule table_ptr_entry [OF p3]) simp
    obtain t2 s2 where l2: "get_table_from_entry q3 no_create s1 = (t2, s2)" by (meson surj_pair)
    have ok3: "e3 \<noteq> get_temp_entry s" "phys_base (entries s e3) \<noteq> TMP_ADDR"
      using assms(3) b3 by (simp_all add: tables_ok_def va_path_def indices_def e4_def e3_def)
    note L2 = lookup_level [OF assms(1) L3(1) d3 ok3 l2]
    have t3: "t3 \<noteq> 0" using p3 by (simp add: table_ptr_def)
    show ?thesis
    proof (cases "table_at s e3")
      case None
      then show ?thesis
        using L2 assms(4) t3 b3
        by (auto simp: lookup_entry_def get_entry_def get_entry_by_index_def e4_def [symmetric] l3
            q3_def [symmetric] l2 va_path_def indices_def e3_def)
    next
      case b2: (Some b2)
      note p2 = L2(3) [OF b2]
      define e2 where "e2 = entry_addr b2 (get_lv2_index va)"
      define q2 where "q2 = entry_addr t2 (get_lv2_index va)"
      have d2: "den s2 q2 = e2" unfolding q2_def e2_def by (rule table_ptr_entry [OF p2]) simp
      obtain t1 s3 where l1: "get_table_from_entry q2 no_create s2 = (t1, s3)" by (meson surj_pair)
      have ok2: "e2 \<noteq> get_temp_entry s" "phys_base (entries s e2) \<noteq> TMP_ADDR"
        using assms(3) b3 b2
        by (simp_all add: tables_ok_def va_path_def indices_def e4_def e3_def e2_def eval_nat_numeral)
      note L1 = lookup_level [OF assms(1) L2(1) d2 ok2 l1]
      have t2: "t2 \<noteq> 0" using p2 by (simp add: table_ptr_def)
      have res: "(p, s') = (if t1 = 0 then (0, s3) else (entry_addr t1 (get_lv1_index va), s3))"
        using assms(4) t3 t2
        by (simp add: lookup_entry_def get_entry_def get_entry_by_index_def e4_def [symmetric] l3
            q3_def [symmetric] l2 q2_def [symmetric] l1)
      show ?thesis
      proof (cases "table_at s e2")
        case None
        then show ?thesis using L1 res b3 b2
          by (auto simp: va_path_def indices_def e4_def e3_def e2_def)
      next
        case b1: (Some b1)
        note p1 = L1(3) [OF b1]
        have t1: "t1 \<noteq> 0" "t1 < 0x800000" "page_off t1 = 0" using p1 by (simp_all add: table_ptr_def)
        define q1 where "q1 = entry_addr t1 (get_lv1_index va)"
        have "unat q1 = unat t1 + 8 * unat (get_lv1_index va)"
          unfolding q1_def by (rule unat_entry_addr [OF t1(3)]) simp
        then have "q1 \<noteq> 0" using t1(1) by (auto simp: word_unat_eq_iff)
        moreover have "resolve s3 q1 = entry_addr b1 (get_lv1_index va)"
          using table_ptr_entry [OF p1 index_less(4), of va]
          by (auto simp: den_def q1_def not_le split: if_splits)
        ultimately show ?thesis using L1 res t1 b3 b2 b1
          by (simp add: q1_def va_path_def indices_def e4_def e3_def e2_def split: option.splits)
      qed
    qed
  qed
qed
lemma lookup_read:
  assumes "paging_ok s" "root_ok pml4" "tables_ok s (va_path s pml4 va)"
    "lookup_entry pml4 va s = (p, s')" "get_temp_entry s \<notin> set (va_path s pml4 va)"
    "length (va_path s pml4 va) = 4"
  shows "p \<noteq> 0" "vread s' p = entries s (va_path s pml4 va ! 3)"
proof -
  note w = lookup_walk [OF assms(1-4)]
  show "p \<noteq> 0" using w assms(6) by simp
  have "va_path s pml4 va ! 3 \<in> set (va_path s pml4 va)" using assms(6) by simp
  then have "va_path s pml4 va ! 3 \<noteq> get_temp_entry s" using assms(5) by metis
  then show "vread s' p = entries s (va_path s pml4 va ! 3)"
    using w assms(6) sim_fields(6) by (simp add: vread_def)
qed

lemma translate_walk:
  assumes "paging_ok s" "root_ok pml4" "tables_ok s (va_path s pml4 va)"
    "get_temp_entry s \<notin> set (va_path s pml4 va)"
  shows "fst (to_usr_phys pml4 va s) =
      (let path = va_path s pml4 va
       in if length path = 4 \<and> is_entry_present (entries s (path ! 3))
          then page_base (entries s (path ! 3)) + page_off va else 0)"
    and "sim s (snd (to_usr_phys pml4 va s))"
proof -
  obtain p s' where l: "lookup_entry pml4 va s = (p, s')" by (meson surj_pair)
  note w = lookup_walk [OF assms(1-3) l]
  have "fst (to_usr_phys pml4 va s) =
      (let path = va_path s pml4 va
       in if length path = 4 \<and> is_entry_present (entries s (path ! 3))
          then page_base (entries s (path ! 3)) + page_off va else 0) \<and>
    sim s (snd (to_usr_phys pml4 va s))"
  proof (cases "length (va_path s pml4 va) = 4")
    case True
    then show ?thesis using lookup_read [OF assms(1-3) l assms(4) True] w
      by (simp add: to_usr_phys_def l Let_def)
  next
    case False
    then show ?thesis using w by (simp add: to_usr_phys_def l Let_def)
  qed
  then show "fst (to_usr_phys pml4 va s) =
      (let path = va_path s pml4 va
       in if length path = 4 \<and> is_entry_present (entries s (path ! 3))
          then page_base (entries s (path ! 3)) + page_off va else 0)"
    "sim s (snd (to_usr_phys pml4 va s))" by blast+
qed

text \<open>C7:
  Translating an address is a walk through physical memory: the temporary mapping that
  \<open>to_usr_phys\<close> needs to reach tables outside the first 8 MiB has no visible effect, the result is the
  entry's frame plus the page offset when all tables exist and the entry is present, and 0
  otherwise. Only the entry of the temporary page and the flush log differ afterwards.
\<close>

theorem to_usr_phys_walk:
  assumes "paging_ok s" "root_ok pml4" "tables_ok s (va_path s pml4 va)"
    "get_temp_entry s \<notin> set (va_path s pml4 va)"
  shows "fst (to_usr_phys pml4 va s) =
      (let path = va_path s pml4 va
       in if length path = 4 \<and> is_entry_present (entries s (path ! 3))
          then page_base (entries s (path ! 3)) + page_off va else 0) \<and>
    sim s (snd (to_usr_phys pml4 va s))"
  using translate_walk [OF assms] by blast

end
