(* ===== verification/Paging_Map.thy ===== *)
theory Paging_Map
  imports Paging
begin

text \<open>
  Correctness of the operations of \<open>src/src/memory/paging.c\<close> that change page tables: the walk that
  creates missing tables, mapping followed by translation, mappings that stay, unmapping, the
  address space of a user task, and the two places where the code falls short (tables are not
  cleared, and the no-execute bit leaks into translations).
\<close>

section \<open>Creating tables\<close>

lemma pmm_is_free_frame:
  "pmm_is_free a s \<longleftrightarrow> \<not> frame_used s (unat a div 4096 mod 2 ^ 35)"
proof -
  define w where "w = a div 4096"
  have w: "unat w = unat a div 4096" by (simp add: w_def unat_div)
  have blk: "unat (ucast (ucast (w div 8) :: u32) :: u64) = unat a div 4096 mod 2 ^ 35 div 8"
    using w by (simp add: unat_ucast_mod unat_div mod_mult2_eq [of _ 8 "2 ^ 32", simplified])
  have off: "unat (ucast (w mod 8) :: u32) = unat a div 4096 mod 2 ^ 35 mod 8"
    using w by (simp add: unat_ucast_mod unat_mod mod_mod_cancel)
  define p where "p = unat a div 4096 mod 2 ^ 35 mod 8"
  have p: "p < 8" by (simp add: p_def)
  have sh: "unat (7 - (ucast (w mod 8) :: u32)) = 7 - p"
    using off [folded p_def] p by (simp add: unat_sub word_le_nat_alt)
  have "(of_nat (unat a div 4096 mod 2 ^ 35 div 8) :: u64) = ucast (ucast (w div 8) :: u32)"
    unfolding blk [symmetric] by simp
  then show ?thesis
    by (simp add: pmm_is_free_def Let_def w_def [symmetric] sh [unfolded p_def] frame_used_def
        and_one_eq bit_iff_odd_drop_bit odd_iff_mod_2_eq_one)
qed

lemma pmm_is_free_phys [simp]: "pmm_is_free (phys_base a) s = pmm_is_free a s"
proof -
  have u: "unat (take_bit 35 (drop_bit 12 w)) = unat w div 4096 mod 2 ^ 35" for w :: u64
    by (simp add: take_bit_eq_mod drop_bit_eq_div unat_mod unat_div)
  have "take_bit 35 (drop_bit 12 (phys_base a)) = take_bit 35 (drop_bit 12 a)"
    unfolding phys_base_mask by (rule bit_word_eqI) (auto simp: bit_simps)
  then have "unat (phys_base a) div 4096 mod 2 ^ 35 = unat a div 4096 mod 2 ^ 35"
    using u by metis
  then show ?thesis by (simp add: pmm_is_free_frame)
qed

lemma pmm_is_free_page:
  "page_base a = page_base b \<Longrightarrow> pmm_is_free a s = pmm_is_free b s"
  by (metis base_simps(2) pmm_is_free_phys)

lemma used_mono:
  assumes "\<forall>n < 2 ^ 67. frame_used s n \<longrightarrow> frame_used s' n" "\<not> pmm_is_free a s"
  shows "\<not> pmm_is_free a s'"
proof -
  have "unat a div 4096 mod 2 ^ 35 < 2 ^ 67"
    by (rule order_less_trans [of _ "2 ^ 35"]) simp_all
  then show ?thesis using assms by (simp add: pmm_is_free_frame)
qed

text \<open>Frames the allocator can still give.\<close>

definition avail :: "mm \<Rightarrow> nat" where
  "avail s = card {n. n < pmm_frames s \<and> \<not> frame_used s n}"

lemma or_flags:
  assumes "phys_base f = 0"
  shows "phys_base (x OR f) = phys_base x" "page_base (x OR f) = 0 \<Longrightarrow> page_base x = 0"
proof -
  have "phys_base (x OR f) = phys_base x OR phys_base f"
    unfolding phys_base_mask by (rule bit_word_eqI) (auto simp: bit_simps)
  then show "phys_base (x OR f) = phys_base x" using assms by simp
  have "page_base (x OR f) = page_base x OR page_base f"
    unfolding page_base_def fff by (rule bit_word_eqI) (auto simp: bit_simps)
  then show "page_base (x OR f) = 0 \<Longrightarrow> page_base x = 0" by (simp add: or_eq_0_iff)
qed

lemma alloc_frame_free:
  assumes "pmm_ok s" "pmm_alloc_unmapped 1 s = (n, s')" "0 < avail s"
  shows "n \<noteq> 0" "page_off n = 0" "pmm_is_free n s" "\<not> pmm_is_free n s'" "avail s = Suc (avail s')"
    "unat n < 2 ^ 43" "pmm_is_free c s' \<Longrightarrow> pmm_is_free c s"
    "c \<noteq> n \<Longrightarrow> page_off c = 0 \<Longrightarrow> unat c < 2 ^ 47 \<Longrightarrow> pmm_is_free c s \<Longrightarrow> pmm_is_free c s'"
proof -
  note one = pmm_alloc_one [OF assms(1,2)]
  have lim: "pmm_frames s < 2 ^ 31" using assms(1) by (simp add: pmm_ok_def pmm_frames_def)
  have "\<exists>k. k < pmm_frames s \<and> \<not> frame_used s k"
    using assms(3) by (auto simp: avail_def card_gt_0_iff)
  then obtain k where k: "k < pmm_frames s" "\<not> frame_used s k" by blast
  have "unat (1 :: u64) = 1" by simp
  have c: "0 < unat (1 :: u64)" and u1: "unat (1 :: u64) = 1" by simp_all
  have "free_run (frame_used s) k 1" using k(2) by (simp add: free_run_def)
  then obtain q t where t: "pmm_ok t" "free_run (frame_used t) q 1" "q + 1 \<le> pmm_frames t"
      "take_run 1 (Some q) t t = (n, s')"
    using pmm_alloc_unmapped_cases [OF assms(1) c assms(2), unfolded u1] k(1)
    by (auto simp: pmm_frames_def)
  then have "unat n = q * 4096" "0 < q" using take_run_Some(1,2) [OF t(1) _ t(2,3,4)] by simp_all
  then show n: "n \<noteq> 0" by auto
  obtain f where f: "unat n = 4096 * f" "f < pmm_frames s" "\<not> frame_used s f" "frame_used s' f"
    using one(3) [OF n] by blast
  show "page_off n = 0" using f by (simp add: page_off_0_iff)
  have fm: "unat n div 4096 mod 2 ^ 35 = f" using f lim by simp
  show "pmm_is_free n s" "\<not> pmm_is_free n s'" using f fm by (simp_all add: pmm_is_free_frame)
  show "unat n < 2 ^ 43" using f lim by simp
  show "pmm_is_free c s' \<Longrightarrow> pmm_is_free c s" using used_mono [of s s' c] one(2) by blast
  have used: "frame_used s' k \<longleftrightarrow> frame_used s k \<or> k = f" if "k < 2 ^ 67" for k
    using one(2,4) that f by (metis mult_cancel1 numeral_neq_zero)
  have eq: "{k. k < pmm_frames s \<and> \<not> frame_used s k} =
      insert f {k. k < pmm_frames s' \<and> \<not> frame_used s' k}"
    using f lim one(6) by (auto simp: used pmm_frames_def)
  have "finite {k. k < pmm_frames s' \<and> \<not> frame_used s' k}" by simp
  then show "avail s = Suc (avail s')" unfolding avail_def eq using f by simp
  show "pmm_is_free c s'" if c: "c \<noteq> n" "page_off c = 0" "unat c < 2 ^ 47" "pmm_is_free c s"
  proof -
    obtain k where k: "unat c = 4096 * k" using c(2) by (auto simp: page_off_0_iff)
    have "k < 2 ^ 35" using c(3) k by simp
    moreover have "k \<noteq> f" using c(1) k f by (auto simp: word_unat_eq_iff)
    ultimately show ?thesis using c(4) used [of k] k by (simp add: pmm_is_free_frame)
  qed
qed

text \<open>
  One step of the walk that creates missing tables: state \<open>s\<close> becomes \<open>s'\<close>, in which the entry at
  \<open>a\<close> leads to the table at \<open>b\<close>.
\<close>

definition level_step :: "mm \<Rightarrow> u64 \<Rightarrow> mm \<Rightarrow> u64 \<Rightarrow> bool" where
  "level_step s a s' b \<longleftrightarrow>
     s_pml4_table s' = s_pml4_table s \<and> get_temp_entry s' = get_temp_entry s \<and>
     tmp_path s' = tmp_path s \<and> paging_ok s' \<and> pmm_ok s' \<and> table_at s' a = Some b \<and>
     phys_base (entries s' a) \<noteq> TMP_ADDR \<and>
     (\<forall>c. c \<noteq> get_temp_entry s \<longrightarrow> c \<noteq> a \<longrightarrow> entries s' c = entries s c) \<and>
     (\<forall>c. \<not> pmm_is_free c s \<longrightarrow> \<not> pmm_is_free c s') \<and>
     (table_at s a = Some b \<and> (\<forall>c. pmm_is_free c s' = pmm_is_free c s) \<or>
      table_at s a = None \<and> pmm_is_free b s \<and> \<not> pmm_is_free b s' \<and> unat b < 2 ^ 43 \<and> b \<noteq> 0 \<and>
        page_off b = 0) \<and>
     avail s \<le> Suc (avail s')"

lemma avail_entries [simp]:
  "avail (s\<lparr>entries := e\<rparr>) = avail s" "avail (s\<lparr>flushed := f\<rparr>) = avail s"
  by (simp_all add: avail_def pmm_frames_def)

lemma sim_avail: "sim s s' \<Longrightarrow> avail s' = avail s"
  by (auto simp: sim_def)

lemma path_used:
  assumes "paging_ok s" "a \<in> set (tmp_path s)"
  shows "table_at s a \<noteq> None"
  using assms by (auto simp: paging_ok_def table_at_def Let_def)

text \<open>Changing an entry outside the path of the temporary page keeps the paging invariant.\<close>

lemma paging_ok_write:
  assumes "paging_ok s" "s_pml4_table s' = s_pml4_table s"
    "\<forall>c\<in>set (tmp_path s). page_base (entries s' c) = page_base (entries s c) \<and>
       is_entry_present (entries s' c)"
    "\<forall>c. \<not> pmm_is_free c s \<longrightarrow> \<not> pmm_is_free c s'"
  shows "paging_ok s'" "get_temp_entry s' = get_temp_entry s" "tmp_path s' = tmp_path s"
proof -
  have "\<forall>c\<in>set (tmp_path s). page_base (entries s' c) = page_base (entries s c)"
    using assms(3) by simp
  from tmp_path_stable [OF assms(2) this]
  show t: "get_temp_entry s' = get_temp_entry s" "tmp_path s' = tmp_path s" by simp_all
  show "paging_ok s'"
    using assms unfolding paging_ok_def t by (metis (no_types, lifting))
qed

lemma vwrite_resolved:
  "vwrite v x s = s\<lparr>entries := (entries s)(resolve s v := x)\<rparr>"
  by (simp add: vwrite_def)

lemma create_table_spec:
  assumes "paging_ok s" "pmm_ok s" "phys_base f = 0" "resolve s v = a" "a \<noteq> get_temp_entry s"
    "table_at s a = None" "0 < avail s" "create_table v f s = (t, s')"
  shows "\<exists>b. table_ptr s' t b \<and> level_step s a s' b"
proof -
  obtain n s1 where n: "pmm_alloc_unmapped 1 s = (n, s1)" by (meson surj_pair)
  note fr = alloc_frame_free [OF assms(2) n assms(7)]
  note one = pmm_alloc_one [OF assms(2) n]
  have anp: "a \<notin> set (tmp_path s)" using path_used [OF assms(1), of a] assms(6) by auto
  define s2 where "s2 = vwrite v (n OR f) s1"
  have sv: "tmp_path s1 = tmp_path s" "get_temp_entry s1 = get_temp_entry s"
    by (rule tmp_path_stable; simp add: one(7,8))+
  have "resolve s1 v = a" using assms(4) by (simp only: resolve_def sv one(8))
  then have s2: "s2 = s1\<lparr>entries := (entries s)(a := n OR f)\<rparr>"
    by (simp add: s2_def vwrite_def one(8))
  have mono: "\<forall>c. \<not> pmm_is_free c s \<longrightarrow> \<not> pmm_is_free c s2"
    using fr(7) by (auto simp: s2)
  have p2: "paging_ok s2" "get_temp_entry s2 = get_temp_entry s" "tmp_path s2 = tmp_path s"
    by (rule paging_ok_write [OF assms(1) _ _ mono];
        use anp assms(1) in \<open>auto simp: s2 one(7) paging_ok_def\<close>)+
  have tm: "tmp_map n s2 = (t, s')" using assms(8) by (simp add: create_table_def n s2_def)
  note tp = tmp_map_spec [OF p2(1) tm]
  have pn: "phys_base n = n" using fr(2,6) by (intro phys_base_id) simp_all
  have t: "t = TMP_ADDR" using tp(1) fr(2) by simp
  have "table_ptr s' t n"
    unfolding table_ptr_def using tp(3) pn fr(2) by (simp add: t)
  moreover have "level_step s a s' n"
  proof -
    have e: "entries s' a = n OR f"
      using sim_fields(6) [OF tp(2)] assms(5) p2(2) by (simp add: s2)
    have pb: "phys_base (n OR f) = n" using or_flags(1) [OF assms(3)] pn by simp
    have free': "pmm_is_free c s' = pmm_is_free c s1" for c
      using sim_fields(2) [OF tp(2)] by (simp add: s2)
    have nf: "\<not> pmm_is_free (page_base (n OR f)) s'"
      using fr(4) pb free' by (metis base_simps(2) pmm_is_free_phys)
    have "page_base (n OR f) \<noteq> 0" using pb fr(1) by (metis base_simps(2) and_zero_eq phys_base_def zero_and_eq)
    then have "table_at s' a = Some n" using nf pb by (simp add: table_at_def e)
    moreover have "n \<noteq> TMP_ADDR" using fr(3) assms(1) by (auto simp: paging_ok_def)
    moreover have "\<forall>c. c \<noteq> get_temp_entry s \<longrightarrow> c \<noteq> a \<longrightarrow> entries s' c = entries s c"
      using sim_fields(6) [OF tp(2)] p2(2) by (simp add: s2)
    moreover have "pmm_ok s'" using sim_fields(4) [OF tp(2)] one(1) by (simp add: s2 pmm_ok_def)
    moreover have "avail s = Suc (avail s')" using fr(5) sim_avail [OF tp(2)] by (simp add: s2)
    ultimately show ?thesis
      unfolding level_step_def
      using sim_paging [OF p2(1) tp(2)] sim_fields(1) [OF tp(2)] fr p2 mono one(7) pb e free' assms(6)
      by (auto simp: s2)
  qed
  ultimately show ?thesis by blast
qed

lemma den_table:
  assumes "page_base x \<noteq> TMP_ADDR"
  shows "den s (page_base x) = phys_base x"
proof (cases "page_base x < 0x800000")
  case True
  have "unat (page_base x) < 2 ^ 52" using True by (simp add: word_less_nat_alt)
  then have "phys_base (page_base x) = page_base x" by (intro phys_base_id) simp_all
  then show ?thesis using True assms by (simp add: den_def resolve_def not_le [symmetric])
next
  case False
  then show ?thesis by (simp add: den_def not_less)
qed

lemma sim_level_step:
  assumes "paging_ok s" "sim s s1" "a \<noteq> get_temp_entry s" "level_step s1 a s' b"
  shows "level_step s a s' b"
proof -
  note f = sim_fields [OF assms(2)] and p = sim_paging [OF assms(1,2)]
  show ?thesis
    using assms(4) sim_table_at [OF assms(2,3)] sim_avail [OF assms(2)]
    unfolding level_step_def p(1,2) f(1) by (simp add: f(2,6))
qed

lemma table_level:
  assumes "paging_ok s" "pmm_ok s" "phys_base f = 0" "den s p = a" "a \<noteq> get_temp_entry s"
    "phys_base (entries s a) \<noteq> TMP_ADDR" "0 < avail s" "get_table_from_entry p f s = (t, s')"
  shows "\<exists>b. table_ptr s' t b \<and> level_step s a s' b"
proof -
  obtain v s1 where v: "valid_pointer p s = (v, s1)" by (meson surj_pair)
  note vp = valid_pointer_spec [OF assms(1) v]
  note sp = sim_paging [OF assms(1) vp(1)] and sf = sim_fields [OF vp(1)]
  have a1: "a \<noteq> get_temp_entry s1" using assms(5) sp(1) by simp
  have fn: "f \<noteq> no_create" using assms(3) by (auto simp: phys_base_def)
  define x where "x = entries s a"
  have rv: "resolve s1 v = a" using vp(2) assms(4) by simp
  have x: "entries s1 a = x" "vread s1 v = x"
    using sf(6) [OF assms(5)] rv by (simp_all add: vread_def x_def)
  show ?thesis
  proof (cases "page_base x = 0 \<or> pmm_is_free (page_base x) s")
    case True
    have "table_at s1 a = None"
      using True sf(2) by (simp add: table_at_def x(1) Let_def)
    moreover have "create_table v f s1 = (t, s')"
      using assms(8) True x(2) sf(2) fn by (simp add: get_table_from_entry_def v Let_def)
    ultimately obtain b where "table_ptr s' t b" "level_step s1 a s' b"
      using create_table_spec [OF sp(3) _ assms(3) rv a1 _ _] assms(2,7) sf(4) sim_avail [OF vp(1)]
      by auto
    then show ?thesis using sim_level_step [OF assms(1) vp(1) assms(5)] by blast
  next
    case False
    define y where "y = (if is_entry_present x then x else x OR f)"
    define s2 where "s2 = s1\<lparr>entries := (entries s1)(a := y)\<rparr>"
    have w: "(if \<not> is_entry_present x \<and> f \<noteq> no_create then vwrite v (vread s1 v OR f) s1 else s1) = s2"
      using fn x rv by (auto simp: s2_def y_def vwrite_def)
    have vt: "valid_pointer (page_base x) s2 = (t, s')"
      using assms(8) False x(2) sf(2) w by (simp add: get_table_from_entry_def v Let_def)
    have yb: "phys_base y = phys_base x" "page_base y = 0 \<longrightarrow> page_base x = 0"
      using or_flags [OF assms(3), of x] by (simp_all add: y_def)
    have tpath: "page_base (entries s2 c) = page_base (entries s1 c) \<and> is_entry_present (entries s2 c)"
      if "c \<in> set (tmp_path s1)" for c
      using that sp(3) x(1) by (auto simp: s2_def y_def paging_ok_def)
    have mono: "\<forall>c. \<not> pmm_is_free c s1 \<longrightarrow> \<not> pmm_is_free c s2" by (simp add: s2_def)
    have p2: "paging_ok s2" "get_temp_entry s2 = get_temp_entry s1" "tmp_path s2 = tmp_path s1"
      by (rule paging_ok_write [OF sp(3) _ _ mono]; use tpath in \<open>simp add: s2_def\<close>)+
    note tp = valid_pointer_spec [OF p2(1) vt]
    note t2 = sim_paging [OF p2(1) tp(1)] and f2 = sim_fields [OF tp(1)]
    have "den s2 (page_base x) = phys_base x"
      using phys_TMP assms(6) by (intro den_table) (simp add: x_def)
    then have ptr: "table_ptr s' t (phys_base x)"
      using tp False by (simp add: table_ptr_def)
    have ea: "entries s' a = y" using f2(6) a1 p2(2) by (simp add: s2_def)
    have fr: "pmm_is_free c s' = pmm_is_free c s" for c
      using f2(2) sf(2) by (simp add: s2_def)
    have "pmm_is_free (page_base y) s' = pmm_is_free (page_base x) s"
      using fr yb(1) by (metis base_simps(2) pmm_is_free_phys)
    then have "table_at s' a = Some (phys_base x)"
      using False yb by (simp add: table_at_def ea Let_def)
    moreover have "table_at s a = Some (phys_base x)"
      using False by (simp add: table_at_def x_def [symmetric] Let_def)
    moreover have "phys_base (entries s' a) \<noteq> TMP_ADDR" using assms(6) yb(1) by (simp add: ea x_def)
    moreover have "\<forall>c. c \<noteq> get_temp_entry s \<longrightarrow> c \<noteq> a \<longrightarrow> entries s' c = entries s c"
      using f2(6) sf(6) p2(2) sp(1) by (simp add: s2_def)
    moreover have "pmm_ok s'" using f2(4) sf(4) assms(2) by (simp add: s2_def pmm_ok_def)
    moreover have "avail s' = avail s"
      using sim_avail [OF tp(1)] sim_avail [OF vp(1)] by (simp add: s2_def)
    ultimately have "level_step s a s' (phys_base x)"
      unfolding level_step_def using t2 p2 sp f2(1) sf(1) fr by (simp add: s2_def)
    with ptr show ?thesis by blast
  qed
qed

section \<open>The walk that creates tables\<close>

text \<open>Frames the allocator can give hold no stale entries.\<close>

definition free_zero :: "mm \<Rightarrow> bool" where
  "free_zero s \<longleftrightarrow> (\<forall>a. unat a < 2 ^ 47 \<longrightarrow> pmm_is_free a s \<longrightarrow> entries s a = 0)"

text \<open>
  The entries \<open>es\<close> begin the path of the indices \<open>js\<close> as it was in state \<open>s\<close>, or lie in frames that were free there.
\<close>

definition from_path :: "mm \<Rightarrow> u64 \<Rightarrow> u16 list \<Rightarrow> u64 list \<Rightarrow> bool" where
  "from_path s r js es \<longleftrightarrow> (\<forall>j < length es.
     j < length (entry_path s r js) \<and> entry_path s r js ! j = es ! j \<or> pmm_is_free (es ! j) s)"

lemma from_path_snoc:
  assumes "from_path s r js es"
    "length es < length (entry_path s r js) \<and> entry_path s r js ! length es = e \<or> pmm_is_free e s"
  shows "from_path s r js (es @ [e])"
  using assms by (auto simp: from_path_def nth_append less_Suc_eq)

text \<open>
  The walk from the root \<open>r\<close> has followed the indices \<open>is\<close>, from state \<open>s0\<close> to state \<open>s\<close>, and
  stands at the entry \<open>a\<close>; the indices \<open>rest\<close> are left.
\<close>

definition walked ::
    "mm \<Rightarrow> mm \<Rightarrow> u64 \<Rightarrow> u16 list \<Rightarrow> u64 list \<Rightarrow> u64 \<Rightarrow> u16 list \<Rightarrow> bool" where
  "walked s0 s r is ds a rest \<longleftrightarrow>
     paging_ok s \<and> pmm_ok s \<and> s_pml4_table s = s_pml4_table s0 \<and>
     get_temp_entry s = get_temp_entry s0 \<and> tmp_path s = tmp_path s0 \<and>
     entry_path s r is = ds @ [a] \<and> length is = Suc (length ds) \<and> distinct (ds @ [a]) \<and>
     get_temp_entry s0 \<notin> set (ds @ [a]) \<and> (\<forall>d\<in>set (ds @ [a]). \<not> pmm_is_free d s) \<and>
     (\<forall>d\<in>set ds. phys_base (entries s d) \<noteq> TMP_ADDR) \<and>
     (rest \<noteq> [] \<longrightarrow> phys_base (entries s a) \<noteq> TMP_ADDR) \<and>
     (\<forall>c. c \<notin> set ds \<longrightarrow> c \<noteq> get_temp_entry s0 \<longrightarrow> entries s c = entries s0 c) \<and>
     (\<forall>c. \<not> pmm_is_free c s0 \<longrightarrow> \<not> pmm_is_free c s) \<and>
     (\<forall>c. c \<noteq> get_temp_entry s0 \<longrightarrow> table_at s0 c \<noteq> None \<longrightarrow> table_at s c = table_at s0 c) \<and>
     from_path s0 r (is @ rest) (ds @ [a]) \<and>
     ((\<forall>c. pmm_is_free c s = pmm_is_free c s0) \<and>
        entry_path s0 r (is @ rest) =
          ds @ a # (case table_at s0 a of None \<Rightarrow> [] | Some b \<Rightarrow> entry_path s0 b rest) \<or>
      entries s0 a = 0 \<and> a \<notin> set (tmp_path s0))"

lemma entry_path_snoc:
  "entry_path s r is = ds @ [a] \<Longrightarrow> length is = Suc (length ds) \<Longrightarrow> table_at s a = Some b \<Longrightarrow>
     entry_path s r (is @ [i]) = ds @ [a, entry_addr b i]"
proof (induction "is" arbitrary: r ds)
  case Nil
  then show ?case by simp
next
  case (Cons j js)
  show ?case
  proof (cases ds)
    case Nil
    then show ?thesis using Cons.prems by (auto split: option.splits)
  next
    case (Cons d ds')
    then have d: "entry_addr r j = d" using Cons.prems(1) by simp
    obtain b' where b': "table_at s d = Some b'"
      using Cons.prems(1) Cons d by (cases "table_at s d") auto
    have "entry_path s b' js = ds' @ [a]" using Cons.prems(1) Cons d b' by simp
    then have "entry_path s b' (js @ [i]) = ds' @ [a, entry_addr b i]"
      using Cons.IH [of b' ds'] Cons.prems(2,3) Cons by simp
    then show ?thesis using Cons d b' by simp
  qed
qed

lemma entry_path_leads:
  "entry_path s r is = ds @ [a] \<Longrightarrow> length is = Suc (length ds) \<Longrightarrow> d \<in> set ds \<Longrightarrow> table_at s d \<noteq> None"
proof (induction "is" arbitrary: r ds)
  case Nil
  then show ?case by simp
next
  case (Cons j js)
  show ?case
  proof (cases ds)
    case Nil
    then show ?thesis using Cons.prems(3) by simp
  next
    case (Cons d' ds')
    then have d': "entry_addr r j = d'" using Cons.prems(1) by simp
    obtain b' where b': "table_at s d' = Some b'"
      using Cons.prems(1) Cons d' by (cases "table_at s d'") auto
    have "entry_path s b' js = ds' @ [a]" using Cons.prems(1) Cons d' b' by simp
    then show ?thesis using Cons.IH [of b' ds'] Cons.prems(2,3) Cons b' by auto
  qed
qed

lemma entry_path_cong:
  "entry_path s r is = ds @ [a] \<Longrightarrow> length is = Suc (length ds) \<Longrightarrow>
     (\<forall>d\<in>set ds. table_at s d \<noteq> None \<longrightarrow> table_at s' d = table_at s d) \<Longrightarrow>
     entry_path s' r is = ds @ [a]"
proof (induction "is" arbitrary: r ds)
  case Nil
  then show ?case by simp
next
  case (Cons j js)
  show ?case
  proof (cases ds)
    case Nil
    then show ?thesis using Cons.prems by (auto split: option.splits)
  next
    case (Cons d ds')
    then have d: "entry_addr r j = d" using Cons.prems(1) by simp
    obtain b' where b': "table_at s d = Some b'"
      using Cons.prems(1) Cons d by (cases "table_at s d") auto
    have "entry_path s b' js = ds' @ [a]" using Cons.prems(1) Cons d b' by simp
    then have "entry_path s' b' js = ds' @ [a]"
      using Cons.IH [of b' ds'] Cons.prems(2,3) Cons by simp
    moreover have "table_at s' d = Some b'" using Cons.prems(3) Cons b' by simp
    ultimately show ?thesis using Cons d by simp
  qed
qed

lemma entry_path_old:
  "entry_path s r (is @ j # rest) = ds @ a # (case table_at s a of None \<Rightarrow> [] | Some b \<Rightarrow> entry_path s b (j # rest)) \<Longrightarrow>
   table_at s a = Some b \<Longrightarrow>
   entry_path s r ((is @ [j]) @ rest) = (ds @ [a]) @ entry_addr b j #
      (case table_at s (entry_addr b j) of None \<Rightarrow> [] | Some b' \<Rightarrow> entry_path s b' rest)"
  by simp

lemma pmm_is_free_base [simp]: "pmm_is_free (page_base x) s = pmm_is_free x s"
  by (rule pmm_is_free_page) simp

lemma table_at_used: "table_at s a = Some b \<Longrightarrow> \<not> pmm_is_free b s \<and> page_off b = 0"
  by (auto simp: table_at_def Let_def split: if_splits)

lemma entry_free:
  assumes "page_off b = 0" "unat i < 512"
  shows "pmm_is_free (entry_addr b i) s = pmm_is_free b s"
  using entry_addr_page(1) [OF assms] page_base_id [OF assms(1)] by (intro pmm_is_free_page) simp

lemma tmp_used:
  assumes "paging_ok s"
  shows "\<not> pmm_is_free (get_temp_entry s) s" "a \<in> set (tmp_path s) \<Longrightarrow> \<not> pmm_is_free a s"
proof -
  have u: "\<not> pmm_is_free (entry_addr (page_base x) i) s"
    if "\<not> pmm_is_free (page_base x) s" "unat i < 512" for x i
    using that by (simp add: entry_free)
  show "\<not> pmm_is_free (get_temp_entry s) s"
    using assms unfolding temp_entry_path by (intro u) (auto simp: paging_ok_def tmp_path_def Let_def)
  have "\<not> pmm_is_free (entry_addr (s_pml4_table s) 0) s"
    using assms by (simp add: paging_ok_def entry_free)
  then show "a \<in> set (tmp_path s) \<Longrightarrow> \<not> pmm_is_free a s"
    using assms u by (auto simp: paging_ok_def tmp_path_def Let_def)
qed

lemma entry_path_step:
  assumes "entry_path s r is = ds @ [a]" "length is = Suc (length ds)" "table_at s' a = Some b"
    "\<forall>d\<in>set ds. table_at s d \<noteq> None \<longrightarrow> table_at s' d = table_at s d"
  shows "entry_path s' r (is @ [i]) = (ds @ [a]) @ [entry_addr b i]"
  using entry_path_snoc [OF entry_path_cong [OF assms(1,2,4)] assms(2,3)] by simp

text \<open>Tables that existed before the walk are found as before after a further level.\<close>

lemma walked_tables:
  assumes W: "walked s0 s r is ds a (i # rest)" and L: "level_step s a s' b"
    and c: "c \<noteq> get_temp_entry s0" "table_at s0 c \<noteq> None"
  shows "table_at s' c = table_at s0 c"
proof -
  have l: "table_at s' a = Some b" "\<forall>c. c \<noteq> get_temp_entry s \<longrightarrow> c \<noteq> a \<longrightarrow> entries s' c = entries s c"
      "\<forall>c. \<not> pmm_is_free c s \<longrightarrow> \<not> pmm_is_free c s'"
    using L by (simp_all add: level_step_def)
  have sc: "table_at s c = table_at s0 c" "get_temp_entry s = get_temp_entry s0" using W c by (simp_all add: walked_def)
  show ?thesis
  proof (cases "c = a")
    case True
    then show ?thesis using L sc(1) c(2) l(1) by (auto simp: level_step_def)
  next
    case False
    then have "entries s' c = entries s c" using l(2) c(1) sc(2) by simp
    then show ?thesis using sc(1) c(2) l(3) by (auto simp: table_at_def Let_def split: if_splits)
  qed
qed

text \<open>
  The entry that a further level leads to is new on the path: it was on the old path when the table existed, and lies in a
  fresh frame otherwise.
\<close>

lemma walked_next:
  assumes W: "walked s0 s r is ds a (i # rest)" and L: "level_step s a s' b"
    and i: "unat i < 512" and Z: "free_zero s0" and P0: "paging_ok s0"
    and path0: "distinct (entry_path s0 r (is @ i # rest))"
      "get_temp_entry s0 \<notin> set (entry_path s0 r (is @ i # rest))"
    and tabs: "rest \<noteq> [] \<Longrightarrow> \<forall>d\<in>set (take (Suc (length is)) (entry_path s0 r (is @ i # rest))).
         phys_base (entries s0 d) \<noteq> TMP_ADDR"
    and e_def: "e = entry_addr b i"
  shows "e \<notin> set (ds @ [a]) \<and> e \<noteq> get_temp_entry s0 \<and> (rest \<noteq> [] \<longrightarrow> phys_base (entries s0 e) \<noteq> TMP_ADDR) \<and>
     ((\<forall>c. pmm_is_free c s' = pmm_is_free c s0) \<and>
        entry_path s0 r ((is @ [i]) @ rest) = (ds @ [a]) @ e #
          (case table_at s0 e of None \<Rightarrow> [] | Some b \<Rightarrow> entry_path s0 b rest) \<or>
      entries s0 e = 0 \<and> e \<notin> set (tmp_path s0)) \<and>
     from_path s0 r (is @ i # rest) ((ds @ [a]) @ [e])"
proof -
  let ?T = "get_temp_entry s0"
  have fp: "from_path s0 r (is @ i # rest) (ds @ [a])" using W by (simp add: walked_def)
  have w: "distinct (ds @ [a])" "?T \<notin> set (ds @ [a])" "\<forall>d\<in>set (ds @ [a]). \<not> pmm_is_free d s"
      "\<forall>c. c \<notin> set ds \<longrightarrow> c \<noteq> ?T \<longrightarrow> entries s c = entries s0 c" "length is = Suc (length ds)"
      "\<forall>c. \<not> pmm_is_free c s0 \<longrightarrow> \<not> pmm_is_free c s"
    using W by (simp_all add: walked_def)
  have b: "page_off b = 0" using table_at_used [of s' a b] L by (simp add: level_step_def)
  have fe: "pmm_is_free e t = pmm_is_free b t" for t
    unfolding e_def by (rule entry_free [OF b i])
  show ?thesis
  proof (cases "table_at s a")
    case (Some b')
    then have bb: "b' = b" "\<forall>c. pmm_is_free c s' = pmm_is_free c s"
      using L by (auto simp: level_step_def)
    have ea: "entries s a = entries s0 a" using w(1,2,4) by auto
    have "\<not> (entries s0 a = 0)"
    proof
      assume "entries s0 a = 0"
      then have "table_at s a = None" by (simp add: table_at_def ea page_base_def)
      with Some show False by simp
    qed
    then have old: "\<forall>c. pmm_is_free c s = pmm_is_free c s0"
        "entry_path s0 r (is @ i # rest) =
          ds @ a # (case table_at s0 a of None \<Rightarrow> [] | Some b \<Rightarrow> entry_path s0 b (i # rest))"
      using W by (auto simp: walked_def)
    have "table_at s0 a = Some b" using Some bb old(1) ea by (simp add: table_at_def)
    from entry_path_old [OF old(2) this]
    have p0: "entry_path s0 r ((is @ [i]) @ rest) = (ds @ [a]) @ e #
          (case table_at s0 e of None \<Rightarrow> [] | Some b \<Rightarrow> entry_path s0 b rest)"
      by (simp add: e_def)
    have "e \<in> set (take (Suc (length is)) (entry_path s0 r (is @ i # rest)))"
      using p0 w(5) by simp
    then have "rest \<noteq> [] \<longrightarrow> phys_base (entries s0 e) \<noteq> TMP_ADDR" using tabs by blast
    moreover have "from_path s0 r (is @ i # rest) ((ds @ [a]) @ [e])"
      by (rule from_path_snoc [OF fp]) (use p0 in \<open>simp add: nth_append\<close>)
    ultimately show ?thesis using p0 path0 old(1) bb by auto
  next
    case None
    then have fresh: "pmm_is_free b s" "unat b < 2 ^ 43"
      using L by (auto simp: level_step_def)
    have f: "pmm_is_free e s" using fresh fe by simp
    then have f0: "pmm_is_free e s0" using w(6) by blast
    have "unat e < 2 ^ 47"
      using unat_entry_addr [OF b i] fresh(2) i by (simp add: e_def)
    then have "entries s0 e = 0" using Z f0 by (simp add: free_zero_def)
    moreover have "e \<notin> set (ds @ [a])" using f w(3) by blast
    moreover have "e \<noteq> ?T" "e \<notin> set (tmp_path s0)" using f0 tmp_used [OF P0] by auto
    moreover have "from_path s0 r (is @ i # rest) ((ds @ [a]) @ [e])" by (rule from_path_snoc [OF fp]) (simp add: f0)
    ultimately show ?thesis by (simp add: phys_base_def)
  qed
qed

lemma walked_step:
  assumes W: "walked s0 s r is ds a (i # rest)" and L: "level_step s a s' b"
    and i: "unat i < 512" and Z: "free_zero s0" and P0: "paging_ok s0"
    and path0: "distinct (entry_path s0 r (is @ i # rest))"
      "get_temp_entry s0 \<notin> set (entry_path s0 r (is @ i # rest))"
    and tabs: "rest \<noteq> [] \<Longrightarrow> \<forall>d\<in>set (take (Suc (length is)) (entry_path s0 r (is @ i # rest))).
         phys_base (entries s0 d) \<noteq> TMP_ADDR"
  shows "walked s0 s' r (is @ [i]) (ds @ [a]) (entry_addr b i) rest"
proof -
  define e where "e = entry_addr b i"
  let ?T = "get_temp_entry s0"
  have w: "paging_ok s" "get_temp_entry s = ?T" "tmp_path s = tmp_path s0"
      "s_pml4_table s = s_pml4_table s0"
      "entry_path s r is = ds @ [a]" "length is = Suc (length ds)" "distinct (ds @ [a])"
      "?T \<notin> set (ds @ [a])" "\<forall>d\<in>set (ds @ [a]). \<not> pmm_is_free d s"
      "\<forall>d\<in>set ds. phys_base (entries s d) \<noteq> TMP_ADDR"
      "\<forall>c. c \<notin> set ds \<longrightarrow> c \<noteq> ?T \<longrightarrow> entries s c = entries s0 c"
      "\<forall>c. \<not> pmm_is_free c s0 \<longrightarrow> \<not> pmm_is_free c s"
    using W by (simp_all add: walked_def)
  have l: "s_pml4_table s' = s_pml4_table s" "get_temp_entry s' = get_temp_entry s"
      "tmp_path s' = tmp_path s" "paging_ok s'" "pmm_ok s'" "table_at s' a = Some b"
      "phys_base (entries s' a) \<noteq> TMP_ADDR"
      "\<forall>c. c \<noteq> get_temp_entry s \<longrightarrow> c \<noteq> a \<longrightarrow> entries s' c = entries s c"
      "\<forall>c. \<not> pmm_is_free c s \<longrightarrow> \<not> pmm_is_free c s'"
    using L by (simp_all add: level_step_def)
  have keep: "entries s' d = entries s d" if "d \<in> set ds" for d
  proof -
    have "d \<noteq> ?T" "d \<noteq> a" using that w(7,8) by auto
    then show ?thesis using l(8) w(2) by simp
  qed
  have tkeep: "\<forall>d\<in>set ds. table_at s d \<noteq> None \<longrightarrow> table_at s' d = table_at s d"
    using keep l(9) by (auto simp: table_at_def Let_def)
  have path: "entry_path s' r (is @ [i]) = (ds @ [a]) @ [e]"
    unfolding e_def by (rule entry_path_step [OF w(5,6) l(6) tkeep])
  have b: "\<not> pmm_is_free b s'" "page_off b = 0" using table_at_used [OF l(6)] by simp_all
  have fe: "pmm_is_free e t = pmm_is_free b t" for t
    unfolding e_def by (rule entry_free [OF b(2) i])
  have mem: "\<forall>c. c \<notin> set (ds @ [a]) \<longrightarrow> c \<noteq> ?T \<longrightarrow> entries s' c = entries s0 c"
    using l(8) w(2,11) by auto
  have new: "e \<notin> set (ds @ [a]) \<and> e \<noteq> get_temp_entry s0 \<and> (rest \<noteq> [] \<longrightarrow> phys_base (entries s0 e) \<noteq> TMP_ADDR) \<and>
     ((\<forall>c. pmm_is_free c s' = pmm_is_free c s0) \<and>
        entry_path s0 r ((is @ [i]) @ rest) = (ds @ [a]) @ e #
          (case table_at s0 e of None \<Rightarrow> [] | Some b \<Rightarrow> entry_path s0 b rest) \<or>
      entries s0 e = 0 \<and> e \<notin> set (tmp_path s0)) \<and>
     from_path s0 r (is @ i # rest) ((ds @ [a]) @ [e])"
    by (rule walked_next [OF W L i Z P0 path0 tabs e_def])
  have tabs': "\<forall>c. c \<noteq> ?T \<longrightarrow> table_at s0 c \<noteq> None \<longrightarrow> table_at s' c = table_at s0 c"
    using walked_tables [OF W L] by blast
  have "entries s' e = entries s0 e" using mem new by blast
  then show ?thesis
    unfolding walked_def e_def [symmetric]
    using l w path b new mem keep fe tabs' by auto
qed

lemma walk_level:
  assumes "walked s0 s r is ds a (i # rest)" "den s p = a" "phys_base f = 0" "0 < avail s"
    "get_table_from_entry p f s = (t, s')" "unat i < 512" "free_zero s0" "paging_ok s0"
    "distinct (entry_path s0 r (is @ i # rest))"
    "get_temp_entry s0 \<notin> set (entry_path s0 r (is @ i # rest))"
    "tables_ok s0 (entry_path s0 r (is @ i # rest))" "length (is @ i # rest) = 4"
  shows "\<exists>b. table_ptr s' t b \<and> den s' (entry_addr t i) = entry_addr b i \<and>
    walked s0 s' r (is @ [i]) (ds @ [a]) (entry_addr b i) rest \<and> avail s \<le> Suc (avail s')"
proof -
  have w: "paging_ok s" "pmm_ok s" "a \<noteq> get_temp_entry s" "phys_base (entries s a) \<noteq> TMP_ADDR"
    using assms(1) by (auto simp: walked_def)
  from table_level [OF w(1,2) assms(3,2) w(3,4) assms(4,5)]
  obtain b where b: "table_ptr s' t b" "level_step s a s' b" by blast
  have tabs: "\<forall>d\<in>set (take (Suc (length is)) (entry_path s0 r (is @ i # rest))).
      phys_base (entries s0 d) \<noteq> TMP_ADDR" if "rest \<noteq> []"
  proof -
    have "Suc (length is) \<le> 3" using assms(12) that by (cases rest) auto
    then have "set (take (Suc (length is)) (entry_path s0 r (is @ i # rest)))
        \<subseteq> set (take 3 (entry_path s0 r (is @ i # rest)))"
      by (rule set_take_subset_set_take)
    then show ?thesis using assms(11) unfolding tables_ok_def by blast
  qed
  have "walked s0 s' r (is @ [i]) (ds @ [a]) (entry_addr b i) rest"
    using walked_step [OF assms(1) b(2) assms(6,7,8,9,10) tabs] .
  moreover have "avail s \<le> Suc (avail s')" using b(2) by (simp add: level_step_def)
  ultimately show ?thesis using b(1) table_ptr_entry(1) [OF b(1) assms(6)] by blast
qed

text \<open>
  What mapping a page relies on: consistent allocator and temporary mapping, zeroed free frames, a
  used root table, three free frames for new tables, and a path to the page that visits no entry
  twice, no table at \<open>TMP_ADDR\<close>, and does not end in an entry that leads to the temporary page.
\<close>

definition map_ok :: "mm \<Rightarrow> u64 \<Rightarrow> u64 \<Rightarrow> bool" where
  "map_ok s pml4 va \<longleftrightarrow>
     paging_ok s \<and> pmm_ok s \<and> free_zero s \<and> root_ok pml4 \<and> \<not> pmm_is_free pml4 s \<and> 3 \<le> avail s \<and>
     distinct (va_path s pml4 va) \<and> get_temp_entry s \<notin> set (va_path s pml4 va) \<and>
     tables_ok s (va_path s pml4 va) \<and>
     (length (va_path s pml4 va) = 4 \<longrightarrow> va_path s pml4 va ! 3 \<notin> set (tmp_path s))"

lemma get_entry_create:
  assumes "map_ok s pml4 va" "phys_base f = 0" "get_entry pml4 f va s = (p, s')"
  shows "\<exists>ds e. walked s s' pml4 (indices va) ds e [] \<and> p \<noteq> 0 \<and> resolve s' p = e"
proof -
  note M = assms(1) [unfolded map_ok_def va_path_def indices_def]
  let ?i4 = "get_lv4_index va" and ?i3 = "get_lv3_index va" and ?i2 = "get_lv2_index va"
    and ?i1 = "get_lv1_index va"
  define e4 where "e4 = entry_addr pml4 ?i4"
  have d4: "den s e4 = e4" using M unfolding e4_def by (intro root_den) simp_all
  have pid: "page_off pml4 = 0" using M by (simp add: root_ok_def)
  have w4: "walked s s pml4 [?i4] [] e4 [?i3, ?i2, ?i1]"
    using M entry_free [OF pid, of ?i4] unfolding walked_def e4_def
    by (auto simp: tables_ok_def from_path_def split: option.splits)
  have sd: "distinct (entry_path s pml4 [?i4, ?i3, ?i2, ?i1])"
    "get_temp_entry s \<notin> set (entry_path s pml4 [?i4, ?i3, ?i2, ?i1])"
    "tables_ok s (entry_path s pml4 [?i4, ?i3, ?i2, ?i1])" "free_zero s" "paging_ok s" "3 \<le> avail s"
    using M by simp_all
  obtain t3 s1 where l3: "get_table_from_entry e4 f s = (t3, s1)" by (meson surj_pair)
  obtain b3 where b3: "table_ptr s1 t3 b3" "den s1 (entry_addr t3 ?i3) = entry_addr b3 ?i3"
      "walked s s1 pml4 [?i4, ?i3] [e4] (entry_addr b3 ?i3) [?i2, ?i1]" "avail s \<le> Suc (avail s1)"
    using walk_level [OF w4 d4 assms(2) _ l3 index_less(2) sd(4,5)] sd by auto
  obtain t2 s2 where l2: "get_table_from_entry (entry_addr t3 ?i3) f s1 = (t2, s2)" by (meson surj_pair)
  obtain b2 where b2: "table_ptr s2 t2 b2" "den s2 (entry_addr t2 ?i2) = entry_addr b2 ?i2"
      "walked s s2 pml4 [?i4, ?i3, ?i2] [e4, entry_addr b3 ?i3] (entry_addr b2 ?i2) [?i1]"
      "avail s1 \<le> Suc (avail s2)"
    using walk_level [OF b3(3,2) assms(2) _ l2 index_less(3) sd(4,5)] sd b3(4) by auto
  obtain t1 s3 where l1: "get_table_from_entry (entry_addr t2 ?i2) f s2 = (t1, s3)" by (meson surj_pair)
  obtain b1 where b1: "table_ptr s3 t1 b1" "den s3 (entry_addr t1 ?i1) = entry_addr b1 ?i1"
      "walked s s3 pml4 [?i4, ?i3, ?i2, ?i1] [e4, entry_addr b3 ?i3, entry_addr b2 ?i2]
         (entry_addr b1 ?i1) []"
    using walk_level [OF b2(3,2) assms(2) _ l1 index_less(4) sd(4,5)] sd b2(4) b3(4) by auto
  have nz: "t3 \<noteq> 0" "t2 \<noteq> 0" "t1 \<noteq> 0" "page_off t1 = 0"
    using b1(1) b2(1) b3(1) by (simp_all add: table_ptr_def)
  have res: "p = entry_addr t1 ?i1" "s' = s3"
    using assms(3) nz by (simp_all add: get_entry_def get_entry_by_index_def e4_def [symmetric] l3 l2 l1)
  have "unat p = unat t1 + 8 * unat ?i1" unfolding res by (rule unat_entry_addr [OF nz(4)]) simp
  then have "p \<noteq> 0" using nz(3) by (auto simp: word_unat_eq_iff)
  moreover have "resolve s3 p = entry_addr b1 ?i1"
    using b1(2) table_ptr_entry(2) [OF b1(1), of ?i1] by (simp add: den_def res(1) not_le split: if_splits)
  ultimately show ?thesis using b1(3) res(2) by (auto simp: indices_def)
qed

lemma drop_page: "drop_bit 12 w = drop_bit 12 (page_base w)" for w :: u64
  proof (rule bit_word_eqI)
    fix n
    assume "n < LENGTH(64)"
    have "bit w (12 + n) \<Longrightarrow> 12 + n < 64" using bit_imp_le_length [of w "12 + n"] by simp
    then show "bit (drop_bit 12 w) n = bit (drop_bit 12 (page_base w)) n"
      unfolding page_base_def fff by (auto simp: bit_simps)
  qed
lemma drop_page_eq: "page_base va = page_base va' \<Longrightarrow> drop_bit 12 va = drop_bit 12 va'"
  by (subst (1 2) drop_page) simp
lemma drop_more: "drop_bit 12 va = drop_bit 12 va' \<Longrightarrow> 12 \<le> k \<Longrightarrow> drop_bit k va = drop_bit k (va'::u64)"
proof -
  assume d: "drop_bit 12 va = drop_bit 12 va'" and "12 \<le> k"
    then obtain j where j: "k = 12 + j" using le_Suc_ex by blast
    have "drop_bit j (drop_bit 12 va) = drop_bit j (drop_bit 12 va')" by (simp only: d)
    then show ?thesis unfolding j by (simp add: add.commute)
qed

lemma va_path_page:
  assumes "page_base va = page_base va'"
  shows "va_path s pml4 va = va_path s pml4 va'"
proof -
  note d = drop_page_eq [OF assms]
  have "drop_bit 39 va = drop_bit 39 va'" "drop_bit 30 va = drop_bit 30 va'"
    "drop_bit 21 va = drop_bit 21 va'"
    by (rule drop_more [OF d]; simp)+
  then have "indices va = indices va'"
    using d by (simp add: indices_def get_lv4_index_def get_lv3_index_def get_lv2_index_def
        get_lv1_index_def)
  then show ?thesis by (simp add: va_path_def)
qed

lemma map_page_entry:
  assumes "map_ok s pml4 va" "phys_base flags = 0" "map_page pml4 va frame flags s = s'"
  shows "\<exists>ds e s1. walked s s1 pml4 (indices va) ds e [] \<and> e \<notin> set (tmp_path s) \<and>
    s' = s1\<lparr>entries := (entries s1)(e := frame OR flags), flushed := va # flushed s1\<rparr>"
proof -
  obtain p s1 where g: "get_entry pml4 flags va s = (p, s1)" by (meson surj_pair)
  obtain ds e where w: "walked s s1 pml4 (indices va) ds e []" "p \<noteq> 0" "resolve s1 p = e"
    using get_entry_create [OF assms(1,2) g] by blast
  have "s' = s1\<lparr>entries := (entries s1)(e := frame OR flags), flushed := va # flushed s1\<rparr>"
    using assms(3) w by (simp add: map_page_def g vwrite_def flush_TLB_def)
  moreover have "e \<notin> set (tmp_path s)"
  proof (cases "entries s e = 0 \<and> e \<notin> set (tmp_path s)")
    case False
    then have "entry_path s pml4 (indices va @ []) = ds @ e # (case table_at s e of None \<Rightarrow> [] | Some b \<Rightarrow> entry_path s b [])"
      using w(1) unfolding walked_def by blast
    also have "(case table_at s e of None \<Rightarrow> [] | Some b \<Rightarrow> entry_path s b []) = []"
      by (cases "table_at s e") simp_all
    finally have "va_path s pml4 va = ds @ [e]" by (simp add: va_path_def)
    moreover have "length ds = 3" using w(1) by (simp add: walked_def indices_def)
    ultimately have "length (va_path s pml4 va) = 4" "va_path s pml4 va ! 3 = e"
      by (simp_all add: nth_append)
    then show ?thesis using assms(1) by (auto simp: map_ok_def)
  qed simp
  ultimately show ?thesis using w(1) by blast
qed

lemma walked_keeps:
  assumes "walked s s1 r is ds e rest"
  shows "d \<noteq> get_temp_entry s \<Longrightarrow> table_at s d \<noteq> None \<Longrightarrow> table_at s1 d = table_at s d"
    and "d \<notin> set ds \<Longrightarrow> d \<noteq> get_temp_entry s \<Longrightarrow> entries s1 d = entries s d"
  using assms by (simp_all add: walked_def)

lemma mapped_path:
  assumes "walked s s1 pml4 (indices va) ds e []" "e \<notin> set (tmp_path s)"
    "s' = s1\<lparr>entries := (entries s1)(e := x), flushed := g\<rparr>"
  shows "paging_ok s'" "get_temp_entry s' = get_temp_entry s" "va_path s' pml4 va = ds @ [e]"
    "length ds = 3" "get_temp_entry s' \<notin> set (ds @ [e])" "tables_ok s' (ds @ [e])" "tmp_path s' = tmp_path s"
proof -
  have w: "paging_ok s1" "get_temp_entry s1 = get_temp_entry s" "tmp_path s1 = tmp_path s"
      "entry_path s1 pml4 (indices va) = ds @ [e]" "length (indices va) = Suc (length ds)"
      "distinct (ds @ [e])" "get_temp_entry s \<notin> set (ds @ [e])"
      "\<forall>d\<in>set ds. phys_base (entries s1 d) \<noteq> TMP_ADDR"
    using assms(1) by (simp_all add: walked_def)
  have keep: "entries s' c = entries s1 c" if "c \<noteq> e" for c using that by (simp add: assms(3))
  have free: "\<forall>c. \<not> pmm_is_free c s1 \<longrightarrow> \<not> pmm_is_free c s'" by (simp add: assms(3))
  have tp: "\<forall>c\<in>set (tmp_path s1). page_base (entries s' c) = page_base (entries s1 c) \<and>
       is_entry_present (entries s' c)"
  proof
    fix c
    assume c: "c \<in> set (tmp_path s1)"
    then have "entries s' c = entries s1 c" using assms(2) w(3) by (intro keep) auto
    then show "page_base (entries s' c) = page_base (entries s1 c) \<and> is_entry_present (entries s' c)"
      using c w(1) by (simp add: paging_ok_def)
  qed
  have sp: "s_pml4_table s' = s_pml4_table s1" by (simp add: assms(3))
  note p = paging_ok_write [OF w(1) sp tp free]
  show "paging_ok s'" "get_temp_entry s' = get_temp_entry s" "tmp_path s' = tmp_path s" using p w(2,3) by simp_all
  show l: "length ds = 3" using w(5) by (simp add: indices_def)
  have "\<forall>d\<in>set ds. table_at s1 d \<noteq> None \<longrightarrow> table_at s' d = table_at s1 d"
    using keep w(6) by (auto simp: table_at_def assms(3))
  from entry_path_cong [OF w(4,5) this]
  show "va_path s' pml4 va = ds @ [e]" by (simp add: va_path_def)
  show "get_temp_entry s' \<notin> set (ds @ [e])" using w(2,7) p by simp
  have "entries s' d = entries s1 d" if "d \<in> set ds" for d using keep [of d] w(6) that by auto
  then show "tables_ok s' (ds @ [e])"
    using l w(2,7,8) p by (auto simp: tables_ok_def)
qed

lemma page_base_or: "page_base (x OR y) = page_base x OR page_base y"
  unfolding page_base_def fff by (rule bit_word_eqI) (auto simp: bit_simps)

lemma mapped_translation:
  assumes "map_ok s pml4 page" "phys_base flags = 0" "is_entry_present flags"
    "page_base va = page_base page"
  shows "fst (to_usr_phys pml4 va (map_page pml4 page frame flags s)) =
      page_base (frame OR flags) + page_off va"
proof -
  define s' where "s' = map_page pml4 page frame flags s"
  obtain ds e s1 where w: "walked s s1 pml4 (indices page) ds e []" "e \<notin> set (tmp_path s)"
    "s' = s1\<lparr>entries := (entries s1)(e := frame OR flags), flushed := page # flushed s1\<rparr>"
    using map_page_entry [OF assms(1,2) s'_def [symmetric]] by blast
  note m = mapped_path [OF w]
  have path: "va_path s' pml4 va = ds @ [e]" using m(3) va_path_page [OF assms(4)] by simp
  have "root_ok pml4" using assms(1) by (simp add: map_ok_def)
  note tr = translate_walk(1) [OF m(1) this, of va, unfolded path, OF m(6,5)]
  have "(frame OR flags) AND Present = (frame AND Present) OR (flags AND Present)"
    by (rule bit_word_eqI) (auto simp: bit_simps)
  then have "is_entry_present (frame OR flags)"
    using assms(3) by (simp add: is_entry_present_def or_eq_0_iff)
  moreover have "(ds @ [e]) ! 3 = e" using m(4) by (simp add: nth_append)
  moreover have "entries s' e = frame OR flags" by (simp add: w(3))
  ultimately show ?thesis using tr m(4) by (simp add: s'_def [symmetric] Let_def)
qed

text \<open>C2:
  Mapping a page and then translating any address of that page gives the mapped frame plus
  the page offset, with missing tables allocated on the way (three free frames suffice), for any
  frame and any flags in the low twelve bits with the present bit; free frames must hold zeros.
\<close>

theorem map_then_translate:
  assumes "map_ok s pml4 page" "page_base flags = 0" "is_entry_present flags" "page_off frame = 0"
    "page_base va = page_base page"
  shows "fst (to_usr_phys pml4 va (map_page pml4 page frame flags s)) = frame + page_off va"
proof -
  have "phys_base flags = 0" using base_simps(2) [of flags] assms(2) by (simp add: phys_base_def)
  moreover have "page_base (frame OR flags) = frame"
    using page_base_or [of frame flags] page_base_id [OF assms(4)] assms(2) by simp
  ultimately show ?thesis using mapped_translation [OF assms(1) _ assms(3,5), of frame] by simp
qed

text \<open>Entries on a path lie in used frames.\<close>

lemma path_frames_used:
  assumes "\<forall>i\<in>set is. unat i < 512" "page_off r = 0" "\<not> pmm_is_free r s" "d \<in> set (entry_path s r is)"
  shows "\<not> pmm_is_free d s"
  using assms
proof (induction "is" arbitrary: r)
  case Nil
  then show ?case by simp
next
  case (Cons i "is")
  have here: "\<not> pmm_is_free (entry_addr r i) s" using Cons.prems(1,2,3) by (simp add: entry_free)
  show ?case
  proof (cases "table_at s (entry_addr r i)")
    case None
    then show ?thesis using Cons.prems(4) here by simp
  next
    case (Some b)
    then show ?thesis using Cons here table_at_used [OF Some] by auto
  qed
qed

lemma va_path_used:
  assumes "root_ok pml4" "\<not> pmm_is_free pml4 s" "d \<in> set (va_path s pml4 va)"
  shows "\<not> pmm_is_free d s"
  using assms path_frames_used [of "indices va" pml4 s d] by (auto simp: va_path_def indices_def root_ok_def)

text \<open>
  The tables below a root form a tree: paths of two addresses have an entry in common only at the same level, and only
  when the indices of the addresses agree up to that level.
\<close>

definition page_tree :: "mm \<Rightarrow> u64 \<Rightarrow> bool" where
  "page_tree s pml4 \<longleftrightarrow> (\<forall>va va' i j. i < length (va_path s pml4 va) \<longrightarrow> j < length (va_path s pml4 va') \<longrightarrow>
     va_path s pml4 va ! i = va_path s pml4 va' ! j \<longrightarrow>
     i = j \<and> take (Suc i) (indices va) = take (Suc i) (indices va'))"

lemma walked_apart:
  assumes "map_ok s pml4 page" "page_tree s pml4" "indices va \<noteq> indices page" "length (va_path s pml4 va) = 4"
    and "walked s s1 pml4 (indices page) ds e []"
  shows "e \<notin> set (va_path s pml4 va)" "va_path s pml4 va ! 3 \<notin> set (ds @ [e])"
proof -
  let ?q = "va_path s pml4 va" and ?es = "ds @ [e]"
  have l: "length ?es = 4" using assms(5) by (simp add: walked_def indices_def)
  have old: "j < length (va_path s pml4 page) \<and> va_path s pml4 page ! j = ?es ! j \<or> pmm_is_free (?es ! j) s" if "j < 4" for j
    using assms(5) that l by (auto simp: walked_def from_path_def va_path_def)
  have used: "\<not> pmm_is_free (?q ! k) s" if "k < 4" for k
    using va_path_used [of pml4 s "?q ! k" va] assms(1,4) that by (auto simp: map_ok_def)
  have same: "k = j \<and> take (Suc j) (indices va) = take (Suc j) (indices page)" if "?q ! k = ?es ! j" "k < 4" "j < 4" for k j
  proof -
    have "j < length (va_path s pml4 page)" "va_path s pml4 page ! j = ?q ! k" using old [OF that(3)] used [OF that(2)] that(1) by auto
    then have "k = j \<and> take (Suc k) (indices va) = take (Suc k) (indices page)"
      using assms(2,4) that(2) by (metis page_tree_def)
    then show ?thesis by blast
  qed
  have four: "take (Suc 3) (indices w) = indices w" for w by (simp add: indices_def)
  have ne: "?q ! 3 \<noteq> ?es ! j" if "j < 4" for j
    using same [of 3 j] that assms(3) four by auto
  show "?q ! 3 \<notin> set ?es"
  proof
    assume "?q ! 3 \<in> set ?es"
    then obtain j where "j < 4" "?es ! j = ?q ! 3" using l by (metis in_set_conv_nth)
    then show False using ne [of j] by simp
  qed
  have e: "?es ! 3 = e" using l by (simp add: nth_append)
  show "e \<notin> set ?q"
  proof
    assume "e \<in> set ?q"
    then obtain k where "k < 4" "?q ! k = ?es ! 3" using assms(4) e by (metis in_set_conv_nth)
    then show False using same [of k 3] assms(3) four by auto
  qed
qed


section \<open>A concrete machine\<close>

text \<open>
  Page tables at 0x4000 to 0x7000 that map the temporary page and the page at 0x201000, a bitmap of 560 frames of which
  the last 32 are free, and zeros in the free frames.
\<close>

definition sample :: mm where
  "sample = \<lparr>bitmap = 0x1000, bitmap_size = 70, last_idx = 0, last_idx_bit = 7,
     bytes = (\<lambda>i. if i < 0x1042 then 0xff else 0), s_pml4_table = 0x4000,
     entries = (\<lambda>a. if a = 0x4000 then 0x5003 else if a = 0x5000 then 0x6003
       else if a = 0x6008 then 0x7003
       else if a = 0x7008 then 0x201003 else 0), flushed = []\<rparr>"

lemma sample_tmp: "tmp_path sample = [0x4000, 0x5000, 0x6008]" "get_temp_entry sample = 0x7000"
  by code_simp+

lemma sample_free: "pmm_is_free a sample \<longleftrightarrow> unat a div 4096 mod 2 ^ 35 \<ge> 528"
proof -
  define n where "n = unat a div 4096 mod 2 ^ 35"
  have n: "n < 2 ^ 35" by (simp add: n_def)
  have i: "(0x1000 + of_nat (n div 8) :: u64) < 0x1042 \<longleftrightarrow> n div 8 < 66"
  proof -
    have "unat (0x1000 + of_nat (n div 8) :: u64) = 0x1000 + n div 8"
      using n by (simp add: unat_word_ariths unat_of_nat)
    then show ?thesis by (simp add: word_less_nat_alt)
  qed
  have "bit (0xff :: u8) (7 - n mod 8)"
  proof -
    have m: "(0xff :: u8) = mask 8" by (simp add: mask_eq_exp_minus_1)
    show ?thesis unfolding m by (simp add: bit_simps)
  qed
  then have "frame_used sample n \<longleftrightarrow> n div 8 < 66"
    by (simp add: frame_used_def rd_bm_def sample_def i)
  then show ?thesis unfolding pmm_is_free_frame n_def [symmetric] by auto
qed

lemma sample_ok: "paging_ok sample" "pmm_ok sample" "free_zero sample" "3 \<le> avail sample"
proof -
  show "paging_ok sample"
    unfolding paging_ok_def sample_tmp by (simp add: sample_free)
       (simp add: sample_def is_entry_present_def page_base_def page_off_def)
  have used: "frame_used sample n \<longleftrightarrow> n < 528" if "n < 560" for n
    using sample_free [of "of_nat (n * 4096)"] that
    by (simp add: pmm_is_free_frame unat_of_nat del: of_nat_mult) linarith
  then show "pmm_ok sample" by (simp add: pmm_ok_def) (simp add: sample_def)
  show "free_zero sample"
    by (auto simp: free_zero_def sample_free) (auto simp: sample_def)
  have f: "pmm_frames sample = 560" by (simp add: pmm_frames_def sample_def)
  have "{528, 529, 530} \<subseteq> {n. n < pmm_frames sample \<and> \<not> frame_used sample n}"
    using used by (auto simp: f)
  moreover have "finite {n. n < pmm_frames sample \<and> \<not> frame_used sample n}" by simp
  ultimately have "card {528 :: nat, 529, 530} \<le> avail sample"
    unfolding avail_def by (rule card_mono [rotated])
  then show "3 \<le> avail sample" by simp
qed

lemma sample_path: "va_path sample 0x4000 0x40000000 = [0x4000, 0x5008]"
  by code_simp

lemma sample_map_ok: "map_ok sample 0x4000 0x40000000"
  unfolding map_ok_def sample_path sample_tmp
  using sample_ok by (simp add: sample_free root_ok_def tables_ok_def sample_tmp)
    (simp add: sample_def phys_base_def page_off_def)

lemma sample_path2: "va_path sample 0x4000 0x201123 = [0x4000, 0x5000, 0x6008, 0x7008]"
  by code_simp

theorem to_usr_phys_walk_witness: "fst (to_usr_phys 0x4000 0x201123 sample) = 0x201123"
proof -
  have r: "root_ok 0x4000" by (simp add: root_ok_def page_off_def)
  have t: "tables_ok sample (va_path sample 0x4000 0x201123)"
    unfolding sample_path2 tables_ok_def sample_tmp by (simp add: sample_def phys_base_def)
  have n: "get_temp_entry sample \<notin> set (va_path sample 0x4000 0x201123)"
    unfolding sample_path2 sample_tmp by simp
  have e: "entries sample 0x7008 = 0x201003" by (simp add: sample_def)
  show ?thesis
    using to_usr_phys_walk [OF sample_ok(1) r t n] unfolding sample_path2
    by (simp add: e is_entry_present_def page_base_def page_off_def)
qed

theorem map_then_translate_witness:
  "fst (to_usr_phys 0x4000 0x40000123 (map_page 0x4000 0x40000000 0x9000 3 sample)) = 0x9123"
proof -
  have "fst (to_usr_phys 0x4000 0x40000123 (map_page 0x4000 0x40000000 0x9000 3 sample)) =
      0x9000 + page_off 0x40000123"
    by (rule map_then_translate [OF sample_map_ok])
      (simp_all add: page_off_def is_entry_present_def page_base_def)
  then show ?thesis by (simp add: page_off_def)
qed

lemma level_cases: "n < (4 :: nat) \<Longrightarrow> n = 0 \<or> n = 1 \<or> n = 2 \<or> n = 3"
  by arith

lemma indices_small: "n < 4 \<Longrightarrow> unat (indices va ! n) < 512"
  by (drule level_cases) (auto simp: indices_def numeral_2_eq_2 numeral_3_eq_3)

text \<open>The tables of the sample form a tree: one table per level.\<close>

definition sample_table :: "nat \<Rightarrow> u64" where
  "sample_table level = [0x4000, 0x5000, 0x6000, 0x7000] ! level"

lemma sample_path_shape:
  "\<exists>k \<le> 4. va_path sample 0x4000 va = map (\<lambda>i. entry_addr (sample_table i) (indices va ! i)) [0..<k] \<and>
     (\<forall>i. Suc i < k \<longrightarrow> indices va ! i = (if i = 2 then 1 else 0))"
proof -
  let ?i = "\<lambda>n. indices va ! n"
  have ind: "indices va = [?i 0, ?i 1, ?i 2, ?i 3]" by (simp add: indices_def numeral_2_eq_2 numeral_3_eq_3)
  note small = indices_small [of _ va]
  have addr: "entry_addr b i = c \<longleftrightarrow> i = j" if "page_off b = 0" "unat i < 512" "unat j < 512" "c = entry_addr b j" for b i j c
    using entry_addr_inj [OF that(1,2,1,3)] that(4) by simp
  have at: "table_at sample a = (if a = 0x4000 then Some 0x5000 else if a = 0x5000 then Some 0x6000
       else if a = 0x6008 then Some 0x7000 else if a = 0x7008 then Some 0x201000 else None)" for a
    by (simp add: table_at_def sample_free) (simp add: sample_def page_base_def phys_base_def)
  have far: "entry_addr b i \<noteq> c" if "page_off b = 0" "unat i < 512" "page_base c \<noteq> b" for b i c
    using entry_addr_page(1) [OF that(1,2)] that(3) by auto
  have l0: "table_at sample (entry_addr 0x4000 (?i 0)) = (if ?i 0 = 0 then Some 0x5000 else None)"
    using addr [of "0x4000" "?i 0" 0 "0x4000"] far [of "0x4000" "?i 0"] small [of 0]
    unfolding at by (simp add: entry_addr_def page_off_def page_base_def)
  have l1: "table_at sample (entry_addr 0x5000 (?i 1)) = (if ?i 1 = 0 then Some 0x6000 else None)"
    using addr [of "0x5000" "?i 1" 0 "0x5000"] far [of "0x5000" "?i 1"] small [of 1]
    unfolding at by (simp add: entry_addr_def page_off_def page_base_def)
  have l2: "table_at sample (entry_addr 0x6000 (?i 2)) = (if ?i 2 = 1 then Some 0x7000 else None)"
    using addr [of "0x6000" "?i 2" 1 "0x6008"] far [of "0x6000" "?i 2"] small [of 2]
    unfolding at by (simp add: entry_addr_def page_off_def page_base_def)
  have u: "[0..<1] = [0]" "[0..<2] = [0, 1]" "[0..<3] = [0, 1, 2]" "[0..<4] = [0, 1, 2, 3]"
    by (simp_all add: upt_conv_Cons)
  consider "?i 0 \<noteq> 0" | "?i 0 = 0" "?i 1 \<noteq> 0" | "?i 0 = 0" "?i 1 = 0" "?i 2 \<noteq> 1" | "?i 0 = 0" "?i 1 = 0" "?i 2 = 1" by blast
  then show ?thesis
  proof cases
    case 1
    then show ?thesis
      by (intro exI [of _ 1]) (simp add: va_path_def arg_cong [OF ind, of "entry_path sample 0x4000"] l0 u sample_table_def)
  next
    case 2
    then show ?thesis using l0 l1
      by (intro exI [of _ 2]) (simp add: va_path_def arg_cong [OF ind, of "entry_path sample 0x4000"] u sample_table_def)
  next
    case 3
    have "i = 0 \<or> i = 1" if "Suc i < 3" for i using that by arith
    then show ?thesis using 3 l0 l1 l2
      by (intro exI [of _ 3]) (auto simp: va_path_def arg_cong [OF ind, of "entry_path sample 0x4000"] u sample_table_def)
  next
    case 4
    have "i = 0 \<or> i = 1 \<or> i = 2" if "Suc i < 4" for i using that by arith
    then show ?thesis using 4 l0 l1 l2
      by (intro exI [of _ 4]) (auto simp: va_path_def arg_cong [OF ind, of "entry_path sample 0x4000"] u sample_table_def
          split: option.splits)
  qed
qed

lemma sample_tree: "page_tree sample 0x4000"
  unfolding page_tree_def
proof (intro allI impI)
  fix va va' i j
  assume i: "i < length (va_path sample 0x4000 va)" and j: "j < length (va_path sample 0x4000 va')"
    and eq: "va_path sample 0x4000 va ! i = va_path sample 0x4000 va' ! j"
  obtain k where k: "k \<le> 4" "va_path sample 0x4000 va = map (\<lambda>i. entry_addr (sample_table i) (indices va ! i)) [0..<k]"
    "\<forall>i. Suc i < k \<longrightarrow> indices va ! i = (if i = 2 then 1 else 0)" using sample_path_shape by blast
  obtain l where l: "l \<le> 4" "va_path sample 0x4000 va' = map (\<lambda>i. entry_addr (sample_table i) (indices va' ! i)) [0..<l]"
    "\<forall>i. Suc i < l \<longrightarrow> indices va' ! i = (if i = 2 then 1 else 0)" using sample_path_shape by blast
  have b: "i < k" "j < l" "i < 4" "j < 4" using i j k(1,2) l(1,2) by simp_all
  have "page_off (sample_table n) = 0" if "n < 4" for n
    using level_cases [OF that] by (auto simp: sample_table_def page_off_def)
  then have same: "sample_table i = sample_table j" "indices va ! i = indices va' ! j"
    using eq b entry_addr_inj [of "sample_table i" "indices va ! i" "sample_table j" "indices va' ! j"] indices_small
    by (simp_all add: k(2) l(2))
  have ij: "i = j" using same(1) level_cases [OF b(3)] level_cases [OF b(4)] by (auto simp: sample_table_def)
  have "indices va ! n = indices va' ! n" if "n < Suc i" for n
    using that same(2) b k(3) l(3) ij by (cases "n = i") auto
  then have "take (Suc i) (indices va) = take (Suc i) (indices va')"
    using b(3) by (intro nth_take_lemma) (simp_all add: indices_def)
  then show "i = j \<and> take (Suc i) (indices va) = take (Suc i) (indices va')" using ij by blast
qed


text \<open>
  A page mapped with the no-execute bit translates to an address with bit 63 set: the
  translation masks the low twelve bits of the entry only, so it does not return the frame.
\<close>

theorem no_execute_translation:
  assumes "map_ok s pml4 page" "page_base va = page_base page" "page_off frame = 0" "unat frame < 2 ^ 52"
  shows "fst (to_usr_phys pml4 va (map_page pml4 page frame (ExecDisable OR Present) s)) =
      (frame OR ExecDisable) + page_off va \<and>
    fst (to_usr_phys pml4 va (map_page pml4 page frame (ExecDisable OR Present) s)) \<noteq> frame + page_off va"
proof -
  have f: "phys_base (ExecDisable OR Present) = 0" "is_entry_present (ExecDisable OR Present)"
    by (simp_all add: phys_base_def is_entry_present_def)
  have fb: "page_base frame = frame" using assms(3) by (rule page_base_id)
  have "page_base (frame OR (ExecDisable OR Present)) = page_base frame OR ExecDisable"
  proof -
    note page_base_or
    moreover have "page_base (ExecDisable OR Present) = ExecDisable" by (simp add: page_base_def)
    ultimately show ?thesis by simp
  qed
  then have r: "fst (to_usr_phys pml4 va (map_page pml4 page frame (ExecDisable OR Present) s)) =
      (frame OR ExecDisable) + page_off va"
    using mapped_translation [OF assms(1) f assms(2), of frame] fb by simp
  have "\<not> bit (phys_base frame) 63" by (simp add: phys_base_mask bit_simps)
  then have "\<not> bit frame 63" using phys_base_id [OF assms(3,4)] by simp
  moreover have "bit (frame OR ExecDisable) 63" by (simp add: bit_simps)
  ultimately have "frame OR ExecDisable \<noteq> frame" by metis
  then show ?thesis unfolding r by simp
qed

theorem no_execute_translation_witness:
  "fst (to_usr_phys 0x4000 0x40000123 (map_page 0x4000 0x40000000 0x9000 (ExecDisable OR Present) sample))
     \<noteq> 0x9123"
  using no_execute_translation [OF sample_map_ok, of "0x40000123" "0x9000"]
  by (simp add: page_base_def page_off_def)

text \<open>
  A table that the walk creates is not cleared: its 512 entries are whatever the frame held,
  so stale contents of a recycled frame become translations.
\<close>

theorem new_table_not_cleared:
  assumes "paging_ok s" "pmm_ok s" "phys_base flags = 0" "resolve s v = a" "\<not> pmm_is_free a s"
    "a \<noteq> get_temp_entry s" "table_at s a = None" "0 < avail s" "create_table v flags s = (t, s')"
  shows "\<exists>b. table_at s' a = Some b \<and> pmm_is_free b s \<and>
    (\<forall>i. unat i < 512 \<longrightarrow> entries s' (entry_addr b i) = entries s (entry_addr b i))"
proof -
  obtain b where b: "table_ptr s' t b" "level_step s a s' b"
    using create_table_spec [OF assms(1-4,6-9)] by blast
  have l: "table_at s' a = Some b" "pmm_is_free b s" "page_off b = 0"
      "\<forall>c. c \<noteq> get_temp_entry s \<longrightarrow> c \<noteq> a \<longrightarrow> entries s' c = entries s c"
    using b(2) assms(7) by (auto simp: level_step_def)
  have "entries s' (entry_addr b i) = entries s (entry_addr b i)" if "unat i < 512" for i
  proof -
    have "pmm_is_free (entry_addr b i) s" using entry_free [OF l(3) that] l(2) by simp
    then have "entry_addr b i \<noteq> get_temp_entry s" "entry_addr b i \<noteq> a"
      using tmp_used(1) [OF assms(1)] assms(5) by auto
    then show ?thesis using l(4) by blast
  qed
  then show ?thesis using l(1,2) by blast
qed

theorem new_table_not_cleared_witness:
  "\<exists>b. pmm_is_free b sample \<and>
     entries (snd (create_table 0x5008 3 sample)) (entry_addr b 7) = entries sample (entry_addr b 7)"
proof -
  have t: "table_at sample 0x5008 = None" by code_simp
  have r: "resolve sample 0x5008 = 0x5008" by code_simp
  have f: "phys_base 3 = 0" by (simp add: phys_base_def)
  have n: "(0x5008 :: u64) \<noteq> get_temp_entry sample" by (simp add: sample_tmp)
  have "\<not> pmm_is_free 0x5008 sample" by (simp add: sample_free)
  from new_table_not_cleared [OF sample_ok(1,2) f r this n t _ prod.collapse [symmetric]]
  obtain b where "pmm_is_free b sample"
    "\<forall>i. unat i < 512 \<longrightarrow>
      entries (snd (create_table 0x5008 3 sample)) (entry_addr b i) = entries sample (entry_addr b i)"
    using sample_ok(4) by auto
  then show ?thesis by (intro exI [of _ b]) simp
qed

lemma entry_path_sim:
  assumes "\<forall>d\<in>set (entry_path s r is). entries s' d = entries s d" "\<forall>c. pmm_is_free c s' = pmm_is_free c s"
  shows "entry_path s' r is = entry_path s r is"
  using assms(1)
proof (induction "is" arbitrary: r)
  case Nil
  then show ?case by simp
next
  case (Cons i "is")
  then have "table_at s' (entry_addr r i) = table_at s (entry_addr r i)"
    using assms(2) by (simp add: table_at_def)
  then show ?case using Cons by (auto split: option.splits)
qed

lemma va_path_sim:
  assumes "sim s s'" "get_temp_entry s \<notin> set (va_path s pml4 va)"
  shows "va_path s' pml4 va = va_path s pml4 va"
proof -
  have "entries s' d = entries s d" if "d \<in> set (va_path s pml4 va)" for d
    using that assms(2) by (intro sim_fields(6) [OF assms(1)]) auto
  then show ?thesis using sim_fields(2) [OF assms(1)] unfolding va_path_def by (intro entry_path_sim) auto
qed

lemma tables_ok_sim:
  assumes "paging_ok s" "sim s s'" "tables_ok s p" "get_temp_entry s \<notin> set p"
  shows "tables_ok s' p"
proof -
  have "entries s' d = entries s d" if "d \<in> set (take 3 p)" for d
    using that assms(4) by (intro sim_fields(6) [OF assms(2)]) (auto dest: in_set_takeD)
  then show ?thesis using assms(3) sim_paging(1) [OF assms(1,2)] by (simp add: tables_ok_def)
qed

text \<open>C36:
  After unmapping a page no address of it translates, and when the page had an entry its
  translation was flushed last.
\<close>

theorem unmap_then_translate:
  assumes "paging_ok s" "root_ok pml4" "tables_ok s (va_path s pml4 page)"
    "distinct (va_path s pml4 page)" "get_temp_entry s \<notin> set (va_path s pml4 page)"
    "length (va_path s pml4 page) = 4 \<longrightarrow> va_path s pml4 page ! 3 \<notin> set (tmp_path s)"
    "page_base va = page_base page"
  shows "fst (to_usr_phys pml4 va (unmap pml4 page s)) = 0 \<and>
    (length (va_path s pml4 page) = 4 \<longrightarrow> hd (flushed (unmap pml4 page s)) = page)"
proof -
  obtain p s1 where l: "lookup_entry pml4 page s = (p, s1)" by (meson surj_pair)
  note w = lookup_walk [OF assms(1,2,3) l]
  have sm: "sim s s1" using w by blast
  note sp = sim_paging [OF assms(1) sm] and sf = sim_fields [OF sm]
  define path where "path = va_path s pml4 page"
  have pv: "va_path s1 pml4 page = path" using va_path_sim [OF sm assms(5)] by (simp add: path_def)
  have tv: "tables_ok s1 path" using tables_ok_sim [OF assms(1) sm assms(3,5)] by (simp add: path_def)
  have nT: "get_temp_entry s1 \<notin> set path" using assms(5) sp by (simp add: path_def)
  show ?thesis
  proof (cases "length path = 4")
    case False
    then have "unmap pml4 page s = s1" using w by (simp add: unmap_def l path_def)
    moreover have "va_path s1 pml4 va = path" using va_path_page [OF assms(7)] pv by simp
    ultimately show ?thesis
      using translate_walk(1) [OF sp(3) assms(2), of va] tv nT False by (simp add: Let_def path_def)
  next
    case True
    define e where "e = path ! 3"
    define s2 where "s2 = unmap pml4 page s"
    have "path \<noteq> []" using True by auto
    then have pe: "path = butlast path @ [e]"
      using append_butlast_last_id [of path] last_conv_nth [of path] True by (simp add: e_def)
    have s2: "s2 = s1\<lparr>entries := (entries s1)(e := 0), flushed := page # flushed s1\<rparr>"
      using w True by (simp add: s2_def unmap_def l path_def e_def flush_TLB_def vwrite_def)
    have eT: "e \<notin> set (tmp_path s1)" using assms(6) True sp by (simp add: e_def path_def)
    have p2: "paging_ok s2" "get_temp_entry s2 = get_temp_entry s1"
      by (rule paging_ok_write [OF sp(3)]; use eT sp(3) in \<open>auto simp: s2 paging_ok_def\<close>)+
    have en: "e \<notin> set (butlast path)" using assms(4) pe unfolding path_def [symmetric]
      by (metis distinct_append distinct.simps(2) disjoint_insert(1) list.simps(15))
    have "\<forall>d\<in>set (butlast path). table_at s1 d \<noteq> None \<longrightarrow> table_at s2 d = table_at s1 d"
      using en by (auto simp: s2 table_at_def)
    then have "va_path s2 pml4 page = path"
      using entry_path_cong [of s1 pml4 "indices page" "butlast path" e s2] pe pv True
      by (simp add: va_path_def indices_def)
    then have v2: "va_path s2 pml4 va = path" using va_path_page [OF assms(7)] by simp
    have "take 3 path = butlast path" using True by (simp add: butlast_conv_take)
    then have t2: "tables_ok s2 path" using tv en p2 by (auto simp: tables_ok_def s2)
    have z: "entries s2 e = 0" by (simp add: s2)
    have "fst (to_usr_phys pml4 va s2) = 0"
      using translate_walk(1) [OF p2(1) assms(2), of va] v2 t2 nT p2(2) True
      by (simp add: Let_def e_def [symmetric] z is_entry_present_def)
    then show ?thesis by (simp add: s2_def [symmetric]) (simp add: s2)
  qed
qed

theorem unmap_then_translate_witness:
  "fst (to_usr_phys 0x4000 0x201123 (unmap 0x4000 0x201000 sample)) = 0"
proof -
  have p: "va_path sample 0x4000 0x201000 = [0x4000, 0x5000, 0x6008, 0x7008]" by code_simp
  have r: "root_ok 0x4000" by (simp add: root_ok_def page_off_def)
  have t: "tables_ok sample (va_path sample 0x4000 0x201000)"
    unfolding p tables_ok_def sample_tmp by (simp add: sample_def phys_base_def)
  have "page_base 0x201123 = page_base 0x201000" by (simp add: page_base_def)
  then show ?thesis
    using unmap_then_translate [OF sample_ok(1) r t, of "0x201123"] unfolding p sample_tmp by simp
qed

section \<open>User address spaces\<close>

lemma s_pml4_alloc [simp]: "s_pml4_table (snd (pmm_alloc_unmapped c s)) = s_pml4_table s"
proof -
  have scan: "s_pml4_table (snd (alloc_scan c i k t)) = s_pml4_table t" for c i k t
    by (induction c i k t rule: alloc_scan.induct)
      (subst alloc_scan.simps, auto simp: Let_def split: sum.splits if_splits)
  have "s_pml4_table (snd (pmm_alloc_unmapped_once c t)) = s_pml4_table t" for t
    using scan by (simp add: pmm_alloc_unmapped_once_def)
  then show ?thesis
    by (simp add: pmm_alloc_unmapped_def split_def Let_def)
qed

lemma s_pml4_simps [simp]:
  "s_pml4_table (vwrite v x s) = s_pml4_table s"
  "s_pml4_table (flush_TLB v s) = s_pml4_table s"
  "s_pml4_table (snd (tmp_map p s)) = s_pml4_table s"
  "s_pml4_table (snd (valid_pointer p s)) = s_pml4_table s"
  "s_pml4_table (snd (create_table p f s)) = s_pml4_table s"
  by (simp_all add: vwrite_def flush_TLB_def tmp_map_def valid_pointer_def create_table_def split_def
      Let_def)

lemma s_pml4_get_table [simp]: "s_pml4_table (snd (get_table_from_entry p f s)) = s_pml4_table s"
  by (simp add: get_table_from_entry_def split_def Let_def)

lemma s_pml4_map_page [simp]: "s_pml4_table (map_page r v f g s) = s_pml4_table s"
proof -
  have "s_pml4_table (snd (get_entry r g v s)) = s_pml4_table s"
    by (simp add: get_entry_def get_entry_by_index_def split_def Let_def)
  then show ?thesis by (simp add: map_page_def split_def Let_def)
qed

lemma vwrite_entry:
  assumes "page_base n = n" "n \<noteq> TMP_ADDR" "unat i < 512"
  shows "vwrite (entry_addr n i) x s = s\<lparr>entries := (entries s)(entry_addr n i := x)\<rparr>"
    and "vread s (entry_addr n i) = entries s (entry_addr n i)"
proof -
  have "page_off n = 0" using assms(1) base_simps(3) [of n] by simp
  then have "page_base (entry_addr n i) = n" using assms(3) by (rule entry_addr_page)
  then show "vwrite (entry_addr n i) x s = s\<lparr>entries := (entries s)(entry_addr n i := x)\<rparr>"
    "vread s (entry_addr n i) = entries s (entry_addr n i)"
    using assms(2) by (simp_all add: vwrite_def vread_def resolve_def)
qed

lemma fold_vwrite:
  assumes "page_base n = n" "n \<noteq> TMP_ADDR" "k \<le> 512"
  shows "fold (\<lambda>i. vwrite (entry_addr n (of_nat i)) 0) [1..<k] s =
    s\<lparr>entries := (\<lambda>a. if \<exists>i. 0 < i \<and> i < k \<and> a = entry_addr n (of_nat i) then 0 else entries s a)\<rparr>"
  using assms(3)
proof (induction k)
  case 0
  then show ?case by simp
next
  case (Suc k)
  show ?case
  proof (cases "k = 0")
    case True
    then show ?thesis by (simp add: mm.surjective)
  next
    case False
    have "unat (of_nat k :: u16) < 512" using Suc.prems by (simp add: unat_of_nat)
    then have step: "vwrite (entry_addr n (of_nat k)) 0 t =
        t\<lparr>entries := (entries t)(entry_addr n (of_nat k) := 0)\<rparr>" for t
      by (rule vwrite_entry [OF assms(1,2)])
    have "(\<lambda>a. if \<exists>i. 0 < i \<and> i < k \<and> a = entry_addr n (of_nat i) then 0 else entries s a)
        (entry_addr n (of_nat k) := 0) =
      (\<lambda>a. if \<exists>i. 0 < i \<and> i < Suc k \<and> a = entry_addr n (of_nat i) then 0 else entries s a)"
    proof
      fix a
      have "(\<exists>i. 0 < i \<and> i < Suc k \<and> a = entry_addr n (of_nat i)) \<longleftrightarrow>
          a = entry_addr n (of_nat k) \<or> (\<exists>i. 0 < i \<and> i < k \<and> a = entry_addr n (of_nat i))"
        using False less_Suc_eq by auto
      then show "((\<lambda>a. if \<exists>i. 0 < i \<and> i < k \<and> a = entry_addr n (of_nat i) then 0 else entries s a)
          (entry_addr n (of_nat k) := 0)) a =
        (if \<exists>i. 0 < i \<and> i < Suc k \<and> a = entry_addr n (of_nat i) then 0 else entries s a)"
        by auto
    qed
    then show ?thesis using Suc False by (simp add: step)
  qed
qed

lemma sample_avail: "4 \<le> avail sample"
proof -
  have "\<not> frame_used sample n" if "528 \<le> n" "n < 560" for n
    using sample_free [of "of_nat (n * 4096)"] that
    by (simp add: pmm_is_free_frame unat_of_nat del: of_nat_mult)
  moreover have f: "pmm_frames sample = 560" by (simp add: pmm_frames_def sample_def)
  ultimately have "{528, 529, 530, 531} \<subseteq> {n. n < pmm_frames sample \<and> \<not> frame_used sample n}"
    by auto
  moreover have "finite {n. n < pmm_frames sample \<and> \<not> frame_used sample n}" by simp
  ultimately have "card {528 :: nat, 529, 530, 531} \<le> avail sample"
    unfolding avail_def by (rule card_mono [rotated])
  then show ?thesis by simp
qed

lemma sample_alloc_frame: "fst (pmm_alloc_unmapped 1 sample) = 0x210000"
  by code_simp

lemma sample_alloc_map_ok:
  assumes "va_path (snd (pmm_alloc_unmapped 1 sample)) 0x4000 va = p"
    "distinct p" "0x7000 \<notin> set p" "tables_ok sample p" "length p = 4 \<Longrightarrow> p ! 3 \<notin> {0x4000, 0x5000, 0x6008}"
  shows "map_ok (snd (pmm_alloc_unmapped 1 sample)) 0x4000 va"
proof -
  define s1 where "s1 = snd (pmm_alloc_unmapped 1 sample)"
  then have al: "pmm_alloc_unmapped 1 sample = (0x210000, s1)" using sample_alloc_frame by (metis prod.collapse)
  note one = pmm_alloc_one [OF sample_ok(2) al]
  have "0 < avail sample" using sample_avail by simp
  note fr = alloc_frame_free [OF sample_ok(2) al this]
  have mono: "\<forall>c. \<not> pmm_is_free c sample \<longrightarrow> \<not> pmm_is_free c s1" using fr(7) by blast
  have q: "paging_ok s1" "get_temp_entry s1 = get_temp_entry sample" "tmp_path s1 = tmp_path sample"
    by (rule paging_ok_write [OF sample_ok(1) _ _ mono]; use sample_ok(1) in \<open>auto simp: one(7,8) paging_ok_def\<close>)+
  have z: "free_zero s1"
    using sample_ok(3) fr(7) by (auto simp: free_zero_def one(8))
  have "root_ok 0x4000" "\<not> pmm_is_free 0x4000 sample" using sample_map_ok unfolding map_ok_def by simp_all
  moreover have "tables_ok s1 p" using assms(4) by (simp add: tables_ok_def q(2) one(8))
  ultimately show ?thesis
    unfolding s1_def [symmetric] map_ok_def assms(1) [folded s1_def] q(2,3) sample_tmp
    using q(1) one(1) z fr(5,7) sample_avail assms(2,3,5) by auto
qed

text \<open>What the kernel maps stays mapped when the contents of a frame that holds no table of the path are written.\<close>

lemma map_page_write_frame:
  assumes "map_ok s K m" "page_base flags = 0" "is_entry_present flags" "page_off m = 0" "\<not> pmm_is_free m s"
    "m \<notin> page_base ` set (va_path s K m)" "m \<notin> page_base ` set (tmp_path s)"
    "s' = map_page K m m flags s\<lparr>entries := E\<rparr>" "\<forall>a. page_base a \<noteq> m \<longrightarrow> E a = entries (map_page K m m flags s) a"
  shows "\<exists>e. va_path s' K m ! 3 = e \<and> entries s' e = m OR flags \<and>
    (\<forall>va. page_base va = m \<longrightarrow> fst (to_usr_phys K va s') = va)"
proof -
  define s2 where "s2 = map_page K m m flags s"
  have pf: "phys_base flags = 0" using base_simps(2) [of flags] assms(2) by (simp add: phys_base_def)
  obtain ds e s1 where w: "walked s s1 K (indices m) ds e []" "e \<notin> set (tmp_path s)"
    "s2 = s1\<lparr>entries := (entries s1)(e := m OR flags), flushed := m # flushed s1\<rparr>"
    using map_page_entry [OF assms(1) pf s2_def [symmetric]] by blast
  note p = mapped_path [OF w]
  have far: "page_base d \<noteq> m" if d: "d \<in> set (ds @ [e])" for d
  proof
    assume eq: "page_base d = m"
    have "from_path s K (indices m @ []) (ds @ [e])" using w(1) unfolding walked_def by blast
    then have "d \<in> set (va_path s K m) \<or> pmm_is_free d s"
      using d unfolding from_path_def va_path_def by (metis append_Nil2 in_set_conv_nth)
    moreover have "\<not> pmm_is_free d s" using assms(5) eq by (metis pmm_is_free_base)
    ultimately show False using assms(6) eq by blast
  qed
  have keep: "entries s' d = entries s2 d" if "page_base d \<noteq> m" for d
    using assms(8,9) that by (simp add: s2_def)
  have kt: "\<forall>c\<in>set (tmp_path s2). page_base (entries s' c) = page_base (entries s2 c) \<and> is_entry_present (entries s' c)"
  proof
    fix c
    assume c: "c \<in> set (tmp_path s2)"
    then have "page_base c \<noteq> m" using assms(7) p(7) by force
    then show "page_base (entries s' c) = page_base (entries s2 c) \<and> is_entry_present (entries s' c)"
      using keep [of c] c p(1) by (simp add: paging_ok_def)
  qed
  have fr: "\<forall>c. \<not> pmm_is_free c s2 \<longrightarrow> \<not> pmm_is_free c s'" by (simp add: assms(8) s2_def)
  have "s_pml4_table s' = s_pml4_table s2" by (simp add: assms(8) s2_def)
  note q = paging_ok_write [OF p(1) this kt fr]
  have "table_at s' d = table_at s2 d" if "d \<in> set ds" for d
    using keep far [of d] that by (simp add: table_at_def) (simp add: assms(8) s2_def)
  then have path: "va_path s' K m = ds @ [e]"
    using entry_path_cong [of s2 K "indices m" ds e s'] p(3,4) by (simp add: va_path_def indices_def)
  have e: "entries s' e = m OR flags" using keep far [of e] by (simp add: w(3))
  have e3: "(ds @ [e]) ! 3 = e" using p(4) by (simp add: nth_append)
  have "tables_ok s' (ds @ [e])" using p(4,6) far keep by (simp add: tables_ok_def q(2))
  have root: "root_ok K" using assms(1) by (simp add: map_ok_def)
  have "is_entry_present (m OR flags)" using assms(3) by (auto simp: is_entry_present_def bit.conj_disj_distrib2 or_eq_0_iff)
  moreover have "page_base (m OR flags) = m" using assms(2,4) page_base_id by (simp add: page_base_or)
  ultimately have "fst (to_usr_phys K va s') = va" if "page_base va = m" for va
    using translate_walk(1) [OF q(1) root, of va] \<open>tables_ok s' (ds @ [e])\<close> p(5) e e3 p(4) that
      va_path_page [of va m] path page_base_id [OF assms(4)] page_split [of va]
    by (simp add: q(2))
  then show ?thesis using e e3 path by simp
qed

text \<open>
  What the code writes to a new root table: only entries of its frame change, the first becomes the kernel's and the others
  become zero.
\<close>

lemma create_user_pml4_entries:
  assumes "pmm_alloc_unmapped 1 s = (m, s1)" "s_pml4_table s1 = K" "page_off m = 0" "m \<noteq> TMP_ADDR"
    "page_off K = 0" "K \<noteq> m" "K \<noteq> TMP_ADDR" "create_user_pml4 s = (n, s')"
  shows "n = m \<and> (\<exists>E. s' = map_page K m m (Present OR Writeable OR User) s1\<lparr>entries := E\<rparr> \<and>
    (\<forall>a. page_base a \<noteq> m \<longrightarrow> E a = entries (map_page K m m (Present OR Writeable OR User) s1) a) \<and>
    E (entry_addr m 0) = E (entry_addr K 0) \<and> (\<forall>i. unat i < 512 \<longrightarrow> i \<noteq> 0 \<longrightarrow> E (entry_addr m i) = 0))"
proof -
  let ?f = "Present OR Writeable OR User :: u64"
  have mb: "page_base m = m" and Kb: "page_base K = K" using assms(3,5) by (simp_all add: page_base_id)
  define s2 where "s2 = map_page K m m ?f s1"
  have k2: "s_pml4_table s2 = K" by (simp add: s2_def assms(2))
  define E where "E = (\<lambda>a. if \<exists>i. 0 < i \<and> i < 512 \<and> a = entry_addr m (of_nat i) then 0 else entries s2 a)"
  have fold: "fold (\<lambda>i. vwrite (entry_addr m (of_nat i)) 0) [1..<512] s2 = s2\<lparr>entries := E\<rparr>"
    unfolding E_def by (rule fold_vwrite [OF mb assms(4) order_refl])
  have z: "unat (0 :: u16) < 512" by simp
  have m2: "map_frame (to_page m) (to_frame m) ?f s1 = s2"
    by (simp add: map_frame_def to_page_def to_frame_def mb assms(2) s2_def)
  have ns: "n = m \<and> s' = s2\<lparr>entries := E(entry_addr m 0 := E (entry_addr K 0))\<rparr>"
    using assms(8) unfolding create_user_pml4_def assms(1) prod.case Let_def m2 fold
    by (auto simp: k2 vwrite_entry [OF mb assms(4) z] vwrite_entry(2) [OF Kb assms(7) z])
  have neq: "entry_addr K 0 \<noteq> entry_addr m 0"
    using entry_addr_inj [OF assms(5) z assms(3) z] assms(6) by simp
  have ei: "(E(entry_addr m 0 := E (entry_addr K 0))) (entry_addr m i) = 0" if "unat i < 512" "i \<noteq> 0" for i
  proof -
    have "entry_addr m i \<noteq> entry_addr m 0" using entry_addr_inj [OF assms(3) that(1) assms(3) z] that(2) by simp
    moreover have "\<exists>j. 0 < j \<and> j < 512 \<and> entry_addr m i = entry_addr m (of_nat j)"
      using that by (intro exI [of _ "unat i"]) (simp add: unat_gt_0)
    ultimately show ?thesis by (simp add: E_def)
  qed
  have in_m: "page_base (entry_addr m (of_nat i)) = m" if "i < 512" for i
    using entry_addr_page(1) [OF assms(3), of "of_nat i"] that by (simp add: unat_of_nat)
  have "\<forall>a. page_base a \<noteq> m \<longrightarrow> (E(entry_addr m 0 := E (entry_addr K 0))) a = entries s2 a"
    using in_m in_m [of 0] by (auto simp: E_def)
  then show ?thesis using ns neq ei unfolding s2_def by (intro conjI exI [of _ "E(entry_addr m 0 := E (entry_addr K 0))"]) auto
qed

text \<open>C37:
  A new address space for a task is a frame that was free, and the kernel can write to it: its page is mapped, to the frame
  itself and with the user bit, in the kernel's address space. Its first entry is the kernel's, so all addresses below
  512 GiB go through the kernel's tables, and its other entries are zero, so no address above is mapped.
\<close>

theorem create_user_pml4_shares_kernel:
  assumes "paging_ok s" "pmm_ok s" "0 < avail s" "pmm_alloc_unmapped 1 s = (m, s1)"
    "map_ok s1 (s_pml4_table s) m" "m \<notin> page_base ` set (va_path s1 (s_pml4_table s) m)"
    "create_user_pml4 s = (n, s')"
  shows "n = m \<and> n \<noteq> 0 \<and> pmm_is_free n s \<and> s_pml4_table s' = s_pml4_table s \<and>
    (page_base va = n \<longrightarrow> fst (to_phys va s') = va) \<and>
    entries s' (va_path s' (s_pml4_table s) n ! 3) = n OR (Present OR Writeable OR User) \<and>
    (get_lv4_index va = 0 \<longrightarrow> tl (va_path s' n va) = tl (va_path s' (s_pml4_table s) va)) \<and>
    (get_lv4_index va \<noteq> 0 \<longrightarrow> length (va_path s' n va) = 1)"
proof -
  let ?K = "s_pml4_table s" and ?f = "Present OR Writeable OR User :: u64"
  note fr = alloc_frame_free [OF assms(2,4,3)] and one = pmm_alloc_one [OF assms(2,4)]
  have k1: "s_pml4_table s1 = ?K" using s_pml4_alloc [of 1 s] by (simp add: assms(4))
  have nm: "m \<noteq> TMP_ADDR" using fr(3) assms(1) by (auto simp: paging_ok_def)
  have K: "page_off ?K = 0" "?K \<noteq> m" "?K \<noteq> TMP_ADDR"
    using assms(1,5) fr(3) by (auto simp: paging_ok_def map_ok_def root_ok_def)
  obtain E where E: "n = m" "s' = map_page ?K m m ?f s1\<lparr>entries := E\<rparr>"
    "\<forall>a. page_base a \<noteq> m \<longrightarrow> E a = entries (map_page ?K m m ?f s1) a"
    "E (entry_addr m 0) = E (entry_addr ?K 0)" "\<forall>i. unat i < 512 \<longrightarrow> i \<noteq> 0 \<longrightarrow> E (entry_addr m i) = 0"
    using create_user_pml4_entries [OF assms(4) k1 fr(2) nm K assms(7)] by blast
  have far: "m \<notin> page_base ` set (tmp_path s1)"
  proof
    assume "m \<in> page_base ` set (tmp_path s1)"
    then obtain d where "d \<in> set (tmp_path s)" "m = page_base d"
      using tmp_path_stable(1) [of s1 s] one(8) k1 by auto
    then show False using tmp_used(2) [OF assms(1), of d] fr(3) by simp
  qed
  have f: "page_base ?f = 0" "is_entry_present ?f" by (simp_all add: page_base_def is_entry_present_def)
  obtain e where e: "va_path s' ?K m ! 3 = e" "entries s' e = m OR ?f" "\<forall>va. page_base va = m \<longrightarrow> fst (to_usr_phys ?K va s') = va"
    using map_page_write_frame [OF assms(5) f fr(2,4) assms(6) far E(2,3)] by blast
  have k: "s_pml4_table s' = ?K" by (simp add: E(2) k1)
  have "fst (to_phys va s') = va" if "page_base va = n"
    using e(3) that unfolding E(1) to_phys_def to_usr_phys_def by (simp add: k)
  moreover have "tl (va_path s' n va) = tl (va_path s' ?K va)" if "get_lv4_index va = 0"
    using that E(4) unfolding E(1) by (simp add: va_path_def indices_def table_at_def E(2))
  moreover have "length (va_path s' n va) = 1" if "get_lv4_index va \<noteq> 0"
    using E(5) index_less(1) [of va] that unfolding E(1)
    by (simp add: va_path_def indices_def table_at_def page_base_def E(2))
  ultimately show ?thesis using fr(1,3) E(1) e(1,2) k by blast
qed

theorem create_user_pml4_shares_kernel_witness:
  "fst (create_user_pml4 sample) = 0x210000 \<and> fst (to_phys 0x210123 (snd (create_user_pml4 sample))) = 0x210123 \<and>
   length (va_path (snd (create_user_pml4 sample)) 0x210000 0x8000000000) = 1"
proof -
  let ?s1 = "snd (pmm_alloc_unmapped 1 sample)"
  have al: "pmm_alloc_unmapped 1 sample = (0x210000, ?s1)" using sample_alloc_frame by (metis prod.collapse)
  have path: "va_path ?s1 0x4000 0x210000 = [0x4000, 0x5000, 0x6008, 0x7080]" by code_simp
  have k: "s_pml4_table sample = 0x4000" by (simp add: sample_def)
  have t: "tables_ok sample [0x4000, 0x5000, 0x6008, 0x7080]"
    unfolding tables_ok_def sample_tmp by (simp add: sample_def phys_base_def)
  have m: "map_ok ?s1 (s_pml4_table sample) 0x210000"
    unfolding k by (rule sample_alloc_map_ok [OF path _ _ t]) simp_all
  have far: "0x210000 \<notin> page_base ` set (va_path ?s1 (s_pml4_table sample) 0x210000)"
    unfolding k path by (simp add: page_base_def)
  have av: "0 < avail sample" using sample_avail by simp
  note shares = create_user_pml4_shares_kernel [OF sample_ok(1,2) av al m far prod.collapse [symmetric]]
  have "get_lv4_index 0x8000000000 \<noteq> 0" by code_simp
  moreover have "page_base 0x210123 = 0x210000" by (simp add: page_base_def)
  ultimately show ?thesis using shares [of "0x210123"] shares [of "0x8000000000"] by metis
qed

end
