(* ===== verification/Memory.thy ===== *)
theory Memory
  imports Paging_Map
begin

text \<open>
  The rest of \<open>src/src/memory/phys.c\<close> (allocation with mapping, freeing, setting up the bitmap, the
  bitmap listing) and \<open>src/src/memory/memory.c\<close>. The lines the listings print are values: the format
  and the arguments of each \<open>kprintln\<close> call. Correctness of the set-up is stated in bytes of memory, for ranges that \<open>neat\<close>
  describes; \<open>marked\<close> says what the code does for any ranges.
\<close>

section \<open>The memory map\<close>

record memory_map_entry =
  base :: u64
  len :: u64
  mtype :: u32

abbreviation MEMORY_RANGE_USABLE :: u32 where "MEMORY_RANGE_USABLE \<equiv> 1"
abbreviation MEMORY_RANGE_RESERVED :: u32 where "MEMORY_RANGE_RESERVED \<equiv> 2"

text \<open>\<open>memory_map\<close> holds the \<open>count\<close> entries of the map.\<close>

record memory_info =
  memory_map :: "memory_map_entry list"
  mem_lower :: u32
  mem_upper :: u32
  kernel_addr :: u32
  kernel_size :: u32
  vbe_framebuffer :: u32
  vbe_framebuffer_size :: u32

record vbe_mode_info =
  framebuffer :: u32
  width :: u16
  height :: u16
  bpp :: u8

record boot_info =
  boot_memory_map :: "memory_map_entry list"
  lower_memory_KiB :: u16
  upper_memory_64KiB :: u16
  boot_kernel_addr :: u64
  boot_kernel_size :: u32
  vbe_mode :: vbe_mode_info

definition init_memory_map :: "boot_info \<Rightarrow> memory_info" where
  "init_memory_map boot_info =
     (let mode = vbe_mode boot_info
      in \<lparr>memory_map = boot_memory_map boot_info,
          mem_lower = ucast (lower_memory_KiB boot_info),
          mem_upper = ucast (upper_memory_64KiB boot_info) * 64,
          kernel_addr = ucast (boot_kernel_addr boot_info),
          kernel_size = boot_kernel_size boot_info,
          vbe_framebuffer = framebuffer mode,
          vbe_framebuffer_size = ucast (width mode) * ucast (height mode) * ucast (bpp mode)\<rparr>)"

text \<open>The listing of the memory map: the lines and the sum of the usable lengths.\<close>

definition print_memory_map :: "memory_info \<Rightarrow> (string \<times> u64 list) list" where
  "print_memory_map info =
     (let (lines, sz) = fold (\<lambda>e (lines, sz).
          let lines = lines @ [(''%x - %x'', [base e, base e + len e])]
          in if mtype e = MEMORY_RANGE_USABLE then (lines @ [('' (available)'', [])], sz + len e)
             else if mtype e = MEMORY_RANGE_RESERVED then (lines @ [('' (reserved)'', [])], sz)
             else (lines @ [('' (type %d)'', [ucast (mtype e)])], sz))
        (memory_map info) ([], 0)
      in lines @ [(''Memory size available: %x'', [sz])])"

section \<open>The bitmap\<close>

abbreviation BOOT_SECTION_SIZE :: u64 where "BOOT_SECTION_SIZE \<equiv> 8 * 1024 * 1024"
abbreviation TMP_BITMAP_BASE :: u64 where "TMP_BITMAP_BASE \<equiv> 0x3f0000"
abbreviation TMP_BITMAP_SIZE :: u64 where "TMP_BITMAP_SIZE \<equiv> TMP_BITMAP_BASE div 4096 div 8 - 1"
abbreviation TMP_BITMAP_FIRST_FRAME :: u64 where "TMP_BITMAP_FIRST_FRAME \<equiv> 0x201000"

definition create_tmp_bitmap :: "mm \<Rightarrow> mm" where
  "create_tmp_bitmap s =
     (let s = s\<lparr>bitmap := TMP_BITMAP_BASE, bitmap_size := TMP_BITMAP_SIZE\<rparr>;
          s = reserve_frames 0 TMP_BITMAP_FIRST_FRAME s
      in free_frames TMP_BITMAP_FIRST_FRAME (TMP_BITMAP_BASE - 1) s)"

text \<open>The loop counter is a \<open>uint32_t\<close>, so \<open>i*PAGE_SIZE\<close> is computed with 32 bits.\<close>

definition page_offset32 :: "nat \<Rightarrow> u64" where
  "page_offset32 i = ucast ((of_nat i :: u32) * 4096)"

definition map_bitmap :: "mm \<Rightarrow> mm" where
  "map_bitmap s =
     (let bm = bitmap s;
          sz = bitmap_size s;
          s = create_tmp_bitmap s;
          s = fold (\<lambda>i. map_frame (to_page (bm + page_offset32 i)) (to_frame (bm + page_offset32 i))
                (Present OR Writeable)) [0..<unat (sz div 4096 + 1)] s
      in s\<lparr>bitmap := bm, bitmap_size := sz\<rparr>)"

definition get_bitmap_size :: "memory_info \<Rightarrow> u64" where
  "get_bitmap_size info =
     (let last_usable_addr = fold (\<lambda>e last_usable_addr.
            if mtype e = MEMORY_RANGE_USABLE then base e + len e else last_usable_addr)
          (memory_map info) 0
      in last_usable_addr div 4096 div 8)"

definition init_bitmap :: "memory_info \<Rightarrow> mm \<Rightarrow> mm" where
  "init_bitmap info s =
     (let s = s\<lparr>bitmap_size := get_bitmap_size info,
                bitmap := ucast (kernel_addr info) +
                  ucast ((kernel_size info + (4096 - 1)) AND NOT (4096 - 1))\<rparr>;
          s = map_bitmap s
      in fold (\<lambda>i. wr_bm (of_nat i) 0xff) [0..<unat (bitmap_size s)] s)"

definition init_pmm :: "memory_info \<Rightarrow> mm \<Rightarrow> mm" where
  "init_pmm info s =
     (let s = init_bitmap info s;
          s = fold (\<lambda>e s. if mtype e = MEMORY_RANGE_USABLE then free_frames (base e) (len e) s else s)
                (memory_map info) s;
          s = reserve_frames 0 BOOT_SECTION_SIZE s;
          s = reserve_frames (ucast (kernel_addr info)) (ucast (kernel_size info)) s;
          s = reserve_frames (bitmap s) (bitmap_size s) s
      in reserve_frames (ucast (vbe_framebuffer info)) (ucast (vbe_framebuffer_size info)) s)"

definition init_memory :: "boot_info \<Rightarrow> u64 \<Rightarrow> mm \<Rightarrow> memory_info \<times> mm" where
  "init_memory boot_info cr3 s =
     (let info = init_memory_map boot_info
      in (info, init_pmm info (init_paging cr3 s)))"

section \<open>Allocation with mapping\<close>

definition pmm_alloc_custom :: "u64 \<Rightarrow> u64 \<Rightarrow> mm \<Rightarrow> u64 \<times> mm" where
  "pmm_alloc_custom count flags s =
     (let (addr, s) = pmm_alloc_unmapped count s
      in (addr, fold (\<lambda>i. map_frame (to_frame (addr + of_nat i * 4096)) (to_page (addr + of_nat i * 4096))
                   flags) [0..<unat count] s))"

definition pmm_alloc :: "u64 \<Rightarrow> mm \<Rightarrow> u64 \<times> mm" where
  "pmm_alloc count s = pmm_alloc_custom count (Present OR Writeable) s"

definition pmm_free :: "u64 \<Rightarrow> u64 \<Rightarrow> mm \<Rightarrow> mm" where
  "pmm_free first_page count s =
     (let (first_frame, s) = to_phys first_page s;
          s = free_frames first_frame (count * 4096) s
      in fold (\<lambda>i. unmap_page (first_page + of_nat i * 4096)) [0..<unat count] s)"

definition pmm_free_unmapped :: "u64 \<Rightarrow> u64 \<Rightarrow> mm \<Rightarrow> mm" where
  "pmm_free_unmapped first_page count s =
     (let (first_frame, s) = to_phys first_page s
      in free_frames first_frame (count * 4096) s)"

section \<open>The listing of the bitmap\<close>

text \<open>The variables \<open>last_val\<close>, \<open>size\<close>, \<open>base\<close> of the listing and the lines printed so far.\<close>

type_synonym listing = "u8 \<times> u64 \<times> u64 \<times> (string \<times> u64 list) list"

definition list_bit :: "u8 \<Rightarrow> nat \<Rightarrow> listing \<Rightarrow> listing" where
  "list_bit block i st =
     (let (last_val, sz, bs, lines) = st;
          b = drop_bit i block AND 1
      in if last_val AND 1 \<noteq> b then
           (NOT last_val, 4096, bs + sz,
            lines @ [(if b = 1 then ''free: %x %x'' else ''used: %x %x'', [bs, bs + sz - 1])])
         else (last_val, sz + 4096, bs, lines))"

definition print_bitmap_block :: "u8 \<Rightarrow> listing \<Rightarrow> listing" where
  "print_bitmap_block block st =
     (let (last_val, sz, bs, lines) = st
      in if block = 0xff then
           (NOT last_val, 8 * 4096, bs + sz, lines @ [(''free: %x %x'', [bs, bs + sz - 1])])
         else if block = 0 then
           (NOT last_val, 8 * 4096, bs + sz, lines @ [(''used: %x %x'', [bs, bs + sz - 1])])
         else fold (list_bit block) [7, 6, 5, 4, 3, 2, 1, 0] st)"

definition print_frame_map :: "mm \<Rightarrow> (string \<times> u64 list) list" where
  "print_frame_map s =
     (let (last_val, sz, bs, lines) = fold (\<lambda>i (last_val, sz, bs, lines).
          let block = rd_bm s (of_nat i)
          in if block \<noteq> last_val then print_bitmap_block block (last_val, sz, bs, lines)
             else (last_val, sz + 8 * 4096, bs, lines)) [0..<unat (bitmap_size s)] (0xff, 0, 0, [])
      in lines @ [(if last_val = 0 then ''free: %x %x'' else ''used: %x %x'', [bs, bs + sz + 4096 - 1])])"

section \<open>The bitmap after initialisation\<close>

lemma frame_used_fill:
  assumes "n div 8 < 2 ^ 64" "k < 2 ^ 64"
  shows "frame_used (fold (\<lambda>i. wr_bm (of_nat i) 0xff) [0..<k] s) n \<longleftrightarrow> n div 8 < k \<or> frame_used s n"
  using frame_used_fold_wr_bm [OF assms, of True 0 s] by simp

definition usable_frame :: "memory_info \<Rightarrow> nat \<Rightarrow> bool" where
  "usable_frame info n \<longleftrightarrow>
     (\<exists>e\<in>set (memory_map info). mtype e = MEMORY_RANGE_USABLE \<and> marked (base e) (len e) n)"

text \<open>The memory map describes less than 8 TiB.\<close>

definition map_small :: "memory_info \<Rightarrow> bool" where
  "map_small info \<longleftrightarrow> (\<forall>e\<in>set (memory_map info). unat (base e) + unat (len e) < 2 ^ 43)"

lemma free_usable:
  assumes "\<forall>e\<in>set es. unat (base e) + unat (len e) < 2 ^ 43" "n div 8 < 2 ^ 64"
  shows "frame_used (fold (\<lambda>e s. if mtype e = MEMORY_RANGE_USABLE
        then free_frames (base e) (len e) s else s) es s) n \<longleftrightarrow>
     frame_used s n \<and> \<not> (\<exists>e\<in>set es. mtype e = MEMORY_RANGE_USABLE \<and> marked (base e) (len e) n)"
  using assms(1)
proof (induction es arbitrary: s)
  case Nil
  then show ?case by simp
next
  case (Cons e es)
  then show ?case using frame_used_free [OF _ assms(2), of "base e" "len e" s] by auto
qed

lemma free_usable_fields [simp]:
  "bitmap (fold (\<lambda>e s. if mtype e = m then free_frames (base e) (len e) s else s) es s) = bitmap s"
  "bitmap_size (fold (\<lambda>e s. if mtype e = m then free_frames (base e) (len e) s else s) es s) = bitmap_size s"
  "last_idx (fold (\<lambda>e s. if mtype e = m then free_frames (base e) (len e) s else s) es s) = last_idx s"
  "last_idx_bit (fold (\<lambda>e s. if mtype e = m then free_frames (base e) (len e) s else s) es s) = last_idx_bit s"
  by (induction es arbitrary: s) auto

lemma get_bitmap_size_small:
  assumes "map_small info"
  shows "unat (get_bitmap_size info) < 2 ^ 28"
proof -
  define f where "f = (\<lambda>(e :: memory_map_entry) (last_usable_addr :: u64).
      if mtype e = MEMORY_RANGE_USABLE then base e + len e else last_usable_addr)"
  have "unat (fold f es a) < 2 ^ 43"
    if "\<forall>e\<in>set es. unat (base e) + unat (len e) < 2 ^ 43" "unat a < 2 ^ 43"
    for es :: "memory_map_entry list" and a
    using that
  proof (induction es arbitrary: a)
    case Nil
    then show ?case by simp
  next
    case (Cons e es)
    then have "unat (f e a) < 2 ^ 43" by (simp add: f_def unat_word_ariths)
    then show ?case using Cons by simp
  qed
  then have "unat (fold f (memory_map info) 0) < 2 ^ 43"
    using assms by (simp add: map_small_def)
  then show ?thesis by (simp add: get_bitmap_size_def f_def unat_div)
qed

text \<open>Where the bitmap lies: behind the kernel, at a page distance from its start.\<close>

definition bitmap_addr :: "memory_info \<Rightarrow> u64" where
  "bitmap_addr info = ucast (kernel_addr info) + ucast ((kernel_size info + (4096 - 1)) AND NOT (4096 - 1))"

lemma bitmap_addr_small: "unat (bitmap_addr info) < 2 ^ 33"
proof -
  have "unat (ucast (kernel_addr info) :: u64) < 2 ^ 32"
    using unat_lt2p [of "kernel_addr info"] by (simp add: unat_ucast_up)
  moreover have "unat (ucast ((kernel_size info + (4096 - 1)) AND NOT (4096 - 1)) :: u64) < 2 ^ 32"
    using unat_lt2p [of "(kernel_size info + (4096 - 1)) AND NOT (4096 - 1)"]
    by (simp add: unat_ucast_up)
  ultimately show ?thesis unfolding bitmap_addr_def
    by (simp add: unat_word_ariths)
qed

lemma init_bitmap_fields:
  "bitmap (init_bitmap info s) = bitmap_addr info"
  "bitmap_size (init_bitmap info s) = get_bitmap_size info"
  by (simp_all add: init_bitmap_def map_bitmap_def Let_def bitmap_addr_def)

lemma init_bitmap_full:
  assumes "n < 8 * unat (get_bitmap_size info)"
  shows "frame_used (init_bitmap info s) n"
proof -
  have k: "unat (get_bitmap_size info) < 2 ^ 64" using unat_lt2p [of "get_bitmap_size info"] by simp
  have "n div 8 < unat (get_bitmap_size info)" using assms by simp
  then show ?thesis
    using frame_used_fill [OF _ k] k by (simp add: init_bitmap_def map_bitmap_def Let_def)
qed

lemma init_pmm_free:
  assumes "map_small info" "n < pmm_frames (init_pmm info s)"
  shows "\<not> frame_used (init_pmm info s) n \<longleftrightarrow>
    usable_frame info n \<and> 2048 \<le> n \<and>
    \<not> marked (ucast (kernel_addr info)) (ucast (kernel_size info)) n \<and>
    \<not> marked (bitmap_addr info) (get_bitmap_size info) n \<and>
    \<not> marked (ucast (vbe_framebuffer info)) (ucast (vbe_framebuffer_size info)) n"
proof -
  have fields: "bitmap_size (init_pmm info s) = get_bitmap_size info"
    by (simp add: init_pmm_def Let_def init_bitmap_fields)
  then have n: "n < 8 * unat (get_bitmap_size info)" using assms(2) by (simp add: pmm_frames_def)
  have n8: "n div 8 < 2 ^ 64" using n get_bitmap_size_small [OF assms(1)] by simp
  have u32: "unat (ucast (w :: u32) :: u64) < 2 ^ 32" for w
    using unat_lt2p [of w] by (simp add: unat_ucast_up)
  have boot: "marked 0 BOOT_SECTION_SIZE n \<longleftrightarrow> n < 2048"
    by (simp add: marked_def range_pages_def)
  have lim: "unat (0 :: u64) + unat BOOT_SECTION_SIZE < 2 ^ 43"
    "unat (ucast (kernel_addr info) :: u64) + unat (ucast (kernel_size info) :: u64) < 2 ^ 43"
    "unat (ucast (vbe_framebuffer info) :: u64) + unat (ucast (vbe_framebuffer_size info) :: u64) < 2 ^ 43"
    "unat (bitmap_addr info) + unat (get_bitmap_size info) < 2 ^ 43"
    using u32 [of "kernel_addr info"] u32 [of "kernel_size info"] u32 [of "vbe_framebuffer info"]
      u32 [of "vbe_framebuffer_size info"] bitmap_addr_small [of info] get_bitmap_size_small [OF assms(1)]
    by simp_all
  have free: "\<forall>e\<in>set (memory_map info). unat (base e) + unat (len e) < 2 ^ 43"
    using assms(1) by (simp add: map_small_def)
  show ?thesis
    unfolding init_pmm_def Let_def
    by (simp only: frame_used_reserve [OF _ n8] lim frame_fields free_usable_fields init_bitmap_fields
        free_usable [OF free n8] init_bitmap_full [OF n] boot if_True usable_frame_def if_split_eq1) auto
qed

text \<open>The bytes of a frame and of a range of addresses.\<close>

definition frame_bytes :: "nat \<Rightarrow> nat set" where
  "frame_bytes n = {4096 * n ..< 4096 * n + 4096}"

definition range_bytes :: "u64 \<Rightarrow> u64 \<Rightarrow> nat set" where
  "range_bytes a sz = {unat a ..< unat a + unat sz}"

text \<open>
  A range that starts at a page boundary and is not one of eight to fifteen pages from inside a byte of the bitmap, which
  \<open>reserve_frames\<close> and \<open>free_frames\<close> do not mark as a whole.
\<close>

definition neat :: "u64 \<Rightarrow> u64 \<Rightarrow> bool" where
  "neat a sz \<longleftrightarrow> unat a mod 4096 = 0 \<and> (((unat sz + 4095) div 4096) div 8 = 1 \<longrightarrow> unat a div 4096 mod 8 = 0)"

text \<open>The usable entries behind the boot section are neat and consist of whole pages.\<close>

definition neat_map :: "memory_info \<Rightarrow> bool" where
  "neat_map info \<longleftrightarrow> (\<forall>e\<in>set (memory_map info). mtype e = MEMORY_RANGE_USABLE \<longrightarrow>
     unat (base e) + unat (len e) \<le> 8 * 1024 * 1024 \<or> neat (base e) (len e) \<and> unat (len e) mod 4096 = 0)"

lemma frame_meets:
  assumes "unat a = 4096 * f"
  shows "frame_bytes n \<inter> range_bytes a sz \<noteq> {} \<longleftrightarrow> f \<le> n \<and> 4096 * n < 4096 * f + unat sz"
proof
  assume "f \<le> n \<and> 4096 * n < 4096 * f + unat sz"
  then have "4096 * n \<in> frame_bytes n \<inter> range_bytes a sz" by (simp add: frame_bytes_def range_bytes_def assms)
  then show "frame_bytes n \<inter> range_bytes a sz \<noteq> {}" by blast
next
  assume "frame_bytes n \<inter> range_bytes a sz \<noteq> {}"
  then have "4096 * f < 4096 * Suc n" "4096 * n < 4096 * f + unat sz"
    by (auto simp: frame_bytes_def range_bytes_def assms)
  then show "f \<le> n \<and> 4096 * n < 4096 * f + unat sz" by simp
qed

lemma marked_neat:
  assumes "neat a sz"
  shows "marked a sz n \<longleftrightarrow> frame_bytes n \<inter> range_bytes a sz \<noteq> {}"
proof -
  define f where "f = unat a div 4096"
  have a: "unat a = 4096 * f" using assms by (auto simp: neat_def f_def)
  have "marked a sz n \<longleftrightarrow> f \<le> n \<and> n < f + (unat sz + 4095) div 4096"
    unfolding marked_hit f_def [symmetric] using assms by (auto simp: neat_def f_def [symmetric])
  also have "\<dots> \<longleftrightarrow> f \<le> n \<and> 4096 * n < 4096 * f + unat sz"
  proof (cases "f \<le> n")
    case True
    then obtain m where m: "n = f + m" using le_Suc_ex by blast
    have "m < (unat sz + 4095) div 4096 \<longleftrightarrow> Suc m * 4096 \<le> unat sz + 4095"
      by (simp only: Suc_le_eq [symmetric] less_eq_div_iff_mult_less_eq zero_less_numeral)
    then show ?thesis using m by auto
  qed simp
  finally show ?thesis by (simp only: frame_meets [OF a])
qed

lemma marked_whole:
  assumes "neat a sz" "unat sz mod 4096 = 0"
  shows "marked a sz n \<longleftrightarrow> frame_bytes n \<subseteq> range_bytes a sz"
proof -
  have "4096 dvd unat a" "4096 dvd unat sz" using assms by (simp_all add: neat_def mod_eq_0_iff_dvd)
  then obtain f k where a: "unat a = 4096 * f" "unat sz = 4096 * k" by (metis dvdE)
  have "frame_bytes n \<subseteq> range_bytes a sz \<longleftrightarrow> f \<le> n \<and> n < f + k"
  proof
    assume "frame_bytes n \<subseteq> range_bytes a sz"
    moreover have "4096 * n \<in> frame_bytes n" by (simp add: frame_bytes_def)
    ultimately show "f \<le> n \<and> n < f + k" by (auto simp: range_bytes_def a)
  next
    assume "f \<le> n \<and> n < f + k"
    then have "4096 * f \<le> 4096 * n" "4096 * Suc n \<le> 4096 * (f + k)" by (simp, intro mult_le_mono2, simp)
    then show "frame_bytes n \<subseteq> range_bytes a sz" by (auto simp: frame_bytes_def range_bytes_def a)
  qed
  then show ?thesis unfolding marked_neat [OF assms(1)] frame_meets [OF a(1)] by (auto simp: a(2))
qed

lemma marked_boot:
  assumes "unat a + unat sz \<le> 8 * 1024 * 1024" "marked a sz n"
  shows "n < 2048"
proof -
  have "n < unat a div 4096 + (unat sz + 4095) div 4096" using assms(2) by (simp add: marked_hit)
  then show ?thesis using assms(1) by linarith
qed

lemma usable_neat:
  assumes "neat_map info" "2048 \<le> n"
  shows "usable_frame info n \<longleftrightarrow>
    (\<exists>e\<in>set (memory_map info). mtype e = MEMORY_RANGE_USABLE \<and> frame_bytes n \<subseteq> range_bytes (base e) (len e))"
proof -
  have "marked (base e) (len e) n \<longleftrightarrow> frame_bytes n \<subseteq> range_bytes (base e) (len e)"
    if "e \<in> set (memory_map info)" "mtype e = MEMORY_RANGE_USABLE" for e
  proof (cases "unat (base e) + unat (len e) \<le> 8 * 1024 * 1024")
    case True
    have "4096 * n \<in> frame_bytes n" "4096 * n \<notin> range_bytes (base e) (len e)"
      using True assms(2) by (simp_all add: frame_bytes_def range_bytes_def)
    then have "\<not> frame_bytes n \<subseteq> range_bytes (base e) (len e)" by blast
    then show ?thesis using marked_boot [OF True, of n] assms(2) by auto
  next
    case False
    then show ?thesis using assms(1) that by (intro marked_whole) (auto simp: neat_map_def)
  qed
  then show ?thesis by (auto simp: usable_frame_def)
qed

text \<open>C5:
  After initialisation a frame is free exactly when all its bytes lie in a usable range of the memory map and none in the
  boot section (the first 8 MiB), the kernel image, the bitmap itself or the frame buffer. This is so where these ranges
  are neat: they start at page boundaries, and none has eight to fifteen pages and starts inside a byte of the bitmap
  (such ranges are marked with a gap, which \<open>frame_ranges_exact\<close> is about); usable ranges are whole pages. Ranges below
  8 MiB may be of any kind.
\<close>

theorem init_pmm_frames:
  assumes "map_small info" "n < pmm_frames (init_pmm info s)" "neat_map info"
    "neat (ucast (kernel_addr info)) (ucast (kernel_size info))" "neat (bitmap_addr info) (get_bitmap_size info)"
    "neat (ucast (vbe_framebuffer info)) (ucast (vbe_framebuffer_size info))"
  shows "\<not> frame_used (init_pmm info s) n \<longleftrightarrow>
    (\<exists>e\<in>set (memory_map info). mtype e = MEMORY_RANGE_USABLE \<and> frame_bytes n \<subseteq> range_bytes (base e) (len e)) \<and>
    frame_bytes n \<inter> ({0 ..< 8 * 1024 * 1024} \<union> range_bytes (ucast (kernel_addr info)) (ucast (kernel_size info)) \<union>
      range_bytes (bitmap_addr info) (get_bitmap_size info) \<union>
      range_bytes (ucast (vbe_framebuffer info)) (ucast (vbe_framebuffer_size info))) = {}"
proof -
  have b: "2048 \<le> n \<longleftrightarrow> frame_bytes n \<inter> {0 ..< 8 * 1024 * 1024} = {}"
  proof
    assume "frame_bytes n \<inter> {0 ..< 8 * 1024 * 1024} = {}"
    moreover have "4096 * n \<in> frame_bytes n" by (simp add: frame_bytes_def)
    ultimately have "4096 * n \<notin> {0 ..< 8 * 1024 * 1024}" by blast
    then show "2048 \<le> n" by simp
  qed (auto simp: frame_bytes_def)
  show ?thesis
    unfolding init_pmm_free [OF assms(1,2)] marked_neat [OF assms(4)] marked_neat [OF assms(5)] marked_neat [OF assms(6)]
      Int_Un_distrib Un_empty b [symmetric]
    using usable_neat [OF assms(3), of n] by auto
qed

section \<open>The allocator's invariant\<close>

lemma pmm_ok_alloc: "pmm_ok s \<Longrightarrow> pmm_ok (snd (pmm_alloc_unmapped 1 s))"
  by (metis pmm_alloc_one(1) prod.collapse)

lemma pmm_ok_simps [simp]:
  "pmm_ok (vwrite v x s) = pmm_ok s" "pmm_ok (flush_TLB v s) = pmm_ok s"
  "pmm_ok (snd (tmp_map p s)) = pmm_ok s" "pmm_ok (snd (valid_pointer p s)) = pmm_ok s"
  by (simp_all add: pmm_ok_def vwrite_def flush_TLB_def tmp_map_def valid_pointer_def Let_def)

lemma pmm_ok_get_table: "pmm_ok s \<Longrightarrow> pmm_ok (snd (get_table_from_entry p f s))"
  by (simp add: get_table_from_entry_def create_table_def split_def Let_def pmm_ok_alloc)

lemma pmm_ok_get_entry: "pmm_ok s \<Longrightarrow> pmm_ok (snd (get_entry r f v s))"
  by (simp add: get_entry_def get_entry_by_index_def split_def Let_def pmm_ok_get_table)

lemma pmm_ok_map_page: "pmm_ok s \<Longrightarrow> pmm_ok (map_page r v f g s)"
  using pmm_ok_get_entry [of s r g v] by (simp add: map_page_def split_def Let_def)

lemma pmm_ok_map_frames: "pmm_ok s \<Longrightarrow> pmm_ok (fold (\<lambda>i. map_frame (p i) (f i) g) is s)"
  by (induction "is" arbitrary: s) (simp_all add: map_frame_def pmm_ok_map_page)

text \<open>The parts of the invariant a change of the bitmap's contents keeps.\<close>

definition hint_ok :: "u64 \<Rightarrow> mm \<Rightarrow> bool" where
  "hint_ok sz s \<longleftrightarrow> unat (last_idx_bit s) \<le> 7 \<and> (last_idx s < sz \<or> last_idx_bit s = 7)"

lemma pmm_ok_hint:
  "pmm_ok s \<longleftrightarrow> unat (bitmap_size s) < 2 ^ 28 \<and> hint_ok (bitmap_size s) s \<and> frame_used s 0"
  by (auto simp: pmm_ok_def hint_ok_def)

lemma bitmap_size_alloc [simp]: "bitmap_size (snd (pmm_alloc_unmapped c s)) = bitmap_size s"
proof -
  have "bitmap_size (snd (alloc_scan c i k t)) = bitmap_size t" for c i k t
    by (induction c i k t rule: alloc_scan.induct)
      (subst alloc_scan.simps, auto simp: Let_def split: sum.splits if_splits)
  then have "bitmap_size (snd (pmm_alloc_unmapped_once c t)) = bitmap_size t" for t
    by (simp add: pmm_alloc_unmapped_once_def)
  then show ?thesis by (simp add: pmm_alloc_unmapped_def split_def Let_def)
qed

lemma bitmap_size_simps [simp]:
  "bitmap_size (vwrite v x s) = bitmap_size s" "bitmap_size (flush_TLB v s) = bitmap_size s"
  "bitmap_size (snd (tmp_map p s)) = bitmap_size s"
  "bitmap_size (snd (valid_pointer p s)) = bitmap_size s"
  "bitmap_size (snd (create_table p f s)) = bitmap_size s"
  by (simp_all add: vwrite_def flush_TLB_def tmp_map_def valid_pointer_def create_table_def split_def
      Let_def)

lemma bitmap_size_get_table [simp]: "bitmap_size (snd (get_table_from_entry p f s)) = bitmap_size s"
  by (simp add: get_table_from_entry_def split_def Let_def)

lemma bitmap_size_map_page [simp]: "bitmap_size (map_page r v f g s) = bitmap_size s"
proof -
  have "bitmap_size (snd (get_entry r g v s)) = bitmap_size s"
    by (simp add: get_entry_def get_entry_by_index_def split_def Let_def)
  then show ?thesis by (simp add: map_page_def split_def Let_def)
qed

lemma bitmap_fields_map_frames:
  "bitmap_size (fold (\<lambda>i. map_frame (p i) (f i) g) is s) = bitmap_size s"
  by (induction "is" arbitrary: s) (simp_all add: map_frame_def)

lemma create_tmp_bitmap_ok:
  assumes "last_idx s = 0" "last_idx_bit s = 7"
  shows "pmm_ok (create_tmp_bitmap s)" "bitmap_size (create_tmp_bitmap s) = 125"
proof -
  have "frame_used (create_tmp_bitmap s) 0"
    by (simp add: create_tmp_bitmap_def Let_def frame_used_free frame_used_reserve)
      (simp add: marked_def range_pages_def)
  then show "pmm_ok (create_tmp_bitmap s)" "bitmap_size (create_tmp_bitmap s) = 125"
    using assms by (simp_all add: pmm_ok_def create_tmp_bitmap_def Let_def)
qed

lemma init_pmm_invariant:
  assumes "map_small info" "last_idx s = 0" "last_idx_bit s = 7" "125 \<le> get_bitmap_size info"
  shows "pmm_ok (init_pmm info s)"
proof -
  define t where "t = s\<lparr>bitmap_size := get_bitmap_size info, bitmap := bitmap_addr info\<rparr>"
  define m where "m = map_bitmap t"
  have "pmm_ok (create_tmp_bitmap t)" "bitmap_size (create_tmp_bitmap t) = 125"
    using create_tmp_bitmap_ok [of t] assms(2,3) by (simp_all add: t_def)
  then have "hint_ok 125 (fold (\<lambda>i. map_frame (p i) (f i) g) is (create_tmp_bitmap t))" for p f g "is"
    using pmm_ok_map_frames [of "create_tmp_bitmap t" p f g "is"]
    unfolding pmm_ok_hint bitmap_fields_map_frames by simp
  then have "hint_ok 125 m" by (simp add: m_def map_bitmap_def Let_def hint_ok_def)
  moreover have "init_bitmap info s = fold (\<lambda>i. wr_bm (of_nat i) 0xff) [0..<unat (bitmap_size m)] m"
    by (simp add: init_bitmap_def m_def t_def bitmap_addr_def Let_def)
  ultimately have h: "hint_ok 125 (init_bitmap info s)" by (simp add: hint_ok_def)
  then have "hint_ok 125 (init_pmm info s)" by (simp add: init_pmm_def Let_def hint_ok_def)
  then have "hint_ok (get_bitmap_size info) (init_pmm info s)"
    using assms(4) by (auto simp: hint_ok_def)
  moreover have bs: "bitmap_size (init_pmm info s) = get_bitmap_size info"
    by (simp add: init_pmm_def Let_def init_bitmap_fields)
  moreover have "0 < unat (get_bitmap_size info)" using assms(4) by (simp add: word_le_nat_alt)
  then have "frame_used (init_pmm info s) 0"
    using init_pmm_free [OF assms(1), of 0 s] bs by (auto simp: pmm_frames_def)
  ultimately show ?thesis
    using get_bitmap_size_small [OF assms(1)] by (simp add: pmm_ok_hint)
qed

text \<open>C34:
  Initialisation establishes the allocator's invariant: on machines with at least 125 bitmap
  bytes (4 MiB of memory) the search hint left over from the temporary bitmap is a position of the
  new bitmap, and frame 0 is used.
\<close>

theorem init_pmm_ok:
  assumes "map_small info" "last_idx s = 0" "last_idx_bit s = 7" "125 \<le> get_bitmap_size info"
  shows "pmm_ok (init_pmm info s)"
  by (rule init_pmm_invariant [OF assms])

text \<open>
  The temporary bitmap covers 1000 frames and makes frame 513 onwards free, but its free range
  is taken with the bitmap's address as its length: 1008 frames are freed, up to frame 1520, whose
  bits lie behind the 125 bytes of the bitmap.
\<close>

theorem tmp_bitmap_overrun:
  assumes "n < 2 ^ 67"
  shows "pmm_frames (create_tmp_bitmap s) = 1000 \<and>
    (frame_used (create_tmp_bitmap s) n \<longleftrightarrow>
       n < 513 \<or> 1521 \<le> n \<and> frame_used (s\<lparr>bitmap := TMP_BITMAP_BASE\<rparr>) n)"
proof -
  have n8: "n div 8 < 2 ^ 64" using assms by simp
  have u: "frame_used (t\<lparr>bitmap_size := k\<rparr>) n = frame_used t n" for t k
    by (simp add: frame_used_def rd_bm_def)
  have m: "marked 0 TMP_BITMAP_FIRST_FRAME n \<longleftrightarrow> n < 513"
    "marked TMP_BITMAP_FIRST_FRAME (TMP_BITMAP_BASE - 1) n \<longleftrightarrow> 513 \<le> n \<and> n < 1521"
    by (auto simp: marked_def range_pages_def)
  have "pmm_frames (create_tmp_bitmap s) = 1000"
    by (simp add: create_tmp_bitmap_def Let_def pmm_frames_def)
  moreover have "frame_used (create_tmp_bitmap s) n \<longleftrightarrow>
      n < 513 \<or> 1521 \<le> n \<and> frame_used (s\<lparr>bitmap := TMP_BITMAP_BASE\<rparr>) n"
    unfolding create_tmp_bitmap_def Let_def
    by (subst frame_used_free [OF _ n8]; simp add: m [simplified])
      (subst frame_used_reserve [OF _ n8]; use m u in auto)
  ultimately show ?thesis by blast
qed

theorem tmp_bitmap_overrun_witness: "\<not> frame_used (create_tmp_bitmap sample) 1520"
  using tmp_bitmap_overrun [of 1520 sample] by simp

text \<open>A machine with 256 MiB of memory, its kernel at 1 MiB and no frame buffer.\<close>

definition sample_info :: memory_info where
  "sample_info = \<lparr>memory_map = [\<lparr>base = 0, len = 0x9f000, mtype = 1\<rparr>,
       \<lparr>base = 0xf0000, len = 0x10000, mtype = 2\<rparr>, \<lparr>base = 0x100000, len = 0xff00000, mtype = 1\<rparr>],
     mem_lower = 639, mem_upper = 0, kernel_addr = 0x100000, kernel_size = 0x20000,
     vbe_framebuffer = 0, vbe_framebuffer_size = 0\<rparr>"

lemma sample_info_facts:
  "map_small sample_info" "get_bitmap_size sample_info = 8192" "bitmap_addr sample_info = 0x120000"
  by (simp_all add: map_small_def sample_info_def get_bitmap_size_def bitmap_addr_def)

theorem init_pmm_frames_witness: "\<not> frame_used (init_pmm sample_info sample) 3000"
proof -
  have "bitmap_size (init_pmm sample_info sample) = 8192"
    by (simp add: init_pmm_def Let_def init_bitmap_fields sample_info_facts)
  then have "3000 < pmm_frames (init_pmm sample_info sample)" by (simp add: pmm_frames_def)
  moreover have "neat_map sample_info" "neat (ucast (kernel_addr sample_info)) (ucast (kernel_size sample_info))"
    "neat (bitmap_addr sample_info) (get_bitmap_size sample_info)"
    "neat (ucast (vbe_framebuffer sample_info)) (ucast (vbe_framebuffer_size sample_info))"
    unfolding sample_info_facts by (simp_all add: neat_map_def neat_def sample_info_def)
  ultimately show ?thesis
    by (subst init_pmm_frames [OF sample_info_facts(1)])
      (simp_all add: sample_info_facts, auto simp: sample_info_def frame_bytes_def range_bytes_def)
qed

theorem init_pmm_ok_witness: "pmm_ok (init_pmm sample_info sample)"
  by (rule init_pmm_ok [OF sample_info_facts(1)])
    (simp_all add: sample_info_facts(2), simp_all add: sample_def)

text \<open>
  The listing of the bitmap ends its last line one page too far: for a bitmap of used frames
  it prints one line, from 0 to 4095 past the last byte of the last frame.
\<close>

theorem frame_map_last_line:
  assumes "\<forall>i < unat (bitmap_size s). rd_bm s (of_nat i) = 0xff"
  shows "print_frame_map s = [(''used: %x %x'', [0, bitmap_size s * 32768 + 4095])]"
proof -
  define f where "f = (\<lambda>i (last_val, sz, bs, lines).
      let block = rd_bm s (of_nat i)
      in if block \<noteq> last_val then print_bitmap_block block (last_val, sz, bs, lines)
         else (last_val, sz + 8 * 4096, bs, lines))"
  have "fold f [0..<k] (0xff, 0, 0, []) = (0xff, of_nat k * 32768, 0, [])"
    if "k \<le> unat (bitmap_size s)" for k
    using that
  proof (induction k)
    case 0
    then show ?case by simp
  next
    case (Suc k)
    then have "rd_bm s (of_nat k) = 0xff" using assms by simp
    then show ?case using Suc by (simp add: f_def algebra_simps)
  qed
  from this [of "unat (bitmap_size s)"] show ?thesis
    unfolding print_frame_map_def f_def [symmetric] by simp
qed

theorem frame_map_last_line_witness:
  "print_frame_map (sample\<lparr>bitmap_size := 66\<rparr>) = [(''used: %x %x'', [0, 2166783])]"
proof -
  have "rd_bm (sample\<lparr>bitmap_size := 66\<rparr>) (of_nat i) = 0xff" if "i < 66" for i
  proof -
    have "unat (0x1000 + of_nat i :: u64) = 0x1000 + i" using that by (simp add: unat_word_ariths unat_of_nat)
    then show ?thesis using that by (simp add: rd_bm_def sample_def word_less_nat_alt)
  qed
  then show ?thesis by (subst frame_map_last_line) simp_all
qed

section \<open>Freeing pages\<close>

lemma frame_used_lookup [simp]:
  "frame_used (vwrite v x s) = frame_used s" "frame_used (flush_TLB v s) = frame_used s"
  "frame_used (snd (tmp_map p s)) = frame_used s" "frame_used (snd (valid_pointer p s)) = frame_used s"
  by (simp_all add: vwrite_def flush_TLB_def tmp_map_def valid_pointer_def Let_def)

lemma frame_used_get_table [simp]:
  "frame_used (snd (get_table_from_entry p no_create s)) = frame_used s"
  by (simp add: get_table_from_entry_def split_def Let_def)

lemma frame_used_unmap [simp]: "frame_used (unmap r v s) = frame_used s"
proof -
  have "frame_used (snd (lookup_entry r v s)) = frame_used s"
    by (simp add: lookup_entry_def get_entry_def get_entry_by_index_def split_def Let_def)
  then show ?thesis by (simp add: unmap_def split_def Let_def)
qed

lemma frame_used_unmap_pages: "frame_used (fold (\<lambda>i. unmap_page (p i)) is s) = frame_used s"
  by (induction "is" arbitrary: s) (simp_all add: unmap_page_def)

lemma to_phys_usr: "to_phys va s = to_usr_phys (s_pml4_table s) va s"
  by (simp add: to_phys_def to_usr_phys_def)

text \<open>Which frames \<open>pmm_free\<close> frees: the range at the translation of its first page.\<close>

lemma pmm_free_frames:
  assumes "fst (to_phys p s) = a" "frame_used (snd (to_phys p s)) = frame_used s"
    "unat a + unat (count * 4096) < 2 ^ 43" "n div 8 < 2 ^ 64"
  shows "frame_used (pmm_free p count s) n \<longleftrightarrow> \<not> marked a (count * 4096) n \<and> frame_used s n"
  using assms(1,2) frame_used_free [OF assms(3,4)]
  by (simp add: pmm_free_def split_def Let_def frame_used_unmap_pages)

text \<open>
  Freeing pages whose first page is mapped frees exactly the frames behind the first page's
  frame; when the first page is not mapped, the translation is 0 and the frames from 0 on -- the boot
  section, with the page tables -- become free instead.
\<close>

theorem pmm_free_takes_translation:
  assumes "paging_ok s" "root_ok (s_pml4_table s)"
    "tables_ok s (va_path s (s_pml4_table s) p)" "get_temp_entry s \<notin> set (va_path s (s_pml4_table s) p)"
    "page_off p = 0" "n < 2 ^ 67"
    "unat (fst (to_phys p s)) + unat (count * 4096) < 2 ^ 43"
  shows "frame_used (pmm_free p count s) n \<longleftrightarrow> frame_used s n \<and>
    \<not> marked (let path = va_path s (s_pml4_table s) p
             in if length path = 4 \<and> is_entry_present (entries s (path ! 3))
                then page_base (entries s (path ! 3)) else 0) (count * 4096) n"
proof -
  note w = translate_walk [OF assms(1-4), folded to_phys_usr]
  have "frame_used (snd (to_phys p s)) = frame_used s"
    using w(2) sim_fields(3) by blast
  moreover have "n div 8 < 2 ^ 64" using assms(6) by simp
  ultimately have "frame_used (pmm_free p count s) n \<longleftrightarrow>
      \<not> marked (fst (to_phys p s)) (count * 4096) n \<and> frame_used s n"
    using pmm_free_frames [OF refl _ assms(7)] by simp
  then show ?thesis using w(1) assms(5) by (auto simp: Let_def)
qed

theorem pmm_free_takes_translation_witness: "\<not> frame_used (pmm_free 0x40000000 1 sample) 0"
proof -
  have k: "s_pml4_table sample = 0x4000" by (simp add: sample_def)
  have "paging_ok sample" "root_ok 0x4000" "tables_ok sample (va_path sample 0x4000 0x40000000)"
    "get_temp_entry sample \<notin> set (va_path sample 0x4000 0x40000000)"
    using sample_map_ok by (simp_all add: map_ok_def)
  note h = this [folded k]
  have p: "va_path sample (s_pml4_table sample) 0x40000000 = [0x4000, 0x5008]"
    unfolding k by (rule sample_path)
  have "fst (to_phys 0x40000000 sample) = 0"
    using translate_walk(1) [OF h] unfolding p to_phys_usr by simp
  then show ?thesis
    using pmm_free_takes_translation [OF h, of 0 1] unfolding p
    by (simp add: page_off_def marked_def range_pages_def)
qed

end
