(* ===== verification/Console.thy ===== *)
theory Console
  imports Prelude
begin

text \<open>
  The VGA text console of \<open>src/src/io/io.c\<close>. The console record holds the cursor, the colour
  attribute and the screen; the screen is the memory from 0xb8000 on, as 16 bit cells indexed in
  row-major order as the C type \<open>uint16_t buffer[25][80]\<close> lays them out, so that a column past the
  end of a row reaches the cells of the next rows as it does on the machine.
\<close>

section \<open>State\<close>

record console =
  con_x :: u8
  con_y :: u8
  con_color :: u8
  con_width :: u8
  con_height :: u8
  vga :: "nat \<Rightarrow> u16"

definition init_console :: "(nat \<Rightarrow> u16) \<Rightarrow> console" where
  "init_console screen =
     \<lparr>con_x = 0, con_y = 0, con_color = (push_bit 4 0) OR 15, con_width = 80, con_height = 25,
      vga = screen\<rparr>"

definition cell_index :: "u8 \<Rightarrow> u8 \<Rightarrow> nat" where
  "cell_index y x = unat y * 80 + unat x"

definition set_cell :: "u8 \<Rightarrow> u8 \<Rightarrow> u16 \<Rightarrow> console \<Rightarrow> console" where
  "set_cell y x v c = c\<lparr>vga := (vga c)(cell_index y x := v)\<rparr>"

definition is_blank :: "console \<Rightarrow> u8 \<Rightarrow> u8 \<Rightarrow> bool" where
  "is_blank c y x \<longleftrightarrow> vga c (cell_index y x) AND 0xff = 0"

definition attr :: "console \<Rightarrow> u16" where
  "attr c = push_bit 8 (ucast (con_color c))"

section \<open>printByte\<close>

text \<open>
  The loop that looks for the line break on a backspace at the start of a line. It yields whether
  \<open>printByte\<close> returns from inside the loop; \<open>None\<close> would be a loop that never ends.
\<close>

partial_function (option) line_break_scan :: "console \<Rightarrow> (bool \<times> console) option" where
  "line_break_scan c =
     (if is_blank c (con_y c) (con_x c) then
        (if con_x c \<ge> con_width c then
           (if is_blank c (con_y c) 0 then Some (True, c\<lparr>con_x := 0\<rparr>)
            else line_break_scan
                   (c\<lparr>con_y := con_y c - 1, con_x := con_width c - 1 - 1\<rparr>))
         else line_break_scan (c\<lparr>con_x := con_x c - 1\<rparr>))
      else Some (False, c))"

declare line_break_scan.simps [code]

definition backspace :: "console \<Rightarrow> (bool \<times> console) option" where
  "backspace c =
     (case
        (if con_x c = 0 then
           line_break_scan
             (c\<lparr>con_y := (if con_y c = 0 then con_height c - 1 else con_y c - 1),
                con_x := con_width c - 1\<rparr>)
         else Some (False, c\<lparr>con_x := con_x c - 1\<rparr>))
      of None \<Rightarrow> None
       | Some (True, c') \<Rightarrow> Some (True, c')
       | Some (False, c') \<Rightarrow> Some (False, set_cell (con_y c') (con_x c') (attr c') c'))"

definition wrap_x :: "console \<Rightarrow> console" where
  "wrap_x c = (if con_x c \<ge> con_width c then c\<lparr>con_y := con_y c + 1, con_x := 0\<rparr> else c)"

definition wrap_y :: "console \<Rightarrow> console" where
  "wrap_y c = (if con_y c \<ge> con_height c then c\<lparr>con_x := 0, con_y := 0\<rparr> else c)"

definition printByte :: "u8 \<Rightarrow> console \<Rightarrow> fault + console" where
  "printByte b c =
     (if b = 0 then Inr c
      else if b = 10 \<or> b = 13 then
        Inr (wrap_y (wrap_x (c\<lparr>con_x := 0, con_y := con_y c + 1\<rparr>)))
      else if b = 9 then
        Inr (wrap_y (wrap_x (c\<lparr>con_x := con_x c + 4\<rparr>)))
      else if b = 8 then
        (case backspace c of
           None \<Rightarrow> Inl Hang
         | Some (True, c') \<Rightarrow> Inr c'
         | Some (False, c') \<Rightarrow> Inr (wrap_y (wrap_x c')))
      else
        Inr (wrap_y (wrap_x
          ((set_cell (con_y c) (con_x c) (attr c OR ucast b) c)\<lparr>con_x := con_x c + 1\<rparr>))))"

text \<open>\<open>printStr\<close> stops at the terminating NUL, so a string is the list of the bytes before it.\<close>

definition printStr :: "u8 list \<Rightarrow> console \<Rightarrow> fault + console" where
  "printStr bs c = run_ops printByte (takeWhile (\<lambda>b. b \<noteq> 0) bs) c"

section \<open>printInt and printHex\<close>

text \<open>
  The digit loops fill a buffer from its end; the filled part is the list. \<open>printInt\<close> negates its
  argument, which overflows for the least \<open>int\<close>.
\<close>

function dec_digits :: "nat \<Rightarrow> u8 list \<Rightarrow> u8 list" where
  "dec_digits i buf =
     (let buf' = (of_nat (i mod 10) + 48) # buf; i' = i div 10
      in if i' \<noteq> 0 then dec_digits i' buf' else buf')"
  by pat_completeness auto
termination
  by (relation "measure fst") auto

definition printInt :: "u32 \<Rightarrow> console \<Rightarrow> fault + console" where
  "printInt i c =
     (if sint i < 0 then
        (if sint i = - (2 ^ 31) then Inl SignedOverflow
         else (case printByte 45 c of
                 Inl e \<Rightarrow> Inl e
               | Inr c' \<Rightarrow> run_ops printByte (dec_digits (nat (- sint i)) []) c'))
      else run_ops printByte (dec_digits (nat (sint i)) []) c)"

definition hex_repr :: "u8 list" where
  "hex_repr = [48, 49, 50, 51, 52, 53, 54, 55, 56, 57, 97, 98, 99, 100, 101, 102]"

function hex_digits :: "u64 \<Rightarrow> u8 list \<Rightarrow> u8 list" where
  "hex_digits i buf =
     (let buf' = (hex_repr ! unat (i mod 16)) # buf; i' = i div 16
      in if i' \<noteq> 0 then hex_digits i' buf' else buf')"
  by pat_completeness auto
termination
proof (relation "measure (\<lambda>(i, _). unat i)", goal_cases)
  case 1
  show ?case by simp
next
  case (2 i buf buf' i')
  then have "unat (i div 16) \<noteq> 0" by (simp add: unat_eq_zero)
  then show ?case using 2 by (simp add: unat_div)
qed

definition printHex :: "u64 \<Rightarrow> console \<Rightarrow> fault + console" where
  "printHex i c =
     (case printStr [48, 120] c of
        Inl e \<Rightarrow> Inl e
      | Inr c' \<Rightarrow> run_ops printByte (hex_digits i []) c')"

section \<open>kprintf and kprintln\<close>

text \<open>
  A variadic argument with the type it was passed at. Reading an argument that was not passed, or
  at another type, is undefined behaviour and ends in a fault. A format string is the characters
  before the terminating NUL; a percent sign as its last character makes the code step over the
  terminator.
\<close>

datatype va = VStr "u8 list" | VInt u32 | VU64 u64

definition bytes_of :: "string \<Rightarrow> u8 list" where
  "bytes_of s = map of_char s"

definition directive :: "char \<Rightarrow> va list \<Rightarrow> console \<Rightarrow> (fault + console) \<times> va list" where
  "directive d args c =
     (if d = CHR ''s'' then
        (case args of [] \<Rightarrow> (Inl MissingVaArg, [])
         | VStr bs # r \<Rightarrow> (printStr bs c, r) | _ # r \<Rightarrow> (Inl VaArgType, r))
      else if d = CHR ''d'' then
        (case args of [] \<Rightarrow> (Inl MissingVaArg, [])
         | VInt i # r \<Rightarrow> (printInt i c, r) | _ # r \<Rightarrow> (Inl VaArgType, r))
      else if d = CHR ''x'' then
        (case args of [] \<Rightarrow> (Inl MissingVaArg, [])
         | VU64 i # r \<Rightarrow> (printHex i c, r) | _ # r \<Rightarrow> (Inl VaArgType, r))
      else if d = CHR ''f'' then (printStr (bytes_of ''no float suppport yet'') c, args)
      else if d = CHR ''c'' then
        (case args of [] \<Rightarrow> (Inl MissingVaArg, [])
         | VInt i # r \<Rightarrow> (printByte (ucast i) c, r) | _ # r \<Rightarrow> (Inl VaArgType, r))
      else if d = CHR ''b'' then
        (case args of [] \<Rightarrow> (Inl MissingVaArg, [])
         | VInt i # r \<Rightarrow>
             (printStr (if i \<noteq> 0 then bytes_of ''true'' else bytes_of ''false'') c, r)
         | _ # r \<Rightarrow> (Inl VaArgType, r))
      else (Inr c, args))"

fun kprintf :: "string \<Rightarrow> va list \<Rightarrow> console \<Rightarrow> fault + console" where
  "kprintf [] args c = Inr c"
| "kprintf (ch # fmt) args c =
     (if ch = CHR ''%'' then
        (case fmt of
           [] \<Rightarrow> Inl ReadPastEnd
         | d # rest \<Rightarrow>
             (case directive d args c of
                (Inl e, _) \<Rightarrow> Inl e
              | (Inr c', args') \<Rightarrow> kprintf rest args' c'))
      else (case printByte (of_char ch) c of Inl e \<Rightarrow> Inl e | Inr c' \<Rightarrow> kprintf fmt args c'))"

text \<open>\<open>kprintln\<close> calls \<open>kprintf(fmt)\<close>: its own variadic arguments are not passed on.\<close>

definition kprintln :: "string \<Rightarrow> va list \<Rightarrow> console \<Rightarrow> fault + console" where
  "kprintln fmt args c =
     (case kprintf fmt [] c of Inl e \<Rightarrow> Inl e | Inr c' \<Rightarrow> printByte 10 c')"

text \<open>
  By the C standard \<open>kprintf\<close> then reads arguments that were not passed. What a compiled kernel does is read what
  lies where the arguments would be, often those of \<open>kprintln\<close> in their registers. \<open>found\<close> gives what is there, from
  the format string and the arguments that \<open>kprintln\<close> dropped; \<open>kprintln\<close> above is the case that nothing is.
\<close>

type_synonym va_area = "string \<Rightarrow> va list \<Rightarrow> va list"

definition kprintln_va :: "va_area \<Rightarrow> string \<Rightarrow> va list \<Rightarrow> console \<Rightarrow> fault + console" where
  "kprintln_va found fmt args c =
     (case kprintf fmt (found fmt args) c of Inl e \<Rightarrow> Inl e | Inr c' \<Rightarrow> printByte 10 c')"

abbreviation (input) nothing_found :: va_area where "nothing_found \<equiv> \<lambda>fmt args. []"

definition kset_color :: "u8 \<Rightarrow> u8 \<Rightarrow> console \<Rightarrow> console" where
  "kset_color bg fg c = c\<lparr>con_color := push_bit 4 bg OR fg\<rparr>"

definition kclear_screen :: "console \<Rightarrow> console" where
  "kclear_screen c =
     (let field = attr c
      in (fold (\<lambda>y. fold (\<lambda>x. set_cell (of_nat y) (of_nat x) field) [0..<unat (con_width c)])
            [0..<unat (con_height c)] c)\<lparr>con_x := 0, con_y := 0\<rparr>)"

section \<open>The cursor invariant\<close>

definition con_ok :: "console \<Rightarrow> bool" where
  "con_ok c \<longleftrightarrow> con_width c = 80 \<and> con_height c = 25 \<and> con_x c < 80 \<and> con_y c < 25"

definition printable :: "u8 \<Rightarrow> bool" where
  "printable b \<longleftrightarrow> b \<notin> {0, 8, 9, 10, 13}"

lemma wrap_x_simps [simp]:
  "con_width (wrap_x c) = con_width c" "con_height (wrap_x c) = con_height c"
  "con_color (wrap_x c) = con_color c" "vga (wrap_x c) = vga c"
  by (simp_all add: wrap_x_def)

lemma wrap_y_simps [simp]:
  "con_width (wrap_y c) = con_width c" "con_height (wrap_y c) = con_height c"
  "con_color (wrap_y c) = con_color c" "vga (wrap_y c) = vga c"
  by (simp_all add: wrap_y_def)

lemma set_cell_simps [simp]:
  "con_width (set_cell y x v c) = con_width c" "con_height (set_cell y x v c) = con_height c"
  "con_color (set_cell y x v c) = con_color c" "con_x (set_cell y x v c) = con_x c"
  "con_y (set_cell y x v c) = con_y c"
  "vga (set_cell y x v c) = (vga c)(cell_index y x := v)"
  by (simp_all add: set_cell_def)

lemma wrap_con_ok [inv_intros]:
  assumes "con_width c = 80" "con_height c = 25"
  shows "con_ok (wrap_y (wrap_x c))"
  using assms by (auto simp: con_ok_def wrap_x_def wrap_y_def not_le)

lemma is_blank_upd [simp]:
  "is_blank (c\<lparr>con_x := a\<rparr>) y x = is_blank c y x"
  "is_blank (c\<lparr>con_y := b\<rparr>) y x = is_blank c y x"
  "is_blank (c\<lparr>con_y := b, con_x := a\<rparr>) y x = is_blank c y x"
  by (simp_all add: is_blank_def)

lemma backspace_scan:
  assumes "con_x c = 0"
    and "c\<lparr>con_y := if con_y c = 0 then con_height c - 1 else con_y c - 1,
           con_x := con_width c - 1\<rparr> = d"
    and "line_break_scan d = Some (False, d')"
  shows "backspace c = Some (False, set_cell (con_y d') (con_x d') (attr d') d')"
  unfolding backspace_def using assms by simp

lemma line_break_scan_first:
  assumes "con_width c = 80" "con_x c = 0"
  shows "\<exists>ret x'. line_break_scan c = Some (ret, c\<lparr>con_x := x'\<rparr>) \<and>
           (if ret then x' = 0 \<and> (\<forall>j \<le> con_x c. is_blank c (con_y c) j) \<and> is_blank c (con_y c) 255
            else \<not> is_blank c (con_y c) x' \<and> (x' \<le> con_x c \<or>
                   x' = 255 \<and> (\<forall>j \<le> con_x c. is_blank c (con_y c) j)))"
proof -
  note x0 = assms(2)
  let ?c = "c\<lparr>con_x := 255\<rparr>"
  have bl: "is_blank ?c y x = is_blank c y x" for y x by (simp add: is_blank_def)
  have end_scan: "line_break_scan ?c =
      (if is_blank c (con_y c) 255 then
         (if is_blank c (con_y c) 0 then Some (True, c\<lparr>con_x := 0\<rparr>)
          else line_break_scan (?c\<lparr>con_y := con_y c - 1, con_x := 78\<rparr>))
       else Some (False, ?c))"
    using assms by (subst line_break_scan.simps) (simp add: bl)
  show ?thesis
  proof (cases "is_blank c (con_y c) 0")
    case True
    moreover have "con_x c - 1 = 255" using x0 by simp
    ultimately have "line_break_scan c = line_break_scan ?c"
      using assms by (subst line_break_scan.simps) (simp del: diff_0)
    then show ?thesis using True x0 by (cases "is_blank c (con_y c) 255") (auto simp: end_scan)
  next
    case False
    then have "line_break_scan c = Some (False, c)"
      using x0 by (subst line_break_scan.simps) simp
    then show ?thesis using False x0
      by (intro exI [of _ False] exI [of _ "0 :: u8"]) (simp add: console.surjective)
  qed
qed

lemma line_break_scan_result:
  assumes "con_width c = 80" "con_x c < 80"
  shows "\<exists>ret x'. line_break_scan c = Some (ret, c\<lparr>con_x := x'\<rparr>) \<and>
           (if ret then x' = 0 \<and> (\<forall>j \<le> con_x c. is_blank c (con_y c) j) \<and> is_blank c (con_y c) 255
            else \<not> is_blank c (con_y c) x' \<and> (x' \<le> con_x c \<or>
                   x' = 255 \<and> (\<forall>j \<le> con_x c. is_blank c (con_y c) j)))"
  using assms
proof (induction "unat (con_x c)" arbitrary: c)
  case 0
  then show ?case by (intro line_break_scan_first) (simp_all add: unat_eq_zero)
next
  case (Suc n)
  let ?c = "c\<lparr>con_x := con_x c - 1\<rparr>"
  have bl: "is_blank ?c y x = is_blank c y x" for y x by (simp add: is_blank_def)
  have nz: "con_x c \<noteq> 0" using Suc.hyps(2) by auto
  then have n: "n = unat (con_x ?c)" using Suc.hyps(2) by (simp add: unat_minus_one)
  have lt: "con_x ?c < 80" using Suc.prems n Suc.hyps(2) by (simp add: word_less_nat_alt)
  have le: "(j \<le> con_x c) = (j = con_x c \<or> j \<le> con_x ?c)" for j
    using n Suc.hyps(2) by (auto simp: word_le_nat_alt word_unat_eq_iff)
  show ?case
  proof (cases "is_blank c (con_y c) (con_x c)")
    case True
    moreover have "\<not> con_width c \<le> con_x c" using Suc.prems by simp
    ultimately have eq: "line_break_scan c = line_break_scan ?c"
      by (subst line_break_scan.simps) simp
    have "con_width ?c = 80" using Suc.prems by simp
    from Suc.hyps(1) [OF n this lt] obtain ret x' where
      ih: "line_break_scan ?c = Some (ret, c\<lparr>con_x := x'\<rparr>)"
        "ret \<Longrightarrow> x' = 0 \<and> (\<forall>j \<le> con_x ?c. is_blank c (con_y c) j) \<and> is_blank c (con_y c) 255"
        "\<not> ret \<Longrightarrow> \<not> is_blank c (con_y c) x' \<and> (x' \<le> con_x ?c \<or>
           x' = 255 \<and> (\<forall>j \<le> con_x ?c. is_blank c (con_y c) j))"
      by (auto simp: bl split: if_splits)
    show ?thesis
    proof (cases ret)
      case True
      with ih(2) \<open>is_blank c (con_y c) (con_x c)\<close> show ?thesis
        unfolding eq ih(1) by (intro exI [of _ ret] exI [of _ x']) (auto simp: le)
    next
      case False
      with ih(3) \<open>is_blank c (con_y c) (con_x c)\<close> show ?thesis
        unfolding eq ih(1) by (intro exI [of _ ret] exI [of _ x']) (auto simp: le)
    qed
  next
    case False
    then have "line_break_scan c = Some (False, c)" by (subst line_break_scan.simps) simp
    then show ?thesis using False
      by (intro exI [of _ False] exI [of _ "con_x c"]) simp
  qed
qed

lemma backspace_result:
  assumes "con_ok c"
  shows "\<exists>ret c'. backspace c = Some (ret, c') \<and> con_width c' = 80 \<and> con_height c' = 25 \<and>
           con_color c' = con_color c \<and> (ret \<longrightarrow> con_ok c')"
proof (cases "con_x c = 0")
  case True
  let ?y = "if con_y c = 0 then con_height c - 1 else con_y c - 1"
  let ?c = "c\<lparr>con_y := ?y, con_x := con_width c - 1\<rparr>"
  have w: "con_width ?c = 80" "con_x ?c < 80" using assms by (simp_all add: con_ok_def)
  from line_break_scan_result [OF w] obtain ret x' where
    r: "line_break_scan ?c = Some (ret, ?c\<lparr>con_x := x'\<rparr>)" "ret \<longrightarrow> x' = 0" by (meson)
  have "?y < 25" using assms
    by (auto simp: con_ok_def word_less_nat_alt unat_minus_one)
  then show ?thesis using True assms r
    by (cases ret) (auto simp: backspace_def con_ok_def)
next
  case False
  then show ?thesis using assms by (auto simp: backspace_def con_ok_def)
qed

lemma printByte_safe [inv_intros]:
  assumes "con_ok c"
  shows "\<exists>c'. printByte b c = Inr c' \<and> con_ok c' \<and> con_color c' = con_color c"
proof -
  have dims: "con_width c = 80" "con_height c = 25" using assms by (simp_all add: con_ok_def)
  show ?thesis
  proof (cases "b = 8")
    case True
    from backspace_result [OF assms] obtain ret c1 where
      b: "backspace c = Some (ret, c1)" "con_width c1 = 80" "con_height c1 = 25"
         "con_color c1 = con_color c" "ret \<longrightarrow> con_ok c1" by blast
    then show ?thesis using True by (cases ret) (auto simp: printByte_def intro: wrap_con_ok)
  next
    case False
    then show ?thesis using assms dims
      by (auto simp: printByte_def intro: wrap_con_ok)
  qed
qed

interpretation con: safe_op_system printByte con_ok
  by unfold_locales (use printByte_safe in blast)

lemma run_printByte_color:
  "con_ok c \<Longrightarrow> run_ops printByte bs c = Inr c' \<Longrightarrow> con_ok c' \<and> con_color c' = con_color c"
proof (induction bs arbitrary: c)
  case Nil
  then show ?case by simp
next
  case (Cons b bs)
  from printByte_safe [OF Cons.prems(1)] obtain c1 where
    "printByte b c = Inr c1" "con_ok c1" "con_color c1 = con_color c" by blast
  with Cons show ?case by fastforce
qed

section \<open>Printing text\<close>

definition cursor :: "console \<Rightarrow> nat" where
  "cursor c = cell_index (con_y c) (con_x c)"

lemma cursor_less: "con_ok c \<Longrightarrow> cursor c < 2000"
  by (simp add: cursor_def cell_index_def con_ok_def word_less_nat_alt)

lemma cursor_inj:
  assumes "con_ok c" "con_ok d" "cursor c = cursor d"
  shows "con_x c = con_x d \<and> con_y c = con_y d"
proof -
  have "unat (con_x c) < 80" "unat (con_x d) < 80"
    using assms by (simp_all add: con_ok_def word_less_nat_alt)
  then have "unat (con_x c) = unat (con_x d) \<and> unat (con_y c) = unat (con_y d)"
    using assms(3) unfolding cursor_def cell_index_def
    by (metis mod_mult_self3 mod_less mult_eq_self_implies_10 add_right_cancel
        mult_cancel2 zero_neq_numeral)
  then show ?thesis by (simp add: word_unat_eq_iff)
qed

lemma printByte_printable:
  assumes "con_ok c" "printable b"
  shows "\<exists>c'. printByte b c = Inr c' \<and> con_ok c' \<and> con_color c' = con_color c \<and>
           cursor c' = (cursor c + 1) mod 2000 \<and>
           vga c' = (vga c)(cursor c := attr c OR ucast b)"
proof -
  let ?d = "(set_cell (con_y c) (con_x c) (attr c OR ucast b) c)\<lparr>con_x := con_x c + 1\<rparr>"
  have p: "printByte b c = Inr (wrap_y (wrap_x ?d))"
    using assms by (simp add: printByte_def printable_def)
  have bd: "unat (con_x c) < 80" "unat (con_y c) < 25" "con_width c = 80" "con_height c = 25"
    using assms by (simp_all add: con_ok_def word_less_nat_alt)
  have s: "unat (con_x c + 1) = unat (con_x c) + 1" "unat (con_y c + 1) = unat (con_y c) + 1"
    using bd by (simp_all add: unat_word_ariths)
  have ends: "79 \<le> unat (con_x c) \<longleftrightarrow> unat (con_x c) = 79" "24 \<le> unat (con_y c) \<longleftrightarrow> unat (con_y c) = 24"
    using bd by auto
  have "cursor (wrap_y (wrap_x ?d)) = (cursor c + 1) mod 2000"
    using bd s by (auto simp: cursor_def cell_index_def wrap_x_def wrap_y_def word_le_nat_alt ends)
  moreover have "con_ok (wrap_y (wrap_x ?d))" using bd by (intro wrap_con_ok) simp_all
  ultimately show ?thesis using p by (simp add: cursor_def)
qed

lemma run_printable:
  assumes "con_ok c" "\<forall>b \<in> set bs. printable b" "length bs \<le> 2000"
  shows "\<exists>c'. run_ops printByte bs c = Inr c' \<and> con_ok c' \<and> con_color c' = con_color c \<and>
           cursor c' = (cursor c + length bs) mod 2000 \<and>
           (\<forall>i < length bs. vga c' ((cursor c + i) mod 2000) = attr c OR ucast (bs ! i)) \<and>
           (\<forall>k. (\<forall>i < length bs. k \<noteq> (cursor c + i) mod 2000) \<longrightarrow> vga c' k = vga c k)"
  using assms
proof (induction bs arbitrary: c)
  case Nil
  then show ?case by (simp add: cursor_less)
next
  case (Cons b bs)
  from printByte_printable [of c b] Cons.prems obtain c1 where
    c1: "printByte b c = Inr c1" "con_ok c1" "con_color c1 = con_color c"
      "cursor c1 = (cursor c + 1) mod 2000" "vga c1 = (vga c)(cursor c := attr c OR ucast b)"
    by auto
  from Cons.IH [of c1] Cons.prems c1 obtain c2 where
    c2: "run_ops printByte bs c1 = Inr c2" "con_ok c2" "con_color c2 = con_color c1"
      "cursor c2 = (cursor c1 + length bs) mod 2000"
      "\<And>i. i < length bs \<Longrightarrow> vga c2 ((cursor c1 + i) mod 2000) = attr c1 OR ucast (bs ! i)"
      "\<And>k. (\<And>i. i < length bs \<Longrightarrow> k \<noteq> (cursor c1 + i) mod 2000) \<Longrightarrow> vga c2 k = vga c1 k"
    by auto
  have shift: "(cursor c1 + i) mod 2000 = (cursor c + Suc i) mod 2000" for i
    by (simp add: c1(4) mod_simps)
  have at: "attr c1 = attr c" by (simp add: attr_def c1(3))
  have lt: "cursor c < 2000" using Cons.prems(1) by (rule cursor_less)
  have first: "vga c2 (cursor c) = attr c OR ucast b"
  proof -
    have "cursor c \<noteq> (cursor c1 + i) mod 2000" if "i < length bs" for i
      using that Cons.prems(3) lt unfolding shift
      by (cases "cursor c + Suc i < 2000") (auto simp: mod_if)
    from c2(6) [OF this] show ?thesis by (simp add: c1(5))
  qed
  have "vga c2 ((cursor c + i) mod 2000) = attr c OR ucast ((b # bs) ! i)"
    if "i < length (b # bs)" for i
    using that first lt c2(5) [unfolded shift at] by (cases i) auto
  moreover have "vga c2 k = vga c k"
    if "\<forall>i < length (b # bs). k \<noteq> (cursor c + i) mod 2000" for k
  proof -
    from that have "k \<noteq> cursor c" using lt by (auto dest: spec [of _ 0])
    moreover have "k \<noteq> (cursor c1 + i) mod 2000" if "i < length bs" for i
      using \<open>\<forall>i < length (b # bs). k \<noteq> (cursor c + i) mod 2000\<close> that
      unfolding shift by (auto dest: spec [of _ "Suc i"])
    ultimately show ?thesis using c2(6) c1(5) by simp
  qed
  moreover have "cursor c2 = (cursor c + length (b # bs)) mod 2000"
    using c2(4) shift by simp
  ultimately show ?case using c1 c2 by simp
qed

text \<open>Backspace takes back a printable byte, also across the end of a line and of the screen.\<close>

lemma attr_char: "(attr c OR ucast (b :: u8)) AND 0xff = (ucast b :: u16)"
proof -
  have m: "(0xff :: u16) = mask 8" by (simp add: mask_eq_exp_minus_1)
  show ?thesis unfolding attr_def m
    by (rule bit_word_eqI) (auto simp: bit_simps dest: bit_imp_le_length)
qed

lemma attr_char_nonblank: "b \<noteq> 0 \<Longrightarrow> (attr c OR ucast (b :: u8)) AND 0xff \<noteq> 0"
  by (simp add: attr_char ucast_up_eq_0)

lemma backspace_after_printable:
  assumes "con_ok c" "printable b"
  shows "\<exists>c1. printByte b c = Inr c1 \<and> con_ok c1 \<and>
           printByte 8 c1 = Inr (set_cell (con_y c) (con_x c) (attr c) c)"
proof -
  let ?v = "attr c OR ucast b"
  let ?d = "(set_cell (con_y c) (con_x c) ?v c)\<lparr>con_x := con_x c + 1\<rparr>"
  let ?c1 = "wrap_y (wrap_x ?d)"
  let ?r = "set_cell (con_y c) (con_x c) (attr c) c"
  have bd: "unat (con_x c) < 80" "unat (con_y c) < 25" "con_width c = 80" "con_height c = 25"
    using assms by (simp_all add: con_ok_def word_less_nat_alt)
  have p: "printByte b c = Inr ?c1"
    using assms by (simp add: printByte_def printable_def)
  have s: "unat (con_x c + 1) = unat (con_x c) + 1" "unat (con_y c + 1) = unat (con_y c) + 1"
    using bd by (simp_all add: unat_word_ariths)
  have ok1: "con_ok ?c1" using bd by (intro wrap_con_ok) simp_all
  have okr: "wrap_y (wrap_x ?r) = ?r"
    using bd by (simp add: wrap_x_def wrap_y_def word_le_nat_alt)
  have bsp: "backspace ?c1 = Some (False, ?r)"
  proof (cases "unat (con_x c) = 79")
    case False
    then have c1: "?c1 = ?d" using bd s by (simp add: wrap_x_def wrap_y_def word_le_nat_alt)
    have "con_x c + 1 \<noteq> 0" using s(1) by (metis Suc_eq_plus1 nat.distinct(1) unat_0)
    then show ?thesis unfolding c1
      by (simp add: backspace_def set_cell_def attr_def)
  next
    case True
    then have x: "con_x c = 79" by (simp add: word_unat_eq_iff)
    let ?y = "if 25 \<le> con_y c + 1 then 0 else con_y c + 1"
    have c1: "?c1 = ?d\<lparr>con_x := 0, con_y := ?y\<rparr>"
      using bd x by (simp add: wrap_x_def wrap_y_def)
    have y: "(if ?y = 0 then 24 else ?y - 1) = con_y c"
    proof (cases "unat (con_y c) = 24")
      case True
      then have "con_y c = 24" by (simp add: word_unat_eq_iff)
      then show ?thesis by simp
    next
      case False
      have "con_y c + 1 \<noteq> 0" using s(2) by (metis Suc_eq_plus1 nat.distinct(1) unat_0)
      then show ?thesis using False bd s by (simp add: word_le_nat_alt)
    qed
    let ?e = "set_cell (con_y c) 79 ?v c"
    have "line_break_scan ?e = Some (False, ?e)"
      using assms(2) by (subst line_break_scan.simps)
        (simp add: is_blank_def x attr_char_nonblank printable_def)
    moreover have "?c1\<lparr>con_y := if con_y ?c1 = 0 then con_height ?c1 - 1 else con_y ?c1 - 1,
        con_x := con_width ?c1 - 1\<rparr> = ?e"
    proof -
      have "con_y ?c1 = ?y" unfolding c1 by simp
      then have "(if con_y ?c1 = 0 then con_height ?c1 - 1 else con_y ?c1 - 1) = con_y c"
        using y bd
        by (simp only: wrap_y_simps wrap_x_simps set_cell_simps console.simps)
          (auto split: if_splits)
      moreover have "con_width ?c1 - 1 = con_x c" using x bd by simp
      ultimately show ?thesis unfolding c1 by (simp add: set_cell_def x)
    qed
    moreover have "con_x ?c1 = 0" unfolding c1 by simp
    ultimately have "backspace ?c1 = Some (False, set_cell (con_y ?e) (con_x ?e) (attr ?e) ?e)"
      by (intro backspace_scan)
    also have "set_cell (con_y ?e) (con_x ?e) (attr ?e) ?e = ?r"
      by (simp add: set_cell_def x attr_def)
    finally show ?thesis .
  qed
  then show ?thesis using p ok1 okr by (simp add: printByte_def)
qed

text \<open>
  Backspace at the start of a line whose previous line is blank: the scan leaves the previous line
  at column 255, which is a cell three lines further down.
\<close>

lemma backspace_blank_line:
  assumes "con_ok c" "con_x c = 0" "con_y c \<noteq> 0"
    and blank: "\<forall>x < 80. is_blank c (con_y c - 1) x"
  shows "printByte 8 c =
    Inr (if is_blank c (con_y c - 1) 255 then c\<lparr>con_y := con_y c - 1\<rparr>
         else set_cell (con_y c - 1) 255 (attr c) c)"
proof -
  let ?c = "c\<lparr>con_y := con_y c - 1, con_x := con_width c - 1\<rparr>"
  have dims: "con_width c = 80" "con_height c = 25" "con_y c < 25"
    using assms(1) by (simp_all add: con_ok_def)
  from line_break_scan_result [of ?c] dims obtain ret x' where
    r: "line_break_scan ?c = Some (ret, ?c\<lparr>con_x := x'\<rparr>)"
      "if ret then x' = 0 \<and> is_blank c (con_y c - 1) 255
       else \<not> is_blank c (con_y c - 1) x' \<and> (x' \<le> 79 \<or> x' = 255)"
    by (auto split: if_splits)
  have "ret = is_blank c (con_y c - 1) 255 \<and> x' = (if ret then 0 else 255)"
  proof (cases ret)
    case True
    then show ?thesis using r(2) by simp
  next
    case False
    have "x' < 80" if "x' \<le> 79" using that by (simp add: word_le_nat_alt word_less_nat_alt)
    then show ?thesis using False r(2) blank by auto
  qed
  moreover have y: "con_y c - 1 + 1 = con_y c" by simp
  ultimately show ?thesis using r(1) assms(2,3) dims
    by (auto simp: printByte_def backspace_def wrap_x_def wrap_y_def set_cell_def attr_def)
qed

section \<open>Number printing\<close>

definition dec_value :: "u8 list \<Rightarrow> nat" where
  "dec_value ds = foldl (\<lambda>v d. v * 10 + (unat d - 48)) 0 ds"

definition hex_digit_value :: "u8 \<Rightarrow> nat" where
  "hex_digit_value d = (if d \<le> 57 then unat d - 48 else unat d - 87)"

definition hex_value :: "u8 list \<Rightarrow> nat" where
  "hex_value ds = foldl (\<lambda>v d. v * 16 + hex_digit_value d) 0 ds"

definition is_digit :: "u8 \<Rightarrow> bool" where
  "is_digit d \<longleftrightarrow> 48 \<le> d \<and> d \<le> 57"

declare dec_digits.simps [simp del] hex_digits.simps [simp del]

lemma dec_digit_byte:
  assumes "n < 10"
  shows "unat (of_nat n + 48 :: u8) = n + 48"
  using assms by (simp add: unat_word_ariths unat_of_nat)

lemma dec_digits_spec:
  "\<exists>ds. dec_digits i buf = ds @ buf \<and> dec_value ds = i \<and> (\<forall>d \<in> set ds. is_digit d) \<and>
     ds \<noteq> [] \<and> (\<forall>k > 0. i < 10 ^ k \<longrightarrow> length ds \<le> k) \<and> (i \<noteq> 0 \<longrightarrow> hd ds \<noteq> 48)"
proof (induction i buf rule: dec_digits.induct)
  case (1 i buf)
  let ?d = "of_nat (i mod 10) + 48 :: u8"
  have d: "unat ?d = i mod 10 + 48" "is_digit ?d"
    using dec_digit_byte [of "i mod 10"] by (simp_all add: is_digit_def word_le_nat_alt)
  show ?case
  proof (cases "i div 10 = 0")
    case True
    then have "i < 10" by auto
    moreover have "?d \<noteq> 48" if "i \<noteq> 0"
      using d(1) that \<open>i < 10\<close> by (auto dest: arg_cong [where f = unat])
    ultimately show ?thesis using True d
      by (intro exI [of _ "[?d]"]) (simp add: dec_digits.simps dec_value_def)
  next
    case False
    from "1.IH" [OF refl refl False] obtain ds where
      ds: "dec_digits (i div 10) (?d # buf) = ds @ ?d # buf" "dec_value ds = i div 10"
        "\<forall>d \<in> set ds. is_digit d" "ds \<noteq> []"
        "\<forall>k > 0. i div 10 < 10 ^ k \<longrightarrow> length ds \<le> k" "i div 10 \<noteq> 0 \<longrightarrow> hd ds \<noteq> 48"
      by blast
    have "length (ds @ [?d]) \<le> k" if k0: "k > 0" "i < 10 ^ k" for k
    proof (cases "k = 1")
      case True
      then show ?thesis using k0 False by simp
    next
      case False
      then obtain k' where k: "k = Suc k'" "k' > 0" using k0 by (cases k) auto
      then have "i div 10 < 10 ^ k'" using k0 by (simp add: less_mult_imp_div_less mult.commute)
      then show ?thesis using ds(5) k by auto
    qed
    moreover have "dec_digits i buf = (ds @ [?d]) @ buf"
      using False ds(1) by (simp add: dec_digits.simps [of i buf])
    moreover have "dec_value (ds @ [?d]) = i"
      using ds(2) d(1) by (simp add: dec_value_def)
    ultimately show ?thesis using ds d False
      by (intro exI [of _ "ds @ [?d]"]) auto
  qed
qed

lemma hex_repr_value:
  assumes "n < 16"
  shows "hex_digit_value (hex_repr ! n) = n" and "hex_repr ! n \<in> set hex_repr"
proof -
  have "list_all (\<lambda>n. hex_digit_value (hex_repr ! n) = n) [0..<16]"
    by (simp add: upt_rec hex_repr_def hex_digit_value_def)
  then show "hex_digit_value (hex_repr ! n) = n" using assms by (simp add: list_all_iff)
  have "length hex_repr = 16" by (simp add: hex_repr_def)
  then show "hex_repr ! n \<in> set hex_repr" using assms by (simp add: nth_mem)
qed

lemma hex_digits_spec:
  "\<exists>ds. hex_digits i buf = ds @ buf \<and> hex_value ds = unat i \<and> set ds \<subseteq> set hex_repr \<and>
     ds \<noteq> [] \<and> (\<forall>k > 0. unat i < 16 ^ k \<longrightarrow> length ds \<le> k)"
proof (induction i buf rule: hex_digits.induct)
  case (1 i buf)
  let ?d = "hex_repr ! unat (i mod 16)"
  have m: "unat (i mod 16) = unat i mod 16" "unat (i div 16) = unat i div 16"
    by (simp_all add: unat_mod unat_div)
  have d: "hex_digit_value ?d = unat i mod 16" "?d \<in> set hex_repr"
    using hex_repr_value [of "unat i mod 16"] by (simp_all add: m)
  show ?case
  proof (cases "i div 16 = 0")
    case True
    then have "unat i div 16 = 0" using m(2) by simp
    then show ?thesis using True d
      by (intro exI [of _ "[?d]"]) (auto simp: hex_digits.simps hex_value_def)
  next
    case False
    from "1.IH" [OF refl refl False] obtain ds where
      ds: "hex_digits (i div 16) (?d # buf) = ds @ ?d # buf" "hex_value ds = unat i div 16"
        "set ds \<subseteq> set hex_repr" "ds \<noteq> []"
        "\<forall>k > 0. unat i div 16 < 16 ^ k \<longrightarrow> length ds \<le> k"
      by (auto simp: m)
    have nz: "unat i div 16 \<noteq> 0" using False m(2) unat_eq_zero [of "i div 16"] by metis
    have "length (ds @ [?d]) \<le> k" if k0: "k > 0" "unat i < 16 ^ k" for k
    proof (cases "k = 1")
      case True
      then show ?thesis using k0 nz by simp
    next
      case False
      then obtain k' where k: "k = Suc k'" "k' > 0" using k0 by (cases k) auto
      then have "unat i div 16 < 16 ^ k'" using k0 by (simp add: less_mult_imp_div_less mult.commute)
      then show ?thesis using ds(5) k by auto
    qed
    moreover have "hex_digits i buf = (ds @ [?d]) @ buf"
      using False ds(1) by (simp add: hex_digits.simps [of i buf])
    moreover have "hex_value (ds @ [?d]) = unat i"
      using ds(2) d(1) by (simp add: hex_value_def)
    ultimately show ?thesis using ds d by (intro exI [of _ "ds @ [?d]"]) auto
  qed
qed

section \<open>Clearing the screen\<close>

lemma fold_set_row:
  assumes "n \<le> 80" "unat y < 25"
  shows "fold (\<lambda>x. set_cell y (of_nat x) v) [0..<n] c =
     c\<lparr>vga := (\<lambda>k. if unat y * 80 \<le> k \<and> k < unat y * 80 + n then v else vga c k)\<rparr>"
  using assms(1)
proof (induction n)
  case 0
  have "(\<lambda>k. if unat y * 80 \<le> k \<and> k < unat y * 80 + 0 then v else vga c k) = vga c"
    by (rule ext) auto
  then show ?case by simp
next
  case (Suc n)
  have "unat (of_nat n :: u8) = n" using Suc.prems by (simp add: unat_of_nat)
  then show ?case using Suc by (auto simp: set_cell_def cell_index_def fun_eq_iff)
qed

lemma fold_set_rows:
  assumes "n \<le> 25"
  shows "fold (\<lambda>y. fold (\<lambda>x. set_cell (of_nat y) (of_nat x) v) [0..<80]) [0..<n] c =
     c\<lparr>vga := (\<lambda>k. if k < n * 80 then v else vga c k)\<rparr>"
  using assms
proof (induction n)
  case 0
  show ?case by simp
next
  case (Suc n)
  have "unat (of_nat n :: u8) = n" using Suc.prems by (simp add: unat_of_nat)
  then show ?case using Suc by (auto simp: fold_set_row fun_eq_iff)
qed

lemma kclear_screen_result:
  assumes "con_width c = 80" "con_height c = 25"
  shows "kclear_screen c =
    c\<lparr>vga := (\<lambda>k. if k < 2000 then attr c else vga c k), con_x := 0, con_y := 0\<rparr>"
  using assms fold_set_rows [of 25 "attr c" c] by (simp add: kclear_screen_def Let_def)

section \<open>Format strings\<close>

lemma run_ops_append:
  "run_ops step (xs @ ys) s =
     (case run_ops step xs s of Inl e \<Rightarrow> Inl e | Inr s' \<Rightarrow> run_ops step ys s')"
  by (induction xs arbitrary: s) (auto split: sum.splits)

lemma kprintf_plain:
  assumes "CHR ''%'' \<notin> set pre"
  shows "kprintf (pre @ fmt) args c =
    (case run_ops printByte (bytes_of pre) c of Inl e \<Rightarrow> Inl e | Inr c' \<Rightarrow> kprintf fmt args c')"
  using assms
  by (induction pre arbitrary: c) (auto simp: bytes_of_def split: sum.splits)

definition reads_arg :: "char \<Rightarrow> bool" where
  "reads_arg d \<longleftrightarrow> d \<in> set ''sdxcb''"

lemma directive_no_arg: "reads_arg d \<Longrightarrow> directive d [] c = (Inl MissingVaArg, [])"
  by (auto simp: reads_arg_def directive_def)

lemma kprintln_missing:
  assumes "con_ok c" "CHR ''%'' \<notin> set pre" "reads_arg d"
  shows "kprintln (pre @ [CHR ''%'', d] @ post) args c = Inl MissingVaArg"
proof -
  from con.run_safe [OF assms(1), of "bytes_of pre"] obtain c1 where
    "run_ops printByte (bytes_of pre) c = Inr c1" by blast
  then have "kprintf (pre @ [CHR ''%'', d] @ post) [] c = Inl MissingVaArg"
    using assms(2,3) by (simp add: kprintf_plain directive_no_arg)
  then show ?thesis by (simp add: kprintln_def)
qed

lemma kprintln_plain:
  assumes "con_ok c" "CHR ''%'' \<notin> set msg"
  shows "\<exists>c'. kprintln msg args c = Inr c' \<and> con_ok c'"
proof -
  from con.run_safe [OF assms(1), of "bytes_of msg"] obtain c1 where
    c1: "run_ops printByte (bytes_of msg) c = Inr c1" "con_ok c1" by blast
  then have "kprintf msg [] c = Inr c1"
    using kprintf_plain [OF assms(2), of "[]" "[]" c] by simp
  then show ?thesis using printByte_safe [OF c1(2), of 10] by (auto simp: kprintln_def)
qed

text \<open>
  Arguments that fit a format string: one of the right type for each directive that reads one, none of them the least
  \<open>int\<close>, which \<open>printInt\<close> cannot negate. An area is readable when every format string without a trailing percent sign
  finds such arguments there.
\<close>

definition arg_fits :: "char \<Rightarrow> va \<Rightarrow> bool" where
  "arg_fits d v =
     (case v of
        VStr bs \<Rightarrow> d = CHR ''s''
      | VInt i \<Rightarrow> d \<in> set ''cb'' \<or> d = CHR ''d'' \<and> sint i \<noteq> - (2 ^ 31)
      | VU64 i \<Rightarrow> d = CHR ''x'')"

fun args_fit :: "string \<Rightarrow> va list \<Rightarrow> bool" where
  "args_fit [] args = True"
| "args_fit (ch # fmt) args =
     (if ch = CHR ''%'' then
        (case fmt of
           [] \<Rightarrow> False
         | d # rest \<Rightarrow>
             if reads_arg d then (case args of [] \<Rightarrow> False | v # r \<Rightarrow> arg_fits d v \<and> args_fit rest r)
             else args_fit rest args)
      else args_fit fmt args)"

fun formed :: "string \<Rightarrow> bool" where
  "formed [] = True"
| "formed (ch # fmt) = (if ch = CHR ''%'' then (case fmt of [] \<Rightarrow> False | d # rest \<Rightarrow> formed rest) else formed fmt)"

definition va_readable :: "va_area \<Rightarrow> bool" where
  "va_readable found \<longleftrightarrow> (\<forall>fmt args. formed fmt \<longrightarrow> args_fit fmt (found fmt args))"

text \<open>A readable area: the arguments that were dropped where they fit, otherwise some that do.\<close>

fun filler :: "string \<Rightarrow> va list" where
  "filler [] = []"
| "filler (ch # fmt) =
     (if ch = CHR ''%'' then
        (case fmt of
           [] \<Rightarrow> []
         | d # rest \<Rightarrow>
             (if d = CHR ''s'' then [VStr []] else if d = CHR ''x'' then [VU64 0]
              else if reads_arg d then [VInt 0] else []) @ filler rest)
      else filler fmt)"

definition passed_on :: va_area where
  "passed_on fmt args = (if args_fit fmt args then args else filler fmt)"

lemma args_fit_filler: "formed fmt \<Longrightarrow> args_fit fmt (filler fmt)"
  by (induction fmt rule: formed.induct) (auto simp: arg_fits_def reads_arg_def split: list.splits)

lemma va_readable_passed_on: "va_readable passed_on"
  by (simp add: va_readable_def passed_on_def args_fit_filler)

lemma directive_fits:
  assumes "con_ok c" "reads_arg d" "arg_fits d v"
  shows "\<exists>c'. directive d (v # args) c = (Inr c', args) \<and> con_ok c'"
proof -
  have prints: "\<exists>c'. run_ops printByte bs c = Inr c' \<and> con_ok c'" if "con_ok c" for bs and c
    by (rule con.run_safe [OF that])
  show ?thesis
  proof (cases v)
    case (VStr bs)
    then show ?thesis using assms prints by (auto simp: arg_fits_def directive_def printStr_def)
  next
    case (VU64 i)
    obtain c1 where "run_ops printByte [48, 120] c = Inr c1" "con_ok c1" using prints [OF assms(1)] by blast
    moreover obtain c2 where "run_ops printByte (hex_digits i []) c1 = Inr c2" "con_ok c2"
      using prints [OF \<open>con_ok c1\<close>] by blast
    ultimately have "printHex i c = Inr c2" "con_ok c2" by (simp_all add: printHex_def printStr_def)
    then show ?thesis using VU64 assms(3) by (simp add: arg_fits_def directive_def)
  next
    case (VInt i)
    have "\<exists>c'. printInt i c = Inr c' \<and> con_ok c'" if "sint i \<noteq> - (2 ^ 31)"
    proof -
      obtain c1 where "printByte 45 c = Inr c1" "con_ok c1" using printByte_safe [OF assms(1)] by blast
      then show ?thesis using that prints [OF assms(1)] prints [OF \<open>con_ok c1\<close>] by (simp add: printInt_def)
    qed
    moreover have "\<exists>c'. printByte b c = Inr c' \<and> con_ok c'" for b using printByte_safe [OF assms(1)] by blast
    moreover have "\<exists>c'. printStr bs c = Inr c' \<and> con_ok c'" for bs using prints [OF assms(1)] by (simp add: printStr_def)
    ultimately show ?thesis using VInt assms(3) by (auto simp: arg_fits_def directive_def)
  qed
qed

lemma directive_no_read:
  assumes "con_ok c" "\<not> reads_arg d"
  shows "\<exists>c'. directive d args c = (Inr c', args) \<and> con_ok c'"
  using assms con.run_safe [OF assms(1)] by (auto simp: reads_arg_def directive_def printStr_def)

lemma kprintf_fits: "con_ok c \<Longrightarrow> args_fit fmt args \<Longrightarrow> \<exists>c'. kprintf fmt args c = Inr c' \<and> con_ok c'"
proof (induction fmt args c rule: kprintf.induct)
  case (2 ch fmt args c)
  show ?case
  proof (cases "ch = CHR ''%''")
    case False
    then obtain c1 where "printByte (of_char ch) c = Inr c1" "con_ok c1" using printByte_safe [OF "2.prems"(1)] by blast
    then show ?thesis using "2.IH"(2) [OF False, of c1] "2.prems"(2) False by simp
  next
    case True
    then obtain d rest where f: "fmt = d # rest" using "2.prems"(2) by (auto split: list.splits)
    have "\<exists>c1 r. directive d args c = (Inr c1, r) \<and> con_ok c1 \<and> args_fit rest r"
    proof (cases "reads_arg d")
      case True
      then obtain v r where "args = v # r" "arg_fits d v" "args_fit rest r"
        using "2.prems"(2) \<open>ch = _\<close> f by (auto split: list.splits)
      then show ?thesis using directive_fits [OF "2.prems"(1) True, of v r] by auto
    next
      case False
      then show ?thesis using directive_no_read [OF "2.prems"(1) False, of args] "2.prems"(2) \<open>ch = _\<close> f by auto
    qed
    then obtain c1 r where d: "directive d args c = (Inr c1, r)" "con_ok c1" "args_fit rest r" by blast
    from "2.IH"(1) [OF True f d(1) [symmetric] refl d(2,3)] show ?thesis using True f d(1) by simp
  qed
qed simp

lemma kprintln_va_reads:
  assumes "con_ok c" "va_readable found" "formed fmt"
  shows "\<exists>c'. kprintln_va found fmt args c = Inr c' \<and> con_ok c'"
proof -
  have "args_fit fmt (found fmt args)" using assms(2,3) by (simp add: va_readable_def)
  from kprintf_fits [OF assms(1) this] obtain c1 where "kprintf fmt (found fmt args) c = Inr c1" "con_ok c1" by blast
  then show ?thesis using printByte_safe [of c1 10] by (auto simp: kprintln_va_def)
qed

lemma kprintln_va_nothing: "kprintln_va nothing_found = kprintln"
  by (intro ext) (simp add: kprintln_va_def kprintln_def)

section \<open>Properties\<close>

text \<open>
  Printing any sequence of bytes on a console whose cursor is on the screen returns, keeps
  the cursor on the 80 x 25 screen and keeps the colour; in particular the backspace scan always
  ends.
\<close>

theorem console_run_total:
  assumes "con_ok c"
  shows "\<exists>c'. run_ops printByte bs c = Inr c' \<and> con_ok c' \<and> con_color c' = con_color c"
  using con.run_safe [OF assms, of bs] run_printByte_color [OF assms] by blast

theorem console_run_total_witness:
  "con_ok (init_console (\<lambda>_. 0)) \<and>
   (\<exists>c'. run_ops printByte [72, 105, 10, 8, 8] (init_console (\<lambda>_. 0)) = Inr c' \<and> con_ok c' \<and>
      con_color c' = con_color (init_console (\<lambda>_. 0)))"
proof -
  have "con_ok (init_console (\<lambda>_. 0))" by (simp add: con_ok_def init_console_def)
  with console_run_total [OF this] show ?thesis by blast
qed

text \<open>C12:
  Printable text of at most one screenful appears cell by cell from the cursor on, in the
  current colour, wrapping at the end of a line and of the screen; the cursor ends behind it and no
  other cell changes.
\<close>

theorem console_text:
  assumes "con_ok c" "\<forall>b \<in> set bs. printable b" "length bs \<le> 2000"
  shows "\<exists>c'. printStr bs c = Inr c' \<and> con_ok c' \<and> con_color c' = con_color c \<and>
           cursor c' = (cursor c + length bs) mod 2000 \<and>
           (\<forall>i < length bs. vga c' ((cursor c + i) mod 2000) = attr c OR ucast (bs ! i)) \<and>
           (\<forall>k. (\<forall>i < length bs. k \<noteq> (cursor c + i) mod 2000) \<longrightarrow> vga c' k = vga c k)"
proof -
  have "takeWhile (\<lambda>b. b \<noteq> 0) bs = bs"
    using assms(2) by (auto simp: takeWhile_eq_all_conv printable_def)
  then have "printStr bs c = run_ops printByte bs c" unfolding printStr_def by (rule arg_cong)
  then show ?thesis using run_printable [OF assms] by auto
qed

theorem console_text_witness:
  "\<exists>c'. printStr [72, 105] (init_console (\<lambda>_. 0)) = Inr c' \<and> cursor c' = 2"
proof -
  let ?c = "init_console (\<lambda>_. 0)"
  have "con_ok ?c" "\<forall>b \<in> set [72 :: u8, 105]. printable b" "length [72 :: u8, 105] \<le> 2000"
    by (simp_all add: con_ok_def init_console_def printable_def)
  from console_text [OF this] show ?thesis
    by (auto simp: cursor_def cell_index_def init_console_def)
qed

text \<open>
  A printable byte followed by a backspace leaves the cursor where it was, also at the last
  column of a line and of the screen, and blanks exactly the cell that was printed.
\<close>

theorem console_backspace_undo:
  assumes "con_ok c" "printable b"
  shows "run_ops printByte [b, 8] c = Inr (set_cell (con_y c) (con_x c) (attr c) c)"
  using backspace_after_printable [OF assms] by auto

theorem console_backspace_undo_witness:
  "run_ops printByte [65, 8] ((init_console (\<lambda>_. 0))\<lparr>con_x := 79, con_y := 24\<rparr>) =
     Inr (set_cell 24 79 (attr (init_console (\<lambda>_. 0)))
       ((init_console (\<lambda>_. 0))\<lparr>con_x := 79, con_y := 24\<rparr>))"
proof -
  let ?c = "(init_console (\<lambda>_. 0))\<lparr>con_x := 79, con_y := 24\<rparr>"
  have "con_ok ?c" "printable 65" by (simp_all add: con_ok_def init_console_def printable_def)
  from console_backspace_undo [OF this] show ?thesis by (simp add: attr_def)
qed

text \<open>
  Backspace at the start of a line below a blank line does not stop at the start of that
  line when the cell 175 places behind the cursor is in use: it erases that cell, and the cursor
  stays.
\<close>

theorem console_backspace_stray_erase:
  assumes "con_ok c" "con_x c = 0" "con_y c \<noteq> 0"
    and "\<forall>x < 80. is_blank c (con_y c - 1) x" "\<not> is_blank c (con_y c - 1) 255"
  shows "\<exists>c'. printByte 8 c = Inr c' \<and> cursor c' = cursor c \<and>
           vga c' = (vga c)(cursor c + 175 := attr c)"
proof -
  have "unat (con_y c - 1) = unat (con_y c) - 1" "unat (con_y c) \<noteq> 0"
    using assms(3) by (simp_all add: unat_minus_one unat_eq_zero)
  then have "cell_index (con_y c - 1) 255 = cursor c + 175"
    using assms(2) by (simp add: cell_index_def cursor_def)
  then show ?thesis using backspace_blank_line [OF assms(1-4)] assms(5)
    by (simp add: cursor_def)
qed

theorem console_backspace_stray_erase_witness:
  "\<exists>c'. printByte 8 ((init_console ((\<lambda>_. 0)(255 := 0x0f41)))\<lparr>con_y := 1\<rparr>) = Inr c' \<and>
     cursor c' = 80 \<and> vga c' 255 = 0x0f00"
proof -
  let ?c = "(init_console ((\<lambda>_. 0)(255 := 0x0f41)))\<lparr>con_y := 1\<rparr>"
  have "con_ok ?c" "con_x ?c = 0" "con_y ?c \<noteq> 0" "\<not> is_blank ?c (con_y ?c - 1) 255"
    by (simp_all add: con_ok_def init_console_def is_blank_def cell_index_def)
  moreover have "\<forall>x < 80. is_blank ?c (con_y ?c - 1) x"
    by (auto simp: init_console_def is_blank_def cell_index_def word_less_nat_alt)
  ultimately show ?thesis using console_backspace_stray_erase [of ?c]
    by (auto simp: cursor_def cell_index_def attr_def init_console_def)
qed

text \<open>
  \<open>printInt\<close> prints the sign and the decimal digits of its argument, which fit its buffer of
  ten digits, and \<open>printHex\<close> prints \<open>0x\<close> and the hexadecimal digits, which fit its buffer of
  sixteen; reading the digits back gives the number. Only the least \<open>int\<close>, which C cannot negate,
  is excluded.
\<close>

theorem console_numbers_readable:
  assumes "con_ok c"
  shows "(sint i \<noteq> - (2 ^ 31) \<longrightarrow>
            (\<exists>ds. printInt i c = run_ops printByte ((if sint i < 0 then [45] else []) @ ds) c \<and>
               int (dec_value ds) = \<bar>sint i\<bar> \<and> (\<forall>d \<in> set ds. is_digit d) \<and>
               0 < length ds \<and> length ds \<le> 10)) \<and>
         (\<exists>ds. printHex h c = run_ops printByte ([48, 120] @ ds) c \<and>
            hex_value ds = unat h \<and> set ds \<subseteq> set hex_repr \<and> 0 < length ds \<and> length ds \<le> 16)"
proof (intro conjI impI)
  assume ne: "sint i \<noteq> - (2 ^ 31)"
  let ?n = "nat \<bar>sint i\<bar>"
  have "- (2 ^ 31) \<le> sint i" "sint i < 2 ^ 31"
    using sint_ge [of i] sint_lt [of i] by simp_all
  then have "?n < 10 ^ 10" by simp
  with dec_digits_spec [of ?n "[]"] obtain ds where
    ds: "dec_digits ?n [] = ds" "dec_value ds = ?n" "\<forall>d \<in> set ds. is_digit d" "ds \<noteq> []"
      "length ds \<le> 10" by fastforce
  have "printInt i c = run_ops printByte ((if sint i < 0 then [45] else []) @ ds) c"
    using ne ds(1) by (cases "sint i < 0") (auto simp: printInt_def abs_of_neg)
  then show "\<exists>ds. printInt i c = run_ops printByte ((if sint i < 0 then [45] else []) @ ds) c \<and>
      int (dec_value ds) = \<bar>sint i\<bar> \<and> (\<forall>d \<in> set ds. is_digit d) \<and> 0 < length ds \<and> length ds \<le> 10"
    using ds by (intro exI [of _ ds]) auto
next
  have "unat h < 16 ^ 16" using unat_lt2p [of h] by simp
  with hex_digits_spec [of h "[]"] obtain ds where
    ds: "hex_digits h [] = ds" "hex_value ds = unat h" "set ds \<subseteq> set hex_repr" "ds \<noteq> []"
      "length ds \<le> 16" by fastforce
  have "printHex h c = run_ops printByte ([48, 120] @ ds) c"
    unfolding printHex_def printStr_def run_ops_append ds(1) by simp
  then show "\<exists>ds. printHex h c = run_ops printByte ([48, 120] @ ds) c \<and> hex_value ds = unat h \<and>
      set ds \<subseteq> set hex_repr \<and> 0 < length ds \<and> length ds \<le> 16"
    using ds by (intro exI [of _ ds]) auto
qed

theorem console_numbers_readable_witness:
  "\<exists>ds. printInt (- 42) (init_console (\<lambda>_. 0)) =
          run_ops printByte ([45] @ ds) (init_console (\<lambda>_. 0)) \<and> dec_value ds = 42"
proof -
  have "con_ok (init_console (\<lambda>_. 0))" by (simp add: con_ok_def init_console_def)
  from console_numbers_readable [OF this, of "- 42" 0] show ?thesis by auto
qed

text \<open>
  \<open>kprintln\<close> does not pass its variadic arguments on: whatever arguments it is given, a
  format string whose first directive reads an argument makes it read one that was not passed.
\<close>

theorem kprintln_drops_arguments:
  assumes "con_ok c" "CHR ''%'' \<notin> set pre" "reads_arg d"
  shows "kprintln (pre @ [CHR ''%'', d] @ post) args c = Inl MissingVaArg"
  using assms by (rule kprintln_missing)

theorem kprintln_drops_arguments_witness:
  "kprintln ''pml4 addr: %x'' [VU64 0x1000] (init_console (\<lambda>_. 0)) = Inl MissingVaArg"
proof -
  have "con_ok (init_console (\<lambda>_. 0))" "CHR ''%'' \<notin> set ''pml4 addr: ''" "reads_arg CHR ''x''"
    by (simp_all add: con_ok_def init_console_def reads_arg_def)
  from kprintln_drops_arguments [OF this, of "[]" "[VU64 0x1000]"] show ?thesis by simp
qed

text \<open>
  Clearing a console of the standard size fills the 2000 cells of the screen with blanks of
  the current colour, touches no memory behind them and homes the cursor.
\<close>

theorem kclear_screen_clears:
  assumes "con_ok c"
  shows "(\<forall>k. vga (kclear_screen c) k = (if k < 2000 then attr c else vga c k)) \<and>
    cursor (kclear_screen c) = 0 \<and> con_ok (kclear_screen c)"
  using assms kclear_screen_result [of c] by (simp_all add: con_ok_def cursor_def cell_index_def)

theorem kclear_screen_clears_witness:
  "vga (kclear_screen (init_console (\<lambda>_. 7))) 1999 = 0x0f00 \<and>
   vga (kclear_screen (init_console (\<lambda>_. 7))) 2000 = 7"
proof -
  have "con_ok (init_console (\<lambda>_. 7))" by (simp add: con_ok_def init_console_def)
  from kclear_screen_clears [OF this] show ?thesis by (simp add: attr_def init_console_def)
qed

end
