(* ===== verification/Acpi.thy ===== *)
theory Acpi
  imports Memory Console
begin

text \<open>
  The firmware tables: \<open>src/src/boot/acpi.c\<close> and \<open>acpi.h\<close>, and the walk over the entries of the MADT that
  \<open>src/src/interrupt/apic/apic.c\<close> and \<open>ioapic.c\<close> share. The tables are a read-only byte memory \<open>fw\<close>; the debug
  lines are left out.
\<close>

section \<open>Reading packed structures\<close>

definition rd16 :: "(u64 \<Rightarrow> u8) \<Rightarrow> u64 \<Rightarrow> u16" where
  "rd16 fw a = ucast (fw a) OR push_bit 8 (ucast (fw (a + 1)))"

definition rd32 :: "(u64 \<Rightarrow> u8) \<Rightarrow> u64 \<Rightarrow> u32" where
  "rd32 fw a = ucast (rd16 fw a) OR push_bit 16 (ucast (rd16 fw (a + 2)))"

definition rd64 :: "(u64 \<Rightarrow> u8) \<Rightarrow> u64 \<Rightarrow> u64" where
  "rd64 fw a = ucast (rd32 fw a) OR push_bit 32 (ucast (rd32 fw (a + 4)))"

text \<open>Fields, by their offset in the packed structures.\<close>

definition sdt_Length :: "(u64 \<Rightarrow> u8) \<Rightarrow> u64 \<Rightarrow> u32" where
  "sdt_Length fw sdt = rd32 fw (sdt + 4)"

abbreviation (input) sdt_header_size :: u64 where "sdt_header_size \<equiv> 36"

definition rsdt_otherSDT :: "(u64 \<Rightarrow> u8) \<Rightarrow> u64 \<Rightarrow> u64 \<Rightarrow> u64" where
  "rsdt_otherSDT fw rsdt i = ucast (rd32 fw (rsdt + sdt_header_size + 4 * i))"

definition xsdt_otherSDT :: "(u64 \<Rightarrow> u8) \<Rightarrow> u64 \<Rightarrow> u64 \<Rightarrow> u64" where
  "xsdt_otherSDT fw xsdt i = rd64 fw (xsdt + sdt_header_size + 8 * i)"

definition xsdp_Revision :: "(u64 \<Rightarrow> u8) \<Rightarrow> u64 \<Rightarrow> u8" where
  "xsdp_Revision fw xsdp = fw (xsdp + 15)"

definition xsdp_RsdtAddress :: "(u64 \<Rightarrow> u8) \<Rightarrow> u64 \<Rightarrow> u32" where
  "xsdp_RsdtAddress fw xsdp = rd32 fw (xsdp + 16)"

definition xsdp_XsdtAddress :: "(u64 \<Rightarrow> u8) \<Rightarrow> u64 \<Rightarrow> u64" where
  "xsdp_XsdtAddress fw xsdp = rd64 fw (xsdp + 24)"

section \<open>Finding the tables\<close>

text \<open>The static variables; 0 is the null pointer.\<close>

record acpi =
  xsdp_detected :: bool
  s_xsdp :: u64
  s_madt :: u64
  s_fadt :: u64

definition zero_acpi :: acpi where
  "zero_acpi = \<lparr>xsdp_detected = False, s_xsdp = 0, s_madt = 0, s_fadt = 0\<rparr>"

definition get_madt :: "acpi \<Rightarrow> u64" where
  "get_madt s = s_madt s"

definition get_fadt :: "acpi \<Rightarrow> u64" where
  "get_fadt s = s_fadt s"

definition map_sdt :: "(u64 \<Rightarrow> u8) \<Rightarrow> u64 \<Rightarrow> mm \<Rightarrow> mm" where
  "map_sdt fw sdt m =
     fold (\<lambda>i. map_frame (to_page (sdt + ucast (of_nat i * 4096 :: u32))) (to_frame (sdt + ucast (of_nat i * 4096 :: u32)))
         (Present OR Writeable))
       [1..<unat (sdt_Length fw sdt div 4096 + 1)]
       (map_frame (to_page sdt) (to_frame sdt) (Present OR Writeable) m)"

definition signature_cmp :: "(u64 \<Rightarrow> u8) \<Rightarrow> u64 \<Rightarrow> u8 list \<Rightarrow> bool" where
  "signature_cmp fw sdt target \<longleftrightarrow>
     fw sdt = target ! 0 \<and> fw (sdt + 1) = target ! 1 \<and> fw (sdt + 2) = target ! 2 \<and> fw (sdt + 3) = target ! 3"

definition visit_sdt :: "(u64 \<Rightarrow> u8) \<Rightarrow> u64 \<Rightarrow> acpi \<times> mm \<Rightarrow> acpi \<times> mm" where
  "visit_sdt fw header = (\<lambda>(s, m).
     let m = map_sdt fw header m;
         s = (if signature_cmp fw header (bytes_of ''APIC'') then s\<lparr>s_madt := header\<rparr> else s);
         s = (if signature_cmp fw header (bytes_of ''FACP'') then s\<lparr>s_fadt := header\<rparr> else s)
     in (s, m))"

definition init_with_rsdp :: "(u64 \<Rightarrow> u8) \<Rightarrow> u64 \<Rightarrow> acpi \<times> mm \<Rightarrow> acpi \<times> mm" where
  "init_with_rsdp fw root_rsdt = (\<lambda>(s, m).
     let m = map_sdt fw root_rsdt m;
         n = (ucast ((ucast (sdt_Length fw root_rsdt) - sdt_header_size) div 4) :: u32)
     in fold (\<lambda>i. visit_sdt fw (rsdt_otherSDT fw root_rsdt (of_nat i))) [0..<unat n] (s, m))"

definition init_with_xsdp :: "(u64 \<Rightarrow> u8) \<Rightarrow> u64 \<Rightarrow> acpi \<times> mm \<Rightarrow> acpi \<times> mm" where
  "init_with_xsdp fw root_xsdt = (\<lambda>(s, m).
     let m = map_sdt fw root_xsdt m;
         n = (ucast ((ucast (sdt_Length fw root_xsdt) - sdt_header_size) div 8) :: u32)
     in fold (\<lambda>i. visit_sdt fw (xsdt_otherSDT fw root_xsdt (of_nat i))) [0..<unat n] (s, m))"

definition init_acpi :: "(u64 \<Rightarrow> u8) \<Rightarrow> u64 \<Rightarrow> acpi \<times> mm \<Rightarrow> acpi \<times> mm" where
  "init_acpi fw rsdp = (\<lambda>(s, m).
     let s = s\<lparr>s_xsdp := rsdp\<rparr>
     in if xsdp_Revision fw rsdp \<noteq> 0 then
          init_with_xsdp fw (xsdp_XsdtAddress fw rsdp) (s\<lparr>xsdp_detected := True\<rparr>, m)
        else init_with_rsdp fw (ucast (xsdp_RsdtAddress fw rsdp)) (s, m))"

section \<open>The entries of the MADT\<close>

abbreviation (input) MADT_ENTRY_APIC :: u8 where "MADT_ENTRY_APIC \<equiv> 0"
abbreviation (input) MADT_ENTRY_IOAPIC :: u8 where "MADT_ENTRY_IOAPIC \<equiv> 1"
abbreviation (input) MADT_ENTRY_INT_SRC_OVERRIDE :: u8 where "MADT_ENTRY_INT_SRC_OVERRIDE \<equiv> 2"

text \<open>Header, two words, then the entries; each starts with its type and its length.\<close>

definition madt_entries :: "u64 \<Rightarrow> u64" where
  "madt_entries madt = madt + 44"

definition entries_size :: "(u64 \<Rightarrow> u8) \<Rightarrow> u64 \<Rightarrow> u32" where
  "entries_size fw madt = ucast (ucast (sdt_Length fw madt) - (madt_entries madt - madt))"

text \<open>
  The loop of \<open>show_local_apics\<close>, \<open>init_overrides\<close> and \<open>get_io_apics\<close>: \<open>visit\<close> is the loop body, given the type and
  the address of the entry. \<open>None\<close>: the loop does not end.
\<close>

partial_function (option) madt_loop ::
    "(u64 \<Rightarrow> u8) \<Rightarrow> u64 \<Rightarrow> u32 \<Rightarrow> (u8 \<Rightarrow> u64 \<Rightarrow> 's \<Rightarrow> fault + 's) \<Rightarrow> u32 \<Rightarrow> 's \<Rightarrow> (fault + 's) option" where
  "madt_loop fw start limit visit entry_idx s =
     (if entry_idx < limit then
        (case visit (fw (start + ucast entry_idx)) (start + ucast entry_idx) s of
           Inl e \<Rightarrow> Some (Inl e)
         | Inr s' \<Rightarrow> madt_loop fw start limit visit
             (entry_idx + ucast (fw (start + ucast (entry_idx + 1)))) s')
      else Some (Inr s))"

definition madt_walk :: "(u64 \<Rightarrow> u8) \<Rightarrow> u64 \<Rightarrow> (u8 \<Rightarrow> u64 \<Rightarrow> 's \<Rightarrow> fault + 's) \<Rightarrow> 's \<Rightarrow> (fault + 's) option" where
  "madt_walk fw madt visit s = madt_loop fw (madt_entries madt) (entries_size fw madt - 1) visit 0 s"

section \<open>The tables that are found\<close>

lemma visit_sdt_tables:
  "s_madt (fst (visit_sdt fw p sm)) = (if signature_cmp fw p (bytes_of ''APIC'') then p else s_madt (fst sm))"
  "s_fadt (fst (visit_sdt fw p sm)) = (if signature_cmp fw p (bytes_of ''FACP'') then p else s_fadt (fst sm))"
  by (simp_all add: visit_sdt_def Let_def split: prod.splits)

definition last_table :: "(u64 \<Rightarrow> u8) \<Rightarrow> string \<Rightarrow> u64 list \<Rightarrow> u64" where
  "last_table fw sig ps = last (0 # filter (\<lambda>p. signature_cmp fw p (bytes_of sig)) ps)"

lemma fold_visit_sdt:
  "s_madt (fst (fold (visit_sdt fw) ps sm)) =
     last (s_madt (fst sm) # filter (\<lambda>p. signature_cmp fw p (bytes_of ''APIC'')) ps)"
  "s_fadt (fst (fold (visit_sdt fw) ps sm)) =
     last (s_fadt (fst sm) # filter (\<lambda>p. signature_cmp fw p (bytes_of ''FACP'')) ps)"
  by (induction ps arbitrary: sm) (simp_all add: visit_sdt_tables)

text \<open>A root table at \<open>root\<close> that lists \<open>ps\<close>, with entries of \<open>w\<close> bytes read by \<open>rd\<close>.\<close>

definition root_table :: "(u64 \<Rightarrow> u8) \<Rightarrow> (u64 \<Rightarrow> u64 \<Rightarrow> u64) \<Rightarrow> nat \<Rightarrow> u64 \<Rightarrow> u64 list \<Rightarrow> bool" where
  "root_table fw rd w root ps \<longleftrightarrow>
     36 + w * length ps < 2 ^ 32 \<and> sdt_Length fw root = of_nat (36 + w * length ps) \<and>
     (\<forall>i < length ps. rd root (of_nat i) = ps ! i)"

lemma root_entries:
  assumes "36 + w * n < 2 ^ 32" "w = 4 \<or> w = 8"
  shows "unat (ucast ((ucast (of_nat (36 + w * n) :: u32) - sdt_header_size) div of_nat w) :: u32) = n"
proof -
  have L: "unat (ucast (of_nat (36 + w * n) :: u32) :: u64) = 36 + w * n"
    using assms(1) by (simp add: unat_ucast_up unat_of_nat del: of_nat_add of_nat_mult)
  then have "unat (ucast (of_nat (36 + w * n) :: u32) - sdt_header_size) = w * n"
    by (simp add: unat_sub_if_size word_le_nat_alt del: of_nat_add of_nat_mult)
  then have d: "unat ((ucast (of_nat (36 + w * n) :: u32) - sdt_header_size) div of_nat w) = n"
    using assms(2) by (auto simp: unat_div simp del: of_nat_add of_nat_mult)
  have "n < 2 ^ 32" using assms by auto
  then show ?thesis by (simp only: unat_ucast_mod d) simp
qed

lemma init_with_rsdp_tables:
  assumes "root_table fw (rsdt_otherSDT fw) 4 root ps"
  shows "s_madt (fst (init_with_rsdp fw root (s, m))) =
      last (s_madt s # filter (\<lambda>p. signature_cmp fw p (bytes_of ''APIC'')) ps)"
    and "s_fadt (fst (init_with_rsdp fw root (s, m))) =
      last (s_fadt s # filter (\<lambda>p. signature_cmp fw p (bytes_of ''FACP'')) ps)"
proof -
  have ps: "map (\<lambda>i. rsdt_otherSDT fw root (of_nat i)) [0..<length ps] = ps"
    using assms by (auto simp: root_table_def intro: nth_equalityI)
  have n: "unat (ucast ((ucast (sdt_Length fw root) - sdt_header_size) div 4) :: u32) = length ps"
    using root_entries [of 4 "length ps"] assms by (simp add: root_table_def del: of_nat_add of_nat_mult)
  have "fold (\<lambda>i. visit_sdt fw (rsdt_otherSDT fw root (of_nat i))) [0..<length ps] =
      fold (visit_sdt fw) (map (\<lambda>i. rsdt_otherSDT fw root (of_nat i)) [0..<length ps])"
    by (simp add: fold_map comp_def)
  then have "init_with_rsdp fw root (s, m) = fold (visit_sdt fw) ps (s, map_sdt fw root m)"
    by (simp only: init_with_rsdp_def Let_def prod.case n ps)
  then show "s_madt (fst (init_with_rsdp fw root (s, m))) =
      last (s_madt s # filter (\<lambda>p. signature_cmp fw p (bytes_of ''APIC'')) ps)"
    "s_fadt (fst (init_with_rsdp fw root (s, m))) =
      last (s_fadt s # filter (\<lambda>p. signature_cmp fw p (bytes_of ''FACP'')) ps)"
    by (simp_all add: fold_visit_sdt)
qed

lemma init_with_xsdp_tables:
  assumes "root_table fw (xsdt_otherSDT fw) 8 root ps"
  shows "s_madt (fst (init_with_xsdp fw root (s, m))) =
      last (s_madt s # filter (\<lambda>p. signature_cmp fw p (bytes_of ''APIC'')) ps)"
    and "s_fadt (fst (init_with_xsdp fw root (s, m))) =
      last (s_fadt s # filter (\<lambda>p. signature_cmp fw p (bytes_of ''FACP'')) ps)"
proof -
  have ps: "map (\<lambda>i. xsdt_otherSDT fw root (of_nat i)) [0..<length ps] = ps"
    using assms by (auto simp: root_table_def intro: nth_equalityI)
  have n: "unat (ucast ((ucast (sdt_Length fw root) - sdt_header_size) div 8) :: u32) = length ps"
    using root_entries [of 8 "length ps"] assms by (simp add: root_table_def del: of_nat_add of_nat_mult)
  have "fold (\<lambda>i. visit_sdt fw (xsdt_otherSDT fw root (of_nat i))) [0..<length ps] =
      fold (visit_sdt fw) (map (\<lambda>i. xsdt_otherSDT fw root (of_nat i)) [0..<length ps])"
    by (simp add: fold_map comp_def)
  then have "init_with_xsdp fw root (s, m) = fold (visit_sdt fw) ps (s, map_sdt fw root m)"
    by (simp only: init_with_xsdp_def Let_def prod.case n ps)
  then show "s_madt (fst (init_with_xsdp fw root (s, m))) =
      last (s_madt s # filter (\<lambda>p. signature_cmp fw p (bytes_of ''APIC'')) ps)"
    "s_fadt (fst (init_with_xsdp fw root (s, m))) =
      last (s_fadt s # filter (\<lambda>p. signature_cmp fw p (bytes_of ''FACP'')) ps)"
    by (simp_all add: fold_visit_sdt)
qed

text \<open>A table of less than a page is mapped by the page of its first byte, also when it crosses into the next one.\<close>

lemma map_sdt_short:
  assumes "sdt_Length fw sdt < 4096"
  shows "map_sdt fw sdt m = map_frame (to_page sdt) (to_frame sdt) (Present OR Writeable) m"
proof -
  have "unat (sdt_Length fw sdt div 4096) = 0"
    using assms by (simp add: unat_div word_less_nat_alt)
  then have "sdt_Length fw sdt div 4096 = 0" by (simp add: unat_eq_zero)
  then show ?thesis by (simp add: map_sdt_def)
qed

section \<open>Walking the MADT\<close>

definition wf_entry :: "u8 list \<Rightarrow> bool" where
  "wf_entry e \<longleftrightarrow> 2 \<le> length e \<and> length e < 256 \<and> e ! 1 = of_nat (length e)"

fun entry_offsets :: "nat \<Rightarrow> u8 list list \<Rightarrow> (nat \<times> u8 list) list" where
  "entry_offsets p [] = []"
| "entry_offsets p (e # es) = (p, e) # entry_offsets (p + length e) es"

definition bytes_at :: "(u64 \<Rightarrow> u8) \<Rightarrow> u64 \<Rightarrow> u8 list \<Rightarrow> bool" where
  "bytes_at fw a bs \<longleftrightarrow> (\<forall>k < length bs. fw (a + of_nat k) = bs ! k)"

lemma bytes_at_append:
  "bytes_at fw a (xs @ ys) \<longleftrightarrow> bytes_at fw a xs \<and> bytes_at fw (a + of_nat (length xs)) ys"
proof -
  have "(\<forall>k < length xs + length ys. fw (a + of_nat k) = (xs @ ys) ! k) \<longleftrightarrow>
      (\<forall>k < length xs. fw (a + of_nat k) = xs ! k) \<and>
      (\<forall>k < length ys. fw (a + of_nat (length xs) + of_nat k) = ys ! k)"
    (is "?all \<longleftrightarrow> ?xs \<and> ?ys")
  proof
    assume all: ?all
    have ?xs using all by (auto simp: nth_append dest: spec)
    moreover have ?ys
    proof (intro allI impI)
      fix k assume "k < length ys"
      then show "fw (a + of_nat (length xs) + of_nat k) = ys ! k"
        using all [rule_format, of "length xs + k"] by (simp add: add.assoc)
    qed
    ultimately show "?xs \<and> ?ys" ..
  next
    assume both: "?xs \<and> ?ys"
    show ?all
    proof (intro allI impI)
      fix k assume k: "k < length xs + length ys"
      show "fw (a + of_nat k) = (xs @ ys) ! k"
      proof (cases "k < length xs")
        case True
        then show ?thesis using both by (simp add: nth_append)
      next
        case False
        then obtain j where "k = length xs + j" using le_Suc_ex not_less by blast
        then show ?thesis using both k by (simp add: add.assoc)
      qed
    qed
  qed
  then show ?thesis by (simp add: bytes_at_def)
qed

lemma unat_of_nat32: "n < 2 ^ 32 \<Longrightarrow> unat (of_nat n :: u32) = n"
  by (simp add: unat_of_nat)

lemma ucast_of_nat32: "n < 2 ^ 32 \<Longrightarrow> (ucast (of_nat n :: u32) :: u64) = of_nat n"
  by (simp add: word_unat_eq_iff unat_ucast_up unat_of_nat)

text \<open>The entries from position \<open>p\<close> on, up to the end of the table.\<close>

lemma madt_loop_entries:
  assumes "bytes_at fw (start + of_nat p) (concat es)" "\<forall>e \<in> set es. wf_entry e"
    "p + length (concat es) = Suc n" "Suc n < 2 ^ 32"
  shows "madt_loop fw start (of_nat n) visit (of_nat p) s =
    Some (run_ops (\<lambda>(off, e). visit (e ! 0) (start + of_nat off)) (entry_offsets p es) s)"
  using assms
proof (induction es arbitrary: p s)
  case Nil
  then have "\<not> (of_nat p :: u32) < of_nat n" by (simp add: word_less_nat_alt unat_of_nat32 del: of_nat_Suc)
  then show ?case by (simp add: madt_loop.simps)
next
  case (Cons e es)
  have wf: "2 \<le> length e" "length e < 256" "e ! 1 = of_nat (length e)"
    using Cons.prems(2) by (simp_all add: wf_entry_def)
  have lt: "(of_nat p :: u32) < of_nat n"
    using Cons.prems(3,4) wf by (simp add: word_less_nat_alt unat_of_nat32)
  have e: "bytes_at fw (start + of_nat p) e"
    and rest: "bytes_at fw (start + of_nat (p + length e)) (concat es)"
    using Cons.prems(1) by (simp_all add: bytes_at_append add.assoc)
  have p: "p < 2 ^ 32" "p + 1 < 2 ^ 32" using Cons.prems(3,4) wf by simp_all
  have "e \<noteq> []" using wf by auto
  then have at0: "fw (start + ucast (of_nat p :: u32)) = e ! 0"
    using e [unfolded bytes_at_def, rule_format, of 0] p by (simp add: ucast_of_nat32)
  have "(of_nat p + 1 :: u32) = of_nat (p + 1)" by simp
  then have at1: "fw (start + ucast (of_nat p + 1 :: u32)) = of_nat (length e)"
    using e [unfolded bytes_at_def, rule_format, of 1] wf p
    by (simp only: ucast_of_nat32) (simp add: ac_simps)
  have "(ucast (of_nat (length e) :: u8) :: u32) = of_nat (length e)"
    using wf by (simp add: word_unat_eq_iff unat_ucast_up unat_of_nat)
  then have step: "of_nat p + ucast (fw (start + ucast (of_nat p + 1 :: u32))) = (of_nat (p + length e) :: u32)"
    by (simp add: at1)
  have IH: "madt_loop fw start (of_nat n) visit (of_nat (p + length e)) s' =
      Some (run_ops (\<lambda>(off, e). visit (e ! 0) (start + of_nat off)) (entry_offsets (p + length e) es) s')" for s'
    using Cons.prems rest by (intro Cons.IH) auto
  show ?case
    by (subst madt_loop.simps)
      (simp add: lt at0 [unfolded ucast_of_nat32 [OF p(1)]] step IH ucast_of_nat32 [OF p(1)] del: of_nat_add split: sum.splits)
qed

text \<open>An entry of length 0 is visited again and again.\<close>

lemma madt_loop_stuck:
  assumes "fw (start + ucast (idx + 1)) = 0" "idx < limit"
    and vis: "\<And>s. \<exists>s'. visit (fw (start + ucast idx)) (start + ucast idx) s = Inr s'"
  shows "madt_loop fw start limit visit idx s = None"
proof (rule ccontr)
  assume "madt_loop fw start limit visit idx s \<noteq> None"
  then obtain r where r: "madt_loop fw start limit visit idx s = Some r" by blast
  let ?P = "\<lambda>f a l v i s r. (f = fw \<and> a = start \<and> l = limit \<and> v = visit \<and> i = idx) \<longrightarrow> False"
  have "?P fw start limit visit idx s r"
  proof (rule madt_loop.raw_induct [where P = ?P, OF _ r])
    fix F f a l v i s r
    assume IH: "\<And>f a l v i s r. F f a l v i s = Some r \<Longrightarrow> ?P f a l v i s r"
      and eq: "(if i < l then
        (case v (f (a + ucast i)) (a + ucast i) s of
           Inl e \<Rightarrow> Some (Inl e)
         | Inr s' \<Rightarrow> F f a l v (i + ucast (f (a + ucast (i + 1)))) s')
      else Some (Inr s)) = Some r"
    show "?P f a l v i s r"
    proof
      assume *: "f = fw \<and> a = start \<and> l = limit \<and> v = visit \<and> i = idx"
      then obtain s' where "v (f (a + ucast i)) (a + ucast i) s = Inr s'" using vis by blast
      then have "F fw start limit visit idx s' = Some r" using eq assms(1,2) * by simp
      from IH [OF this] show False by simp
    qed
  qed
  then show False by simp
qed

section \<open>A firmware\<close>

text \<open>
  A root pointer of revision 2, a root table with a FADT and a MADT. The MADT lists a local APIC, an
  IO APIC at 0xfec00000 and two overrides: interrupt 0 is at input 2, interrupt 9 at input 9.
\<close>

fun place :: "(u64 \<times> u8 list) list \<Rightarrow> u64 \<Rightarrow> u8" where
  "place [] a = 0"
| "place ((b, bs) # r) a = (if a - b < of_nat (length bs) then bs ! unat (a - b) else place r a)"

definition sample_entries :: "u8 list list" where
  "sample_entries =
     [[0, 8, 0, 0, 1, 0, 0, 0],
      [1, 12, 2, 0, 0x00, 0x00, 0xc0, 0xfe, 0, 0, 0, 0],
      [2, 10, 0, 0, 2, 0, 0, 0, 0, 0],
      [2, 10, 0, 9, 9, 0, 0, 0, 0x0f, 0]]"

definition sample_fw :: "u64 \<Rightarrow> u8" where
  "sample_fw = place
     [(0xe0000, bytes_of ''RSD PTR '' @ [0] @ bytes_of ''OEMOEM'' @ [2] @ [0, 0, 0, 0] @ [36, 0, 0, 0] @
        [0x00, 0x00, 0x10, 0, 0, 0, 0, 0] @ [0, 0, 0, 0]),
      (0x100000, bytes_of ''XSDT'' @ [52, 0, 0, 0] @ replicate 28 0 @
        [0x00, 0x20, 0x10, 0, 0, 0, 0, 0] @ [0x00, 0x10, 0x10, 0, 0, 0, 0, 0]),
      (0x101000, bytes_of ''APIC'' @ [84, 0, 0, 0] @ replicate 28 0 @ [0, 0, 0xe0, 0xfe] @ [1, 0, 0, 0] @
        concat sample_entries),
      (0x102000, bytes_of ''FACP'' @ [36, 0, 0, 0] @ replicate 28 0)]"

lemma sample_fw_root:
  "root_table sample_fw (xsdt_otherSDT sample_fw) 8 0x100000 [0x102000, 0x101000]"
proof -
  have e: "xsdt_otherSDT sample_fw 0x100000 0 = 0x102000" "xsdt_otherSDT sample_fw 0x100000 1 = 0x101000"
    "sdt_Length sample_fw 0x100000 = 52" by code_simp+
  have "xsdt_otherSDT sample_fw 0x100000 (of_nat i) = [0x102000, 0x101000] ! i" if "i < 2" for i
    using that e(1,2) by (cases i) (auto simp: less_Suc_eq)
  then show ?thesis using e(3) by (simp add: root_table_def)
qed

lemma sample_fw_eval:
  "xsdp_Revision sample_fw 0xe0000 = 2" "xsdp_XsdtAddress sample_fw 0xe0000 = 0x100000"
  "last_table sample_fw ''APIC'' [0x102000, 0x101000] = 0x101000"
  "last_table sample_fw ''FACP'' [0x102000, 0x101000] = 0x102000"
  "entries_size sample_fw 0x101000 = 40"
  by code_simp+

lemma sample_fw_entries: "bytes_at sample_fw (madt_entries 0x101000) (concat sample_entries)"
proof -
  have "map (\<lambda>k. sample_fw (madt_entries 0x101000 + of_nat k)) [0..<40] = concat sample_entries"
    by code_simp
  moreover have "length (concat sample_entries) = 40" by code_simp
  ultimately show ?thesis
    by (auto simp: bytes_at_def list_eq_iff_nth_eq)
qed

section \<open>Properties\<close>

text \<open>C30:
  After \<open>init_acpi\<close> the pointers to the MADT and the FADT are those of the last tables with their
  signature that the root table lists, or null when it lists none; a revision other than 0 selects the
  root table with 64-bit entries.
\<close>

theorem init_acpi_finds_tables:
  assumes "if xsdp_Revision fw rsdp \<noteq> 0
    then root_table fw (xsdt_otherSDT fw) 8 (xsdp_XsdtAddress fw rsdp) ps
    else root_table fw (rsdt_otherSDT fw) 4 (ucast (xsdp_RsdtAddress fw rsdp)) ps"
  shows "get_madt (fst (init_acpi fw rsdp (zero_acpi, m))) = last_table fw ''APIC'' ps \<and>
    get_fadt (fst (init_acpi fw rsdp (zero_acpi, m))) = last_table fw ''FACP'' ps"
  using assms init_with_xsdp_tables [of fw "xsdp_XsdtAddress fw rsdp" ps]
    init_with_rsdp_tables [of fw "ucast (xsdp_RsdtAddress fw rsdp)" ps]
  by (simp add: get_madt_def get_fadt_def init_acpi_def Let_def zero_acpi_def last_table_def split: if_splits)

theorem init_acpi_finds_tables_witness:
  "get_madt (fst (init_acpi sample_fw 0xe0000 (zero_acpi, sample))) = 0x101000"
  using init_acpi_finds_tables [of sample_fw "0xe0000" "[0x102000, 0x101000]" sample] sample_fw_root
  by (simp add: sample_fw_eval)

text \<open>C11:
  The walk over a MADT whose entries fill it exactly ends after visiting each entry once, in order, or
  with the fault of the first visit that faults.
\<close>

theorem madt_walk_ends:
  assumes "bytes_at fw (madt_entries madt) (concat es)" "es \<noteq> []" "\<forall>e \<in> set es. wf_entry e"
    and "unat (entries_size fw madt) = length (concat es)"
  shows "madt_walk fw madt visit s =
    Some (run_ops (\<lambda>(off, e). visit (e ! 0) (madt_entries madt + of_nat off)) (entry_offsets 0 es) s)"
proof -
  obtain e es' where es: "es = e # es'" using assms(2) by (cases es) auto
  then have "0 < length (concat es)" using assms(3) by (auto simp: wf_entry_def)
  then obtain n where n: "length (concat es) = Suc n" using gr0_implies_Suc by blast
  have lt: "Suc n < 2 ^ 32" using unat_lt2p [of "entries_size fw madt"] assms(4) n by simp
  have "entries_size fw madt \<noteq> 0" using assms(4) n by auto
  then have "entries_size fw madt - 1 = of_nat n"
    using assms(4) n by (simp add: word_unat_eq_iff unat_pred unat_of_nat32 [OF Suc_lessD [OF lt]])
  then show ?thesis
    using madt_loop_entries [of fw "madt_entries madt" 0 es n visit s] assms(1,3) n lt
    by (simp add: madt_walk_def)
qed

theorem madt_walk_ends_witness:
  "madt_walk sample_fw 0x101000 (\<lambda>t a xs. Inr (xs @ [(t, a)])) [] =
     Some (Inr [(0, 0x10102c), (1, 0x101034), (2, 0x101040), (2, 0x10104a)])"
proof -
  have "\<forall>e \<in> set sample_entries. wf_entry e" by (simp add: sample_entries_def wf_entry_def)
  moreover have "sample_entries \<noteq> []" by (simp add: sample_entries_def)
  moreover have "unat (entries_size sample_fw 0x101000) = length (concat sample_entries)"
    by (simp add: sample_fw_eval sample_entries_def)
  ultimately show ?thesis
    using madt_walk_ends [OF sample_fw_entries, of "\<lambda>t a xs. Inr (xs @ [(t, a)])" "[]"]
    by (simp add: sample_entries_def madt_entries_def)
qed

text \<open>
  An entry of length 0 that the loop bodies accept makes the walk go round at this entry for ever: the
  kernel hangs at its start.
\<close>

theorem madt_walk_zero_length_hangs:
  assumes "0 < entries_size fw madt - 1" "fw (madt_entries madt + 1) = 0"
    and "\<And>s. \<exists>s'. visit (fw (madt_entries madt)) (madt_entries madt) s = Inr s'"
  shows "madt_walk fw madt visit s = None"
  using madt_loop_stuck [of fw "madt_entries madt" 0 "entries_size fw madt - 1" visit s] assms
  by (simp add: madt_walk_def)

theorem madt_walk_zero_length_hangs_witness:
  "madt_walk (sample_fw(0x10102d := 0)) 0x101000 (\<lambda>t a n. Inr (Suc n)) 0 = None"
proof (rule madt_walk_zero_length_hangs)
  show "0 < entries_size (sample_fw(0x10102d := 0)) 0x101000 - 1" by code_simp
  show "(sample_fw(0x10102d := 0)) (madt_entries 0x101000 + 1) = 0" by (simp add: madt_entries_def)
qed simp

end
