(* ===== verification/Pci.thy ===== *)
theory Pci
  imports Hardware
begin

text \<open>
  PCI configuration space and device enumeration: \<open>src/src/pci/pci.c\<close> and \<open>pci.h\<close>. The error and debug lines
  it prints are left out.
\<close>

section \<open>Data\<close>

record pci_dev =
  dev_bus :: u8
  dev_slot :: u8
  dev_func :: u8
  dev_class :: u8
  dev_subclass :: u8
  dev_prog_if :: u8

record pci_bar =
  bar_base :: u64
  bar_size :: u64
  is_64bits :: bool
  is_prefetchable :: bool
  is_mmio :: bool

text \<open>\<open>pci_devs\<close> holds the first \<open>pci_devs_len\<close> entries of the static array of \<open>MAX_PCI_DEVICES\<close> entries.\<close>

record 'h pci =
  pci_hw :: 'h
  pci_devs :: "pci_dev list"

definition MAX_PCI_DEVICES :: nat where
  "MAX_PCI_DEVICES = 256 * 32"

definition get_pci_devs :: "'h pci \<Rightarrow> pci_dev list" where
  "get_pci_devs s = pci_devs s"

definition get_pci_devs_len :: "'h pci \<Rightarrow> nat" where
  "get_pci_devs_len s = length (pci_devs s)"

section \<open>Configuration registers\<close>

definition config_addr :: "u8 \<Rightarrow> u8 \<Rightarrow> u8 \<Rightarrow> u8 \<Rightarrow> u32" where
  "config_addr bus slot func offset =
     push_bit 16 (ucast bus) OR push_bit 11 (ucast slot) OR push_bit 8 (ucast func) OR
     push_bit 31 1 OR ucast (offset AND 0xfc)"

definition pci_readd :: "'h hw \<Rightarrow> u8 \<Rightarrow> u8 \<Rightarrow> u8 \<Rightarrow> u8 \<Rightarrow> 'h \<Rightarrow> u32 \<times> 'h" where
  "pci_readd H bus slot func offset h =
     (case ind H 0xcfc (outd H 0xcf8 (config_addr bus slot func offset) h) of
        (v, h') \<Rightarrow> (drop_bit (unat (offset AND 2) * 8) v, h'))"

definition pci_readw :: "'h hw \<Rightarrow> u8 \<Rightarrow> u8 \<Rightarrow> u8 \<Rightarrow> u8 \<Rightarrow> 'h \<Rightarrow> u16 \<times> 'h" where
  "pci_readw H bus slot func offset h =
     (case pci_readd H bus slot func offset h of (v, h') \<Rightarrow> (ucast (v AND 0xffff), h'))"

definition pci_writed :: "'h hw \<Rightarrow> u8 \<Rightarrow> u8 \<Rightarrow> u8 \<Rightarrow> u8 \<Rightarrow> u32 \<Rightarrow> 'h \<Rightarrow> 'h" where
  "pci_writed H bus slot func offset val h =
     outd H (0xcfc + ucast (offset AND 3)) val (outd H 0xcf8 (config_addr bus slot func offset) h)"

section \<open>Base address registers\<close>

definition bar_offset :: "u8 \<Rightarrow> u8" where
  "bar_offset bar = 0x10 + bar * 4"

definition is_bar_present :: "'h hw \<Rightarrow> pci_dev \<Rightarrow> u8 \<Rightarrow> 'h \<Rightarrow> bool \<times> 'h" where
  "is_bar_present H dev bar h =
     (case pci_readd H (dev_bus dev) (dev_slot dev) (dev_func dev) (bar_offset bar) h of
        (v, h') \<Rightarrow> (v \<noteq> 0, h'))"

text \<open>The masks \<open>~0xf\<close> and \<open>~0xd\<close> are of type \<open>int\<close> and sign-extended to 64 bits.\<close>

definition get_bar :: "'h hw \<Rightarrow> pci_dev \<Rightarrow> u8 \<Rightarrow> 'h \<Rightarrow> pci_bar \<times> 'h" where
  "get_bar H dev bar h =
     (let rd = pci_readd H (dev_bus dev) (dev_slot dev) (dev_func dev);
          wr = pci_writed H (dev_bus dev) (dev_slot dev) (dev_func dev);
          offset = bar_offset bar;
          (base_low, h) = rd offset h;
          mmio = (base_low AND 1 = 0);
          prefetchable = (mmio \<and> base_low AND 8 \<noteq> 0);
          wide = (mmio \<and> base_low AND 6 = 2);
          (base_high, h) = (if wide then rd (offset + 4) h else (0, h));
          base = (push_bit 32 (ucast base_high) OR ucast base_low :: u64);
          base = (if mmio then base AND NOT 0xf else base AND NOT 0xd);
          h = wr offset (- 1) h;
          (size_low, h) = rd offset h;
          h = wr offset base_low h;
          (size_high, h) =
            (if wide then
               (let h = wr (offset + 4) (- 1) h;
                    (size_high, h) = rd (offset + 4) h
                in (size_high, wr (offset + 4) base_high h))
             else (- 1, h));
          sz = (push_bit 32 (ucast size_high) OR ucast size_low :: u64);
          sz = (if mmio then sz AND NOT 0xf else sz AND NOT 0xd)
      in (\<lparr>bar_base = base, bar_size = NOT sz + 1, is_64bits = wide, is_prefetchable = prefetchable,
            is_mmio = mmio\<rparr>, h))"

section \<open>Enumeration\<close>

text \<open>
  \<open>check_bus\<close> and \<open>check_func\<close> call each other. \<open>check_func\<close> takes the call of \<open>check_bus\<close> as its argument,
  and \<open>check_bus\<close> the depth of nested calls that is left; a walk that needs more is a fault.
\<close>

definition check_func ::
    "'h hw \<Rightarrow> (u8 \<Rightarrow> 'h pci \<Rightarrow> fault + 'h pci) \<Rightarrow> u8 \<Rightarrow> u8 \<Rightarrow> u8 \<Rightarrow> 'h pci \<Rightarrow> fault + 'h pci" where
  "check_func H check_bus bus slot func s =
     (let (cls, h) = pci_readw H bus slot func 0xa (pci_hw s);
          base_class = ucast (drop_bit 8 cls AND 0xff);
          sub_class = ucast (cls AND 0xff);
          (w, h) = pci_readw H bus slot func 0x8 h;
          prog_if = ucast (drop_bit 8 w AND 0xff)
      in if base_class = (0x6 :: u8) \<and> sub_class = (0x4 :: u8) then
           (let (w, h) = pci_readw H bus slot func 0x18 h;
                secondary_bus = ucast (drop_bit 8 w AND 0xff)
            in check_bus secondary_bus (s\<lparr>pci_hw := h\<rparr>))
         else if length (pci_devs s) < MAX_PCI_DEVICES then
           Inr (s\<lparr>pci_hw := h,
             pci_devs := pci_devs s @ [\<lparr>dev_bus = bus, dev_slot = slot, dev_func = func,
               dev_class = base_class, dev_subclass = sub_class, dev_prog_if = prog_if\<rparr>]\<rparr>)
         else Inl OutOfBounds)"

definition check_slot ::
    "'h hw \<Rightarrow> (u8 \<Rightarrow> 'h pci \<Rightarrow> fault + 'h pci) \<Rightarrow> u8 \<Rightarrow> u8 \<times> u8 \<Rightarrow> 'h pci \<Rightarrow> fault + 'h pci" where
  "check_slot H check_bus bus df s =
     (let (dev, func) = df;
          (w, h) = pci_readw H bus dev func 0 (pci_hw s);
          s = s\<lparr>pci_hw := h\<rparr>
      in if w AND 0xffff \<noteq> 0xffff then check_func H check_bus bus dev func s else Inr s)"

definition slots :: "(u8 \<times> u8) list" where
  "slots = concat (map (\<lambda>dev. map (\<lambda>func. (of_nat dev, of_nat func)) [0..<8]) [0..<32])"

primrec check_bus :: "'h hw \<Rightarrow> nat \<Rightarrow> u8 \<Rightarrow> 'h pci \<Rightarrow> fault + 'h pci" where
  "check_bus H 0 bus s = Inl UnboundedRecursion"
| "check_bus H (Suc depth) bus s = run_ops (check_slot H (check_bus H depth) bus) slots s"

definition init_pci :: "'h hw \<Rightarrow> nat \<Rightarrow> 'h pci \<Rightarrow> fault + 'h pci" where
  "init_pci H depth s =
     (let (header_type, h) = pci_readw H 0 0 0 0xc (pci_hw s);
          s = s\<lparr>pci_hw := h\<rparr>
      in if header_type AND 0x80 = 0 then check_bus H depth 0 s
         else run_ops (\<lambda>func. check_bus H depth (of_nat func)) [0..<8] s)"

section \<open>Capabilities\<close>

partial_function (option) find_cap_from ::
    "'h hw \<Rightarrow> u8 \<Rightarrow> u8 \<Rightarrow> u8 \<Rightarrow> u8 \<Rightarrow> u8 \<Rightarrow> 'h \<Rightarrow> (u8 \<times> 'h) option" where
  "find_cap_from H bus slot func cap_id cap_offset h =
     (case pci_readw H bus slot func cap_offset h of (w, h) \<Rightarrow>
        if ucast (w AND 0xff) = cap_id then Some (cap_offset, h)
        else (case pci_readw H bus slot func cap_offset h of (w, h) \<Rightarrow>
          if ucast (drop_bit 8 w) = (0 :: u8) then Some (0, h)
          else find_cap_from H bus slot func cap_id (ucast (drop_bit 8 w)) h))"

definition find_cap :: "'h hw \<Rightarrow> pci_dev \<Rightarrow> u8 \<Rightarrow> 'h \<Rightarrow> (u8 \<times> 'h) option" where
  "find_cap H dev cap_id h =
     (case pci_readw H (dev_bus dev) (dev_slot dev) (dev_func dev) 0x34 h of
        (w, h) \<Rightarrow>
          find_cap_from H (dev_bus dev) (dev_slot dev) (dev_func dev) cap_id (ucast (w AND 0xfc)) h)"

definition pci_msi_vec_count :: "'h hw \<Rightarrow> pci_dev \<Rightarrow> 'h \<Rightarrow> (u8 \<times> 'h) option" where
  "pci_msi_vec_count H dev h =
     (case pci_readw H (dev_bus dev) (dev_slot dev) (dev_func dev) 0x6 h of (w, h) \<Rightarrow>
        if w AND 16 = 0 then Some (0xff, h)
        else (case find_cap H dev 0x5 h of
            None \<Rightarrow> None
          | Some (msi_cap_offset, h) \<Rightarrow>
              if msi_cap_offset = 0 then Some (0xff, h)
              else (case pci_readw H (dev_bus dev) (dev_slot dev) (dev_func dev) msi_cap_offset h of
                (msi_cap, h) \<Rightarrow> Some (push_bit (unat (drop_bit 1 msi_cap AND 7)) 1, h))))"

definition pci_enable_msi :: "'h hw \<Rightarrow> pci_dev \<Rightarrow> 'h \<Rightarrow> (bool \<times> 'h) option" where
  "pci_enable_msi H dev h = map_option (\<lambda>(msi_vec_count, h). (False, h)) (pci_msi_vec_count H dev h)"

section \<open>Reading and writing through the configuration mechanism\<close>

lemma cfg_select_config_addr [simp]: "cfg_select (config_addr b s f off)"
  unfolding cfg_select_def
proof (rule bit_word_eqI)
  fix n assume n: "n < LENGTH(32)"
  then have top: "bit (0x80000003 :: u32) n \<longleftrightarrow> n = 0 \<or> n = 1 \<or> n = 31"
    and sel: "bit (0x80000000 :: u32) n \<longleftrightarrow> n = 31"
    by (auto simp: less_Suc_eq numeral_eq_Suc)
  have "\<not> bit (config_addr b s f off) 0" "\<not> bit (config_addr b s f off) 1"
    "bit (config_addr b s f off) 31"
    by (simp_all add: config_addr_def bit_simps)
  then show "bit (config_addr b s f off AND 0x80000003) n = bit (0x80000000 :: u32) n"
    unfolding bit_and_iff top sel by auto
qed

text \<open>The address names bus, slot, function and register: every field can be read back.\<close>

definition addr_field :: "nat \<Rightarrow> nat \<Rightarrow> u32 \<Rightarrow> u32" where
  "addr_field pos width a = take_bit width (drop_bit pos a)"

lemma config_addr_fields:
  assumes "s < 32" "f < 8"
  shows "addr_field 16 8 (config_addr b s f off) = ucast b"
    and "addr_field 11 5 (config_addr b s f off) = ucast s"
    and "addr_field 8 3 (config_addr b s f off) = ucast f"
    and "addr_field 0 8 (config_addr b s f off) = ucast (off AND 0xfc)"
proof -
  have s: "\<not> bit s n" if "5 \<le> n" for n
    using assms(1) that by (intro bit_bounded [of _ 5]) (simp_all add: word_less_nat_alt)
  have f: "\<not> bit f n" if "3 \<le> n" for n
    using assms(2) that by (intro bit_bounded [of _ 3]) (simp_all add: word_less_nat_alt)
  have b: "n < 8" if "bit b n" for n
    using bit_imp_le_length [OF that] by simp
  show "addr_field 16 8 (config_addr b s f off) = ucast b"
    by (rule bit_word_eqI) (auto simp: addr_field_def config_addr_def bit_simps s f dest: b)
  show "addr_field 11 5 (config_addr b s f off) = ucast s"
    by (rule bit_word_eqI) (auto simp: addr_field_def config_addr_def bit_simps s f dest: b)
  show "addr_field 8 3 (config_addr b s f off) = ucast f"
    by (rule bit_word_eqI) (auto simp: addr_field_def config_addr_def bit_simps s f dest: b)
  show "addr_field 0 8 (config_addr b s f off) = ucast (off AND 0xfc)"
    by (rule bit_word_eqI) (auto simp: addr_field_def config_addr_def bit_simps s f dest: b)
qed

text \<open>What a read returns in terms of the contents of the configuration space.\<close>

definition cfg_dword :: "(u32 \<Rightarrow> u32) \<Rightarrow> u8 \<Rightarrow> u8 \<Rightarrow> u8 \<Rightarrow> u8 \<Rightarrow> u32" where
  "cfg_dword c b s f off = drop_bit (unat (off AND 2) * 8) (c (config_addr b s f off))"

definition cfg_word :: "(u32 \<Rightarrow> u32) \<Rightarrow> u8 \<Rightarrow> u8 \<Rightarrow> u8 \<Rightarrow> u8 \<Rightarrow> u16" where
  "cfg_word c b s f off = ucast (cfg_dword c b s f off AND 0xffff)"

definition masked_write :: "u32 \<Rightarrow> u32 \<Rightarrow> u32 \<Rightarrow> u32" where
  "masked_write m old v = (old AND NOT m) OR (v AND m)"

context config_space
begin

lemma readd:
  "\<exists>h'. pci_readd H b s f off h = (cfg_dword (cfg h) b s f off, h') \<and> cfg h' = cfg h"
  using cfg_read [OF cfg_select_config_addr] cfg_read_keeps [OF cfg_select_config_addr]
  by (auto simp: pci_readd_def ind_def outd_def cfg_dword_def prod.case_eq_if)

lemma readw:
  "\<exists>h'. pci_readw H b s f off h = (cfg_word (cfg h) b s f off, h') \<and> cfg h' = cfg h"
  using readd [of b s f off h] by (auto simp: pci_readw_def cfg_word_def)

lemma writed:
  "off AND 3 = 0 \<Longrightarrow> cfg (pci_writed H b s f off v h) =
     (cfg h)(config_addr b s f off :=
        masked_write (writable (config_addr b s f off)) (cfg h (config_addr b s f off)) v)"
  by (simp add: pci_writed_def outd_def cfg_write masked_write_def)

end

section \<open>The walk over the buses\<close>

definition present :: "(u32 \<Rightarrow> u32) \<Rightarrow> u8 \<Rightarrow> u8 \<times> u8 \<Rightarrow> bool" where
  "present c b df \<longleftrightarrow> cfg_word c b (fst df) (snd df) 0 AND 0xffff \<noteq> 0xffff"

definition class_byte :: "(u32 \<Rightarrow> u32) \<Rightarrow> u8 \<Rightarrow> u8 \<times> u8 \<Rightarrow> u8" where
  "class_byte c b df = ucast (drop_bit 8 (cfg_word c b (fst df) (snd df) 0xa) AND 0xff)"

definition subclass_byte :: "(u32 \<Rightarrow> u32) \<Rightarrow> u8 \<Rightarrow> u8 \<times> u8 \<Rightarrow> u8" where
  "subclass_byte c b df = ucast (cfg_word c b (fst df) (snd df) 0xa AND 0xff)"

definition bridge :: "(u32 \<Rightarrow> u32) \<Rightarrow> u8 \<Rightarrow> u8 \<times> u8 \<Rightarrow> bool" where
  "bridge c b df \<longleftrightarrow> present c b df \<and> class_byte c b df = 6 \<and> subclass_byte c b df = 4"

definition secondary :: "(u32 \<Rightarrow> u32) \<Rightarrow> u8 \<Rightarrow> u8 \<times> u8 \<Rightarrow> u8" where
  "secondary c b df = ucast (drop_bit 8 (cfg_word c b (fst df) (snd df) 0x18) AND 0xff)"

definition device :: "(u32 \<Rightarrow> u32) \<Rightarrow> u8 \<Rightarrow> u8 \<times> u8 \<Rightarrow> pci_dev" where
  "device c b df =
     \<lparr>dev_bus = b, dev_slot = fst df, dev_func = snd df, dev_class = class_byte c b df,
      dev_subclass = subclass_byte c b df,
      dev_prog_if = ucast (drop_bit 8 (cfg_word c b (fst df) (snd df) 0x8) AND 0xff)\<rparr>"

definition slot_devices :: "(u32 \<Rightarrow> u32) \<Rightarrow> (u8 \<Rightarrow> pci_dev list) \<Rightarrow> u8 \<Rightarrow> u8 \<times> u8 \<Rightarrow> pci_dev list" where
  "slot_devices c behind_bus b df =
     (if bridge c b df then behind_bus (secondary c b df)
      else if present c b df then [device c b df] else [])"

text \<open>
  The devices below a bus, read off the configuration space: the functions of the bus in order, each
  bridge replaced by the devices of the bus behind it, down to \<open>n\<close> nested buses.
\<close>

primrec bus_devices :: "(u32 \<Rightarrow> u32) \<Rightarrow> nat \<Rightarrow> u8 \<Rightarrow> pci_dev list" where
  "bus_devices c 0 b = []"
| "bus_devices c (Suc n) b = concat (map (slot_devices c (bus_devices c n) b) slots)"

context config_space
begin

lemma check_slot_result:
  "\<exists>h'. cfg h' = cfg (pci_hw s) \<and>
     check_slot H rec b df s =
       (if bridge (cfg (pci_hw s)) b df then rec (secondary (cfg (pci_hw s)) b df) (s\<lparr>pci_hw := h'\<rparr>)
        else if present (cfg (pci_hw s)) b df then
          (if length (pci_devs s) < MAX_PCI_DEVICES
           then Inr (s\<lparr>pci_hw := h', pci_devs := pci_devs s @ [device (cfg (pci_hw s)) b df]\<rparr>)
           else Inl OutOfBounds)
        else Inr (s\<lparr>pci_hw := h'\<rparr>))"
proof -
  obtain dev func where df: "df = (dev, func)" by (cases df)
  define c where "c = cfg (pci_hw s)"
  obtain h1 where h1: "pci_readw H b dev func 0 (pci_hw s) = (cfg_word c b dev func 0, h1)" "cfg h1 = c"
    using readw [of b dev func 0 "pci_hw s"] c_def by auto
  obtain h2 where h2: "pci_readw H b dev func 0xa h1 = (cfg_word c b dev func 0xa, h2)" "cfg h2 = c"
    using readw [of b dev func "0xa" h1] h1 by auto
  obtain h3 where h3: "pci_readw H b dev func 0x8 h2 = (cfg_word c b dev func 0x8, h3)" "cfg h3 = c"
    using readw [of b dev func "0x8" h2] h2 by auto
  obtain h4 where h4: "pci_readw H b dev func 0x18 h3 = (cfg_word c b dev func 0x18, h4)" "cfg h4 = c"
    using readw [of b dev func "0x18" h3] h3 by auto
  note defs = check_slot_def check_func_def bridge_def present_def class_byte_def subclass_byte_def
    secondary_def device_def
  show ?thesis
    unfolding c_def [symmetric]
    apply (rule exI [of _ "if bridge c b df then h4 else if present c b df then h3 else h1"])
    using h1 h2 h3 h4 by (simp add: defs df Let_def)
qed

end

text \<open>Firmware numbers the bus behind a bridge above the bus of the bridge.\<close>

definition buses_ordered :: "(u32 \<Rightarrow> u32) \<Rightarrow> bool" where
  "buses_ordered c \<longleftrightarrow> (\<forall>b. \<forall>df \<in> set slots. bridge c b df \<longrightarrow> b < secondary c b df)"

lemma buses_orderedD:
  "buses_ordered c \<Longrightarrow> df \<in> set slots \<Longrightarrow> bridge c b df \<Longrightarrow> b < secondary c b df"
  by (auto simp: buses_ordered_def)

inductive behind :: "(u32 \<Rightarrow> u32) \<Rightarrow> u8 \<Rightarrow> u8 \<Rightarrow> bool" for c where
  here: "behind c b b"
| through: "df \<in> set slots \<Longrightarrow> bridge c b df \<Longrightarrow> behind c (secondary c b df) b' \<Longrightarrow> behind c b b'"

text \<open>With ordered buses, 256 nested buses reach every bus behind the first one.\<close>

lemma set_bus_devices:
  assumes ord: "buses_ordered c"
  shows "256 - unat b \<le> n \<Longrightarrow>
    set (bus_devices c n b) =
      {device c b' df | b' df. behind c b b' \<and> df \<in> set slots \<and> present c b' df \<and> \<not> bridge c b' df}"
proof (induction n arbitrary: b)
  case 0
  then show ?case using unat_u8_less [of b] by simp
next
  case (Suc n)
  have sub: "set (bus_devices c n (secondary c b df)) =
      {device c b' df' | b' df'. behind c (secondary c b df) b' \<and> df' \<in> set slots \<and> present c b' df' \<and>
        \<not> bridge c b' df'}"
    if "df \<in> set slots" "bridge c b df" for df
  proof (rule Suc.IH)
    have "unat b < unat (secondary c b df)"
      using buses_orderedD [OF ord that] by (simp add: word_less_nat_alt)
    then show "256 - unat (secondary c b df) \<le> n" using Suc.prems by linarith
  qed
  show ?case
  proof (intro equalityI subsetI)
    fix d assume "d \<in> set (bus_devices c (Suc n) b)"
    then obtain df where df: "df \<in> set slots" "d \<in> set (slot_devices c (bus_devices c n) b df)"
      by auto
    show "d \<in> {device c b' df | b' df. behind c b b' \<and> df \<in> set slots \<and> present c b' df \<and> \<not> bridge c b' df}"
    proof (cases "bridge c b df")
      case True
      then have "d \<in> set (bus_devices c n (secondary c b df))" using df(2) by (simp add: slot_devices_def)
      then show ?thesis unfolding sub [OF df(1) True] using behind.through [OF df(1) True] by blast
    next
      case False
      then have "d = device c b df" "present c b df"
        using df(2) by (auto simp: slot_devices_def split: if_splits)
      then show ?thesis using False df(1) behind.here by blast
    qed
  next
    fix d assume "d \<in> {device c b' df | b' df. behind c b b' \<and> df \<in> set slots \<and> present c b' df \<and> \<not> bridge c b' df}"
    then obtain b' df where d: "d = device c b' df" "behind c b b'" "df \<in> set slots" "present c b' df"
      "\<not> bridge c b' df" by auto
    from d(2) show "d \<in> set (bus_devices c (Suc n) b)"
    proof (cases rule: behind.cases)
      case here
      then show ?thesis using d by (auto simp: slot_devices_def)
    next
      case (through df')
      then have "d \<in> set (bus_devices c n (secondary c b df'))" using d sub by blast
      then show ?thesis using through
        by (auto simp: slot_devices_def intro!: bexI [of _ df'])
    qed
  qed
qed

context config_space
begin

lemma run_slots:
  assumes rec: "\<And>df s. df \<in> set dfs \<Longrightarrow> bridge c b df \<Longrightarrow> cfg (pci_hw s) = c \<Longrightarrow>
      length (pci_devs s) + length (sub (secondary c b df)) \<le> MAX_PCI_DEVICES \<Longrightarrow>
      \<exists>h'. cfg h' = c \<and> rec (secondary c b df) s = Inr \<lparr>pci_hw = h', pci_devs = pci_devs s @ sub (secondary c b df)\<rparr>"
  shows "cfg (pci_hw s) = c \<Longrightarrow>
    length (pci_devs s) + length (concat (map (slot_devices c sub b) dfs)) \<le> MAX_PCI_DEVICES \<Longrightarrow>
    \<exists>h'. cfg h' = c \<and> run_ops (check_slot H rec b) dfs s =
      Inr \<lparr>pci_hw = h', pci_devs = pci_devs s @ concat (map (slot_devices c sub b) dfs)\<rparr>"
  using rec
proof (induction dfs arbitrary: s)
  case Nil
  then show ?case by (auto intro!: exI [of _ "pci_hw s"])
next
  case (Cons df dfs)
  obtain h0 where h0: "cfg h0 = c" and step: "check_slot H rec b df s =
       (if bridge c b df then rec (secondary c b df) (s\<lparr>pci_hw := h0\<rparr>)
        else if present c b df then
          (if length (pci_devs s) < MAX_PCI_DEVICES
           then Inr (s\<lparr>pci_hw := h0, pci_devs := pci_devs s @ [device c b df]\<rparr>)
           else Inl OutOfBounds)
        else Inr (s\<lparr>pci_hw := h0\<rparr>))"
    using check_slot_result [of s rec b df] Cons.prems(1) by auto
  have "\<exists>h'. cfg h' = c \<and>
      check_slot H rec b df s = Inr \<lparr>pci_hw = h', pci_devs = pci_devs s @ slot_devices c sub b df\<rparr>"
  proof (cases "bridge c b df")
    case True
    then show ?thesis
      using Cons.prems(3) [of df "s\<lparr>pci_hw := h0\<rparr>"] Cons.prems(2) h0 step by (auto simp: slot_devices_def)
  next
    case False
    then show ?thesis
      using Cons.prems(2) h0 step by (auto simp: slot_devices_def)
  qed
  then obtain h1 where h1: "cfg h1 = c"
    "check_slot H rec b df s = Inr \<lparr>pci_hw = h1, pci_devs = pci_devs s @ slot_devices c sub b df\<rparr>" by auto
  have "\<exists>h'. cfg h' = c \<and>
      run_ops (check_slot H rec b) dfs \<lparr>pci_hw = h1, pci_devs = pci_devs s @ slot_devices c sub b df\<rparr> =
      Inr \<lparr>pci_hw = h', pci_devs = (pci_devs s @ slot_devices c sub b df) @ concat (map (slot_devices c sub b) dfs)\<rparr>"
    using Cons.IH [of "\<lparr>pci_hw = h1, pci_devs = pci_devs s @ slot_devices c sub b df\<rparr>"] Cons.prems h1 by simp
  then show ?case using h1 by simp
qed

lemma check_bus_enumerates:
  assumes "buses_ordered c"
  shows "256 - unat b \<le> depth \<Longrightarrow> cfg (pci_hw s) = c \<Longrightarrow>
    length (pci_devs s) + length (bus_devices c depth b) \<le> MAX_PCI_DEVICES \<Longrightarrow>
    \<exists>h'. cfg h' = c \<and> check_bus H depth b s = Inr \<lparr>pci_hw = h', pci_devs = pci_devs s @ bus_devices c depth b\<rparr>"
proof (induction depth arbitrary: b s)
  case 0
  then show ?case using unat_u8_less [of b] by simp
next
  case (Suc depth)
  have "\<exists>h'. cfg h' = c \<and> run_ops (check_slot H (check_bus H depth) b) slots s =
      Inr \<lparr>pci_hw = h', pci_devs = pci_devs s @ concat (map (slot_devices c (bus_devices c depth) b) slots)\<rparr>"
  proof (rule run_slots)
    fix df and t :: "'h pci"
    assume df: "df \<in> set slots" "bridge c b df" and t: "cfg (pci_hw t) = c"
      "length (pci_devs t) + length (bus_devices c depth (secondary c b df)) \<le> MAX_PCI_DEVICES"
    have "unat b < unat (secondary c b df)"
      using buses_orderedD [OF assms df] by (simp add: word_less_nat_alt)
    then have "256 - unat (secondary c b df) \<le> depth" using Suc.prems(1) by linarith
    then show "\<exists>h'. cfg h' = c \<and> check_bus H depth (secondary c b df) t =
        Inr \<lparr>pci_hw = h', pci_devs = pci_devs t @ bus_devices c depth (secondary c b df)\<rparr>"
      using t by (rule Suc.IH)
  qed (use Suc.prems in \<open>simp_all\<close>)
  then show ?case by simp
qed

lemma check_bus_cfg: "check_bus H depth b s = Inr s' \<Longrightarrow> cfg (pci_hw s') = cfg (pci_hw s)"
proof (induction depth arbitrary: b s s')
  case 0
  then show ?case by simp
next
  case (Suc depth)
  have "run_ops (check_slot H (check_bus H depth) b) dfs s = Inr s' \<Longrightarrow> cfg (pci_hw s') = cfg (pci_hw s)" for dfs
  proof (induction dfs arbitrary: s)
    case Nil
    then show ?case by simp
  next
    case (Cons df dfs)
    then obtain s1 where s1: "check_slot H (check_bus H depth) b df s = Inr s1"
      "run_ops (check_slot H (check_bus H depth) b) dfs s1 = Inr s'"
      by (auto split: sum.splits)
    have "cfg (pci_hw s1) = cfg (pci_hw s)"
      using check_slot_result [of s "check_bus H depth" b df] s1(1) Suc.IH
      by (auto split: if_splits)
    then show ?case using Cons.IH [OF s1(2)] by simp
  qed
  then show ?case using Suc.prems by simp
qed

text \<open>Bridges that lead back into their own set of buses are followed until the stack ends.\<close>

lemma check_bus_cycle:
  assumes cyc: "\<And>b. b \<in> B \<Longrightarrow> \<exists>df \<in> set slots. bridge c b df \<and> secondary c b df \<in> B"
  shows "b \<in> B \<Longrightarrow> cfg (pci_hw s) = c \<Longrightarrow> check_bus H depth b s \<noteq> Inr s'"
proof (induction depth arbitrary: b s s')
  case 0
  then show ?case by simp
next
  case (Suc depth)
  obtain df where df: "df \<in> set slots" "bridge c b df" "secondary c b df \<in> B"
    using cyc [OF Suc.prems(1)] by blast
  have "run_ops (check_slot H (check_bus H depth) b) dfs s \<noteq> Inr s'" if "df \<in> set dfs" for dfs
    using that Suc.prems(2)
  proof (induction dfs arbitrary: s)
    case Nil
    then show ?case by simp
  next
    case (Cons e dfs)
    obtain h' where h': "cfg h' = c" and step: "check_slot H (check_bus H depth) b e s =
       (if bridge c b e then check_bus H depth (secondary c b e) (s\<lparr>pci_hw := h'\<rparr>)
        else if present c b e then
          (if length (pci_devs s) < MAX_PCI_DEVICES
           then Inr (s\<lparr>pci_hw := h', pci_devs := pci_devs s @ [device c b e]\<rparr>)
           else Inl OutOfBounds)
        else Inr (s\<lparr>pci_hw := h'\<rparr>))"
      using check_slot_result [of s "check_bus H depth" b e] Cons.prems(2) by auto
    show ?case
    proof (cases "check_slot H (check_bus H depth) b e s")
      case (Inr s1)
      have "e \<noteq> df"
      proof
        assume "e = df"
        then have "check_bus H depth (secondary c b df) (s\<lparr>pci_hw := h'\<rparr>) = Inr s1" using step Inr df(2) by simp
        then show False using Suc.IH [OF df(3), of "s\<lparr>pci_hw := h'\<rparr>" s1] h' by simp
      qed
      moreover have "cfg (pci_hw s1) = c"
        using step Inr h' check_bus_cfg by (auto split: if_splits)
      ultimately show ?thesis using Cons Inr by auto
    qed simp
  qed
  then show ?case using df(1) by simp
qed

end

text \<open>C6:
  \<open>init_pci\<close> on a machine with one host bridge: when firmware numbered the buses in order and there
  are not more devices than entries, the table holds exactly the functions that answer and are not
  bridges, on the first bus and on every bus behind a bridge, and the configuration space is
  unchanged. 256 nested calls are enough.
\<close>

theorem init_pci_finds_devices:
  assumes "config_space H cfg writable"
    and "buses_ordered (cfg h)"
    and "256 \<le> depth"
    and "cfg_word (cfg h) 0 0 0 0xc AND 0x80 = 0"
    and "length (bus_devices (cfg h) depth 0) \<le> MAX_PCI_DEVICES"
  shows "\<exists>h' ds. init_pci H depth \<lparr>pci_hw = h, pci_devs = []\<rparr> = Inr \<lparr>pci_hw = h', pci_devs = ds\<rparr> \<and>
    cfg h' = cfg h \<and>
    set ds = {device (cfg h) b df | b df. behind (cfg h) 0 b \<and> df \<in> set slots \<and>
      present (cfg h) b df \<and> \<not> bridge (cfg h) b df}"
proof -
  obtain h1 where h1: "pci_readw H 0 0 0 0xc h = (cfg_word (cfg h) 0 0 0 0xc, h1)" "cfg h1 = cfg h"
    using config_space.readw [OF assms(1), of 0 0 0 "0xc" h] by auto
  obtain h' where "cfg h' = cfg h" "check_bus H depth 0 \<lparr>pci_hw = h1, pci_devs = []\<rparr> =
      Inr \<lparr>pci_hw = h', pci_devs = bus_devices (cfg h) depth 0\<rparr>"
    using config_space.check_bus_enumerates [OF assms(1,2), of 0 depth "\<lparr>pci_hw = h1, pci_devs = []\<rparr>"]
      h1 assms(3,5) by auto
  then show ?thesis
    using h1 assms(3,4) set_bus_devices [OF assms(2), of 0 depth] by (auto simp: init_pci_def)
qed

text \<open>
  An example: a host bridge in slot 0, a bridge to bus 1 in slot 1, and an AHCI controller on bus 1
  whose base address register 5 is a 8 KiB memory range.
\<close>

definition sample_space :: "u32 \<Rightarrow> u32" where
  "sample_space a =
     (if addr_field 8 3 a \<noteq> 0 then 0xffffffff
      else if addr_field 16 8 a = 0 \<and> addr_field 11 5 a = 0 then
        (if addr_field 0 8 a = 0 then 0x12378086 else if addr_field 0 8 a = 8 then 0x06000002 else 0)
      else if addr_field 16 8 a = 0 \<and> addr_field 11 5 a = 1 then
        (if addr_field 0 8 a = 0 then 0x00011b36 else if addr_field 0 8 a = 8 then 0x06040000
         else if addr_field 0 8 a = 0x18 then 0x00010100 else 0)
      else if addr_field 16 8 a = 1 \<and> addr_field 11 5 a = 0 then
        (if addr_field 0 8 a = 0 then 0x29228086 else if addr_field 0 8 a = 8 then 0x01060102
         else if addr_field 0 8 a = 0x24 then 0xfebd4000 else 0)
      else 0xffffffff)"

definition sample_chipset :: chipset where
  "sample_chipset =
     \<lparr>latch = 0, space = sample_space, selected = (\<lambda>_. 0), window_regs = (\<lambda>_ _. 0),
      plain_regs = (\<lambda>_. 0), msrs = (\<lambda>_. 0), in_bytes = [], out_log = [], iflag = False\<rparr>"

lemma slots_bounds: "df \<in> set slots \<Longrightarrow> fst df < 32 \<and> snd df < 8"
proof -
  have "list_all (\<lambda>df. fst df < 32 \<and> snd df < 8) slots" by code_simp
  then show "df \<in> set slots \<Longrightarrow> fst df < 32 \<and> snd df < 8" by (auto simp: list_all_iff)
qed

lemma slots_map: "slots = map (\<lambda>n. (of_nat (n div 8), of_nat (n mod 8))) [0..<256]"
  by code_simp

lemma distinct_slots: "distinct slots"
proof -
  have "inj_on (\<lambda>n. (of_nat (n div 8) :: u8, of_nat (n mod 8) :: u8)) (set [0..<256])"
  proof (rule inj_onI)
    fix m n :: nat assume mn: "m \<in> set [0..<256]" "n \<in> set [0..<256]"
      and eq: "(of_nat (m div 8) :: u8, of_nat (m mod 8) :: u8) = (of_nat (n div 8), of_nat (n mod 8))"
    have "unat (of_nat k :: u8) = k" if "k < 256" for k
      using that by (simp add: unat_of_nat)
    moreover have "m div 8 < 256" "n div 8 < 256" "m mod 8 < 256" "n mod 8 < 256" using mn by auto
    ultimately have "m div 8 = n div 8" "m mod 8 = n mod 8" using eq by (metis prod.inject)+
    then show "m = n" by (metis div_mult_mod_eq)
  qed
  then show ?thesis by (simp add: slots_map distinct_map)
qed

lemma slots_first: "(0, 0) \<in> set slots"
  by code_simp

lemma ucast_eq_ucast_u8: "(ucast (v :: u8) :: u32) = ucast w \<longleftrightarrow> v = w"
proof
  assume "(ucast v :: u32) = ucast w"
  then have "(ucast (ucast v :: u32) :: u8) = ucast (ucast w :: u32)" by (rule arg_cong)
  then show "v = w" by simp
qed simp

lemma ucast_eq_small [simp]:
  "(ucast (v :: u8) :: u32) = 1 \<longleftrightarrow> v = 1" "(ucast (v :: u8) :: u32) = 8 \<longleftrightarrow> v = 8"
  "(ucast (v :: u8) :: u32) = 0x18 \<longleftrightarrow> v = 0x18" "(ucast (v :: u8) :: u32) = 0x24 \<longleftrightarrow> v = 0x24"
  "(ucast (v :: u8) :: u32) = 0 \<longleftrightarrow> v = 0"
  using ucast_eq_ucast_u8 [of v 1] ucast_eq_ucast_u8 [of v 8] ucast_eq_ucast_u8 [of v "0x18"]
    ucast_eq_ucast_u8 [of v "0x24"] ucast_eq_ucast_u8 [of v 0]
  by simp_all

lemma sample_space_at:
  assumes "s < 32" "f < 8"
  shows "sample_space (config_addr b s f off) =
     (if f \<noteq> 0 then 0xffffffff
      else if b = 0 \<and> s = 0 then
        (if off AND 0xfc = 0 then 0x12378086 else if off AND 0xfc = 8 then 0x06000002 else 0)
      else if b = 0 \<and> s = 1 then
        (if off AND 0xfc = 0 then 0x00011b36 else if off AND 0xfc = 8 then 0x06040000
         else if off AND 0xfc = 0x18 then 0x00010100 else 0)
      else if b = 1 \<and> s = 0 then
        (if off AND 0xfc = 0 then 0x29228086 else if off AND 0xfc = 8 then 0x01060102
         else if off AND 0xfc = 0x24 then 0xfebd4000 else 0)
      else 0xffffffff)"
  unfolding sample_space_def config_addr_fields [OF assms] by simp

lemma sample_present:
  assumes "df \<in> set slots"
  shows "present sample_space b df \<longleftrightarrow> snd df = 0 \<and> (b = 0 \<and> fst df = 0 \<or> b = 0 \<and> fst df = 1 \<or> b = 1 \<and> fst df = 0)"
  using slots_bounds [OF assms]
  by (simp add: present_def cfg_word_def cfg_dword_def sample_space_at)

lemma sample_bridge:
  assumes "df \<in> set slots"
  shows "bridge sample_space b df \<longleftrightarrow> snd df = 0 \<and> b = 0 \<and> fst df = 1"
  using slots_bounds [OF assms]
  by (auto simp: bridge_def sample_present [OF assms] class_byte_def subclass_byte_def cfg_word_def
    cfg_dword_def sample_space_at)

lemma sample_secondary: "secondary sample_space 0 (1, 0) = 1"
  by (simp add: secondary_def cfg_word_def cfg_dword_def sample_space_at)

lemma sample_ordered: "buses_ordered sample_space"
  unfolding buses_ordered_def
proof (intro allI ballI impI)
  fix b df assume df: "df \<in> set slots" and br: "bridge sample_space b df"
  then have "b = 0" "df = (1, 0)" by (simp_all add: sample_bridge prod_eq_iff)
  then show "b < secondary sample_space b df" by (simp add: sample_secondary)
qed

lemma length_bus_devices:
  assumes "\<And>df. df \<in> set slots \<Longrightarrow> present c b df \<Longrightarrow> df \<in> D" and "finite D"
  shows "length (bus_devices c (Suc n) b) \<le> (\<Sum>df\<in>D. length (slot_devices c (bus_devices c n) b df))"
proof -
  have "length (bus_devices c (Suc n) b) = (\<Sum>df\<in>set slots. length (slot_devices c (bus_devices c n) b df))"
    by (simp add: length_concat distinct_slots sum_list_distinct_conv_sum_set comp_def)
  also have "\<dots> = (\<Sum>df\<in>set slots \<inter> D. length (slot_devices c (bus_devices c n) b df))"
    using assms(1) by (intro sum.mono_neutral_right) (auto simp: slot_devices_def bridge_def)
  also have "\<dots> \<le> (\<Sum>df\<in>D. length (slot_devices c (bus_devices c n) b df))"
    using assms(2) by (intro sum_mono2) auto
  finally show ?thesis .
qed

lemma slot_devices_le: "length (slot_devices c sub b df) \<le> max 1 (length (sub (secondary c b df)))"
  by (simp add: slot_devices_def)

lemma sample_devices: "length (bus_devices sample_space 256 0) \<le> MAX_PCI_DEVICES"
proof -
  have one: "length (bus_devices sample_space (Suc 254) 1) \<le> 1"
  proof -
    have "length (bus_devices sample_space (Suc 254) 1) \<le>
        (\<Sum>df\<in>{(0, 0)}. length (slot_devices sample_space (bus_devices sample_space 254) 1 df))"
      by (rule length_bus_devices) (auto simp: sample_present prod_eq_iff)
    also have "\<dots> \<le> 1" using sample_bridge [of "(0, 0)" 1] by (simp add: slot_devices_def slots_first)
    finally show ?thesis .
  qed
  have "length (bus_devices sample_space (Suc 255) 0) \<le>
      (\<Sum>df\<in>{(0, 0), (1, 0)}. length (slot_devices sample_space (bus_devices sample_space 255) 0 df))"
    by (rule length_bus_devices) (auto simp: sample_present prod_eq_iff)
  also have "\<dots> \<le> 2"
    using one sample_bridge [of "(0, 0)" 0] by (simp add: slot_devices_def sample_secondary slots_first)
  finally show ?thesis by (simp add: MAX_PCI_DEVICES_def del: bus_devices.simps)
qed

theorem init_pci_finds_devices_witness:
  "\<exists>h' ds. init_pci (chipset_hw (\<lambda>_. 0) (\<lambda>_. 0)) 256 \<lparr>pci_hw = sample_chipset, pci_devs = []\<rparr> =
     Inr \<lparr>pci_hw = h', pci_devs = ds\<rparr> \<and> space h' = sample_space \<and>
     set ds = {device sample_space b df | b df. behind sample_space 0 b \<and> df \<in> set slots \<and>
       present sample_space b df \<and> \<not> bridge sample_space b df}"
proof -
  have "space sample_chipset = sample_space" by (simp add: sample_chipset_def)
  then show ?thesis
    using init_pci_finds_devices [OF chip.config_space_axioms, of sample_chipset 256 "\<lambda>_. 0" "\<lambda>_. 0"]
      sample_ordered sample_devices
    by (simp add: cfg_word_def cfg_dword_def sample_space_at del: bus_devices.simps)
qed

text \<open>
  A set of bridges that leads back into itself is never walked to its end, however deep the stack:
  \<open>check_bus\<close> has no visited set and no depth limit.
\<close>

theorem check_bus_cycle_unbounded:
  assumes "config_space H cfg writable"
    and "\<And>b. b \<in> B \<Longrightarrow> \<exists>df \<in> set slots. bridge (cfg h) b df \<and> secondary (cfg h) b df \<in> B"
    and "b \<in> B"
  shows "check_bus H depth b \<lparr>pci_hw = h, pci_devs = ds\<rparr> \<noteq> Inr s'"
  using config_space.check_bus_cycle [OF assms(1) assms(2,3), of "\<lparr>pci_hw = h, pci_devs = ds\<rparr>"] by simp

definition loop_space :: "u32 \<Rightarrow> u32" where
  "loop_space a = (if addr_field 0 8 a = 0 then 0x00011b36 else if addr_field 0 8 a = 8 then 0x06040000 else 0)"

theorem check_bus_cycle_unbounded_witness:
  "check_bus (chipset_hw (\<lambda>_. 0) (\<lambda>_. 0)) 1000 0
     \<lparr>pci_hw = sample_chipset\<lparr>space := loop_space\<rparr>, pci_devs = []\<rparr> \<noteq> Inr \<lparr>pci_hw = sample_chipset, pci_devs = []\<rparr>"
proof (rule check_bus_cycle_unbounded [OF chip.config_space_axioms, where B = "{0}"])
  fix b :: u8 assume "b \<in> {0}"
  moreover have "bridge loop_space 0 (0, 0) \<and> secondary loop_space 0 (0, 0) = 0"
    by (simp add: bridge_def present_def class_byte_def subclass_byte_def secondary_def cfg_word_def
        cfg_dword_def loop_space_def config_addr_fields)
  ultimately show "\<exists>df \<in> set slots. bridge (space (sample_chipset\<lparr>space := loop_space\<rparr>)) b df \<and>
      secondary (space (sample_chipset\<lparr>space := loop_space\<rparr>)) b df \<in> {0}"
    using slots_first by auto
qed simp

section \<open>Base address registers\<close>

lemma bar_offset_aligned [simp]: "bar_offset bar AND 3 = 0" "bar_offset bar AND 2 = 0"
proof -
  have "bar_offset bar = push_bit 2 (bar + 4)"
    by (simp add: bar_offset_def push_bit_eq_mult algebra_simps)
  then obtain v where v: "bar_offset bar = push_bit 2 v" ..
  have three: "push_bit 2 v AND 3 = 0"
  proof (rule bit_word_eqI)
    fix n
    have "bit (3 :: u8) n \<longleftrightarrow> n < 2"
      using bit_mask_iff [of 2 n, where 'a = u8] by (auto simp: mask_eq_exp_minus_1 simp del: bit_numeral_iff)
    then show "bit (push_bit 2 v AND 3) n = bit 0 n"
      unfolding bit_and_iff bit_push_bit_iff by auto
  qed
  have "push_bit 2 v AND 2 = (push_bit 2 v AND 3) AND 2" by (simp only: and.assoc) simp
  with three have "push_bit 2 v AND 2 = 0" by (simp only: three and_zero_eq zero_and_eq)
  with three show "bar_offset bar AND 3 = 0" "bar_offset bar AND 2 = 0" by (simp_all only: v)
qed

lemma bar_mask_size:
  fixes low m :: u32
  assumes m: "m = NOT (mask k)" and k: "4 \<le> k" "k \<le> 32"
    and ro: "low AND NOT m AND NOT 0xf = 0"
  shows "NOT ((push_bit 32 (ucast (- 1 :: u32)) OR ucast (masked_write m low (- 1)) :: u64) AND NOT 0xf) + 1 = 2 ^ k"
proof -
  have "(push_bit 32 (ucast (- 1 :: u32)) OR ucast (masked_write m low (- 1)) :: u64) AND NOT 0xf = NOT (mask k)"
  proof (rule bit_word_eqI)
    fix n assume n: "n < LENGTH(64)"
    have f64: "(0xf :: u64) = mask 4" and f32: "(0xf :: u32) = mask 4" by (simp_all add: mask_eq_exp_minus_1)
    have "\<not> bit (low AND NOT m AND NOT 0xf) n" using ro by simp
    then have "\<not> bit m n \<Longrightarrow> 4 \<le> n \<Longrightarrow> n < 32 \<Longrightarrow> \<not> bit low n"
      unfolding f32 by (simp add: bit_simps)
    then show "bit ((push_bit 32 (ucast (- 1 :: u32)) OR ucast (masked_write m low (- 1)) :: u64) AND NOT 0xf) n =
        bit (NOT (mask k) :: u64) n"
      unfolding f64 masked_write_def m using n k by (auto simp: bit_simps)
  qed
  then show ?thesis by (simp add: mask_eq_exp_minus_1)
qed

abbreviation (input) bar_addr :: "pci_dev \<Rightarrow> u8 \<Rightarrow> u32" where
  "bar_addr d bar \<equiv> config_addr (dev_bus d) (dev_slot d) (dev_func d) (bar_offset bar)"

lemma masked_write_restores: "masked_write m (masked_write m low v) low = low"
  by (rule bit_word_eqI) (auto simp: masked_write_def bit_simps)

context config_space
begin

text \<open>A register that is not taken for the low half of a pair is read, overwritten, read and restored.\<close>

lemma get_bar_single:
  assumes "cfg h (bar_addr d bar) AND 1 \<noteq> 0 \<or> cfg h (bar_addr d bar) AND 6 \<noteq> 2"
  shows "\<exists>h'. cfg h' = cfg h \<and> get_bar H d bar h =
    (let low = cfg h (bar_addr d bar);
         m = (if low AND 1 = 0 then NOT 0xf else NOT 0xd :: u64)
     in \<lparr>bar_base = ucast low AND m,
         bar_size = NOT ((push_bit 32 (ucast (- 1 :: u32)) OR
           ucast (masked_write (writable (bar_addr d bar)) low (- 1))) AND m) + 1,
         is_64bits = False, is_prefetchable = (low AND 1 = 0 \<and> low AND 8 \<noteq> 0),
         is_mmio = (low AND 1 = 0)\<rparr>, h')"
proof -
  let ?a = "bar_addr d bar" and ?rd = "pci_readd H (dev_bus d) (dev_slot d) (dev_func d) (bar_offset bar)"
    and ?wr = "pci_writed H (dev_bus d) (dev_slot d) (dev_func d) (bar_offset bar)"
  have rd: "\<exists>h'. ?rd g = (cfg g ?a, h') \<and> cfg h' = cfg g" for g
    using readd [of "dev_bus d" "dev_slot d" "dev_func d" "bar_offset bar" g] by (simp add: cfg_dword_def)
  have wr: "cfg (?wr v g) = (cfg g)(?a := masked_write (writable ?a) (cfg g ?a) v)" for v g
    by (simp add: writed)
  obtain h1 where h1: "?rd h = (cfg h ?a, h1)" "cfg h1 = cfg h" using rd by blast
  obtain h2 where h2: "?rd (?wr (- 1) h1) = (masked_write (writable ?a) (cfg h ?a) (- 1), h2)"
    "cfg h2 = (cfg h)(?a := masked_write (writable ?a) (cfg h ?a) (- 1))"
    using rd [of "?wr (- 1) h1"] h1 by (auto simp: wr)
  have "cfg (?wr (cfg h ?a) h2) = cfg h"
    by (simp add: wr h2 masked_write_restores)
  moreover have "\<not> (cfg h ?a AND 1 = 0 \<and> cfg h ?a AND 6 = 2)" using assms by simp
  ultimately show ?thesis
    by (intro exI [of _ "?wr (cfg h ?a) h2"]) (simp add: get_bar_def h1 h2 Let_def)
qed

end

text \<open>C33:
  A 32-bit memory range of \<open>2 ^ k\<close> bytes: \<open>get_bar\<close> returns its base, its size and the prefetchable bit, and
  leaves the register as it found it.
\<close>

theorem get_bar_memory32:
  assumes "config_space H cfg writable"
    and "writable (bar_addr d bar) = NOT (mask k)" and "4 \<le> k" and "k \<le> 32"
    and "cfg h (bar_addr d bar) AND 1 = 0" and "cfg h (bar_addr d bar) AND 6 \<noteq> 2"
    and "cfg h (bar_addr d bar) AND mask k AND NOT 0xf = 0"
  shows "\<exists>h'. cfg h' = cfg h \<and> get_bar H d bar h =
    (\<lparr>bar_base = ucast (cfg h (bar_addr d bar)) AND NOT 0xf, bar_size = 2 ^ k, is_64bits = False,
      is_prefetchable = (cfg h (bar_addr d bar) AND 8 \<noteq> 0), is_mmio = True\<rparr>, h')"
proof -
  have "cfg h (bar_addr d bar) AND NOT (NOT (mask k)) AND NOT 0xf = 0" using assms(7) by simp
  from bar_mask_size [OF refl assms(3,4) this] show ?thesis
    using config_space.get_bar_single [OF assms(1), of h d bar] assms(2,5,6) by (simp add: Let_def)
qed

definition sample_ahci :: pci_dev where
  "sample_ahci = device sample_space 1 (0, 0)"

theorem get_bar_memory32_witness:
  "\<exists>h'. space h' = sample_space \<and> get_bar (chipset_hw (\<lambda>_. NOT (mask 13)) (\<lambda>_. 0)) sample_ahci 5 sample_chipset =
     (\<lparr>bar_base = 0xfebd4000, bar_size = 0x2000, is_64bits = False, is_prefetchable = False, is_mmio = True\<rparr>, h')"
proof -
  have "space sample_chipset (bar_addr sample_ahci 5) = 0xfebd4000"
    by (simp add: sample_chipset_def sample_ahci_def device_def sample_space_at bar_offset_def)
  moreover have "space sample_chipset = sample_space" by (simp add: sample_chipset_def)
  ultimately show ?thesis
    using get_bar_memory32 [OF chip.config_space_axioms, of "\<lambda>_. NOT (mask 13)" sample_ahci 5 13
        "sample_chipset" "\<lambda>_. 0"] by (simp add: mask_eq_exp_minus_1)
qed

text \<open>
  A 64-bit memory range has the type bits 100. \<open>get_bar\<close> tests for 010: it takes the range for a 32-bit one
  and loses the upper half of its address.
\<close>

theorem get_bar_64bit_loses_high:
  assumes "config_space H cfg writable"
    and "cfg h (bar_addr d bar) AND 7 = 4"
    and "high \<noteq> 0"
  shows "is_64bits (fst (get_bar H d bar h)) = False \<and>
    bar_base (fst (get_bar H d bar h)) \<noteq>
      push_bit 32 (ucast (high :: u32)) OR (ucast (cfg h (bar_addr d bar)) AND NOT 0xf)"
proof -
  let ?low = "cfg h (bar_addr d bar)"
  have "?low AND 1 = (?low AND 7) AND 1" "?low AND 6 = (?low AND 7) AND 6" by (simp_all add: and.assoc)
  then have low: "?low AND 1 = 0" "?low AND 6 = 4" unfolding assms(2) by simp_all
  have "\<exists>n < LENGTH(32). bit high n"
  proof (rule ccontr)
    assume "\<not> ?thesis"
    then have "high = 0" by (intro bit_word_eqI) auto
    with assms(3) show False ..
  qed
  then obtain n where "bit high n" "n < 32" by auto
  then have "\<not> bit (ucast ?low AND NOT 0xf :: u64) (32 + n)"
    "bit (push_bit 32 (ucast high) OR (ucast ?low AND NOT 0xf) :: u64) (32 + n)"
    using bit_imp_le_length [of ?low "32 + n"] by (auto simp: bit_simps)
  then have "ucast ?low AND NOT 0xf \<noteq> (push_bit 32 (ucast high) OR (ucast ?low AND NOT 0xf) :: u64)" by metis
  then show ?thesis
    using config_space.get_bar_single [OF assms(1), of h d bar] low by (auto simp: Let_def)
qed


theorem get_bar_64bit_loses_high_witness:
  "is_64bits (fst (get_bar (chipset_hw (\<lambda>_. NOT (mask 13)) (\<lambda>_. 0)) sample_ahci 5
     (sample_chipset\<lparr>space := (\<lambda>_. 0xfe000004)\<rparr>))) = False \<and>
   bar_base (fst (get_bar (chipset_hw (\<lambda>_. NOT (mask 13)) (\<lambda>_. 0)) sample_ahci 5
     (sample_chipset\<lparr>space := (\<lambda>_. 0xfe000004)\<rparr>))) \<noteq> 0x8fe000000"
  using get_bar_64bit_loses_high [OF chip.config_space_axioms, of "sample_chipset\<lparr>space := (\<lambda>_. 0xfe000004)\<rparr>"
      sample_ahci 5 8 "\<lambda>_. NOT (mask 13)" "\<lambda>_. 0"] by simp

text \<open>An I/O range of 4 or 8 bytes: the mask \<open>~0xd\<close> clears two address bits, the size becomes 16.\<close>

lemma get_bar_small_io:
  assumes "config_space H cfg writable"
    and "writable (bar_addr d bar) = NOT (mask k)" and "k = 2 \<or> k = 3"
    and "cfg h (bar_addr d bar) AND mask k = 1"
  shows "bar_size (fst (get_bar H d bar h)) = 16"
proof -
  let ?low = "cfg h (bar_addr d bar)"
  have "?low AND 1 = (?low AND mask k) AND 1" using assms(3) by (auto simp: and.assoc mask_eq_exp_minus_1)
  then have one: "?low AND 1 \<noteq> 0" unfolding assms(4) by simp
  have "masked_write (NOT (mask k)) ?low (- 1) = NOT (mask k) OR 1"
    unfolding masked_write_def by (simp add: assms(4) or.commute)
  have eval: "(push_bit 32 (ucast (- 1 :: u32)) OR 0xfffffffd :: u64) AND - 14 = - 16"
    "(push_bit 32 (ucast (- 1 :: u32)) OR 0xfffffff9 :: u64) AND - 14 = - 16" by code_simp+
  from \<open>masked_write (NOT (mask k)) ?low (- 1) = NOT (mask k) OR 1\<close>
  have "(push_bit 32 (ucast (- 1 :: u32)) OR ucast (masked_write (NOT (mask k)) ?low (- 1)) :: u64) AND NOT 0xd
      = NOT 0xf"
    using assms(3) eval by (auto simp: mask_eq_exp_minus_1)
  then have "NOT ((push_bit 32 (ucast (- 1 :: u32)) OR ucast (masked_write (NOT (mask k)) ?low (- 1)) :: u64)
      AND NOT 0xd) = NOT (NOT 0xf)" by (rule arg_cong)
  then show ?thesis
    using config_space.get_bar_single [OF assms(1), of h d bar] one by (auto simp: Let_def assms(2))
qed

section \<open>Capability lists\<close>

definition cap_id_at :: "(u32 \<Rightarrow> u32) \<Rightarrow> pci_dev \<Rightarrow> u8 \<Rightarrow> u8" where
  "cap_id_at c d off = ucast (cfg_word c (dev_bus d) (dev_slot d) (dev_func d) off AND 0xff)"

definition cap_next :: "(u32 \<Rightarrow> u32) \<Rightarrow> pci_dev \<Rightarrow> u8 \<Rightarrow> u8" where
  "cap_next c d off = ucast (drop_bit 8 (cfg_word c (dev_bus d) (dev_slot d) (dev_func d) off))"

definition cap_first :: "(u32 \<Rightarrow> u32) \<Rightarrow> pci_dev \<Rightarrow> u8" where
  "cap_first c d = ucast (cfg_word c (dev_bus d) (dev_slot d) (dev_func d) 0x34 AND 0xfc)"

text \<open>The capabilities at the given offsets are linked in this order and the last one ends the list.\<close>

fun cap_chain :: "(u32 \<Rightarrow> u32) \<Rightarrow> pci_dev \<Rightarrow> u8 list \<Rightarrow> bool" where
  "cap_chain c d [] = False"
| "cap_chain c d [off] = (cap_next c d off = 0)"
| "cap_chain c d (off # off' # offs) = (cap_next c d off = off' \<and> off' \<noteq> 0 \<and> cap_chain c d (off' # offs))"

abbreviation (input) find_cap_at :: "'h hw \<Rightarrow> pci_dev \<Rightarrow> u8 \<Rightarrow> u8 \<Rightarrow> 'h \<Rightarrow> (u8 \<times> 'h) option" where
  "find_cap_at H d \<equiv> find_cap_from H (dev_bus d) (dev_slot d) (dev_func d)"

context config_space
begin

lemma find_cap_from_unfold:
  "\<exists>h1 h2. cfg h1 = cfg h \<and> cfg h2 = cfg h \<and> find_cap_at H d cap_id off h =
    (if cap_id_at (cfg h) d off = cap_id then Some (off, h1)
     else if cap_next (cfg h) d off = 0 then Some (0, h2)
     else find_cap_at H d cap_id (cap_next (cfg h) d off) h2)"
proof -
  let ?rd = "pci_readw H (dev_bus d) (dev_slot d) (dev_func d) off"
  let ?w = "\<lambda>g. cfg_word (cfg g) (dev_bus d) (dev_slot d) (dev_func d) off"
  obtain h1 where h1: "?rd h = (?w h, h1)" "cfg h1 = cfg h" using readw by blast
  obtain h2 where h2: "?rd h1 = (?w h1, h2)" "cfg h2 = cfg h1" using readw by blast
  show ?thesis
    by (intro exI [of _ h1] exI [of _ h2])
      (subst find_cap_from.simps, simp add: h1 h2 cap_id_at_def cap_next_def)
qed

lemma find_cap_from_chain:
  "cap_chain (cfg h) d (off # offs) \<Longrightarrow>
    \<exists>h'. cfg h' = cfg h \<and> find_cap_at H d cap_id off h =
      Some (case find (\<lambda>off. cap_id_at (cfg h) d off = cap_id) (off # offs) of Some r \<Rightarrow> r | None \<Rightarrow> 0, h')"
proof (induction offs arbitrary: off h)
  case Nil
  then show ?case using find_cap_from_unfold [of h d cap_id off] by auto
next
  case (Cons off' offs)
  obtain h1 h2 where h12: "cfg h1 = cfg h" "cfg h2 = cfg h" "find_cap_at H d cap_id off h =
    (if cap_id_at (cfg h) d off = cap_id then Some (off, h1)
     else if cap_next (cfg h) d off = 0 then Some (0, h2)
     else find_cap_at H d cap_id (cap_next (cfg h) d off) h2)"
    using find_cap_from_unfold by blast
  show ?case
  proof (cases "cap_id_at (cfg h) d off = cap_id")
    case True
    then show ?thesis using h12 by auto
  next
    case False
    then show ?thesis using Cons.IH [of h2 off'] Cons.prems h12 by auto
  qed
qed

lemma find_cap_unfold:
  "\<exists>h'. cfg h' = cfg h \<and> find_cap H d cap_id h = find_cap_at H d cap_id (cap_first (cfg h) d) h'"
  using readw [of "dev_bus d" "dev_slot d" "dev_func d" "0x34" h]
  by (auto simp: find_cap_def cap_first_def)

lemma find_cap_from_sound:
  assumes "find_cap_from H b s f cap_id off h = Some rh"
  shows "cfg (snd rh) = cfg h \<and> (fst rh \<noteq> 0 \<longrightarrow> ucast (cfg_word (cfg h) b s f (fst rh) AND 0xff) = cap_id)"
proof -
  let ?P = "\<lambda>K b s f i off h rh. K = H \<longrightarrow>
    cfg (snd rh) = cfg h \<and> (fst rh \<noteq> 0 \<longrightarrow> ucast (cfg_word (cfg h) b s f (fst rh) AND 0xff) = i)"
  have "?P H b s f cap_id off h rh"
  proof (rule find_cap_from.raw_induct [where P = ?P, OF _ assms])
    fix F K b s f i off h rh
    assume IH: "\<And>K b s f i off h rh. F K b s f i off h = Some rh \<Longrightarrow> ?P K b s f i off h rh"
      and step: "(case pci_readw K b s f off h of (w, h) \<Rightarrow>
        if ucast (w AND 0xff) = i then Some (off, h)
        else (case pci_readw K b s f off h of (w, h) \<Rightarrow>
          if ucast (drop_bit 8 w) = (0 :: u8) then Some (0, h)
          else F K b s f i (ucast (drop_bit 8 w)) h)) = Some rh"
    show "?P K b s f i off h rh"
    proof
      assume K: "K = H"
      obtain h1 where h1: "pci_readw H b s f off h = (cfg_word (cfg h) b s f off, h1)" "cfg h1 = cfg h"
        using readw by blast
      obtain h2 where h2: "pci_readw H b s f off h1 = (cfg_word (cfg h1) b s f off, h2)" "cfg h2 = cfg h1"
        using readw by blast
      show "cfg (snd rh) = cfg h \<and> (fst rh \<noteq> 0 \<longrightarrow> ucast (cfg_word (cfg h) b s f (fst rh) AND 0xff) = i)"
        using step IH [of H b s f i _ h2 rh] K h1 h2 by (auto split: if_splits)
    qed
  qed
  then show ?thesis by simp
qed

end

text \<open>
  On a capability list that ends, the search returns, with the offset of the first capability of the
  requested kind or 0 when there is none.
\<close>

theorem find_cap_terminates:
  assumes "config_space H cfg writable"
    and "cap_chain (cfg h) d (cap_first (cfg h) d # offs)"
  shows "\<exists>h'. cfg h' = cfg h \<and> find_cap H d cap_id h =
    Some (case find (\<lambda>off. cap_id_at (cfg h) d off = cap_id) (cap_first (cfg h) d # offs) of
      Some r \<Rightarrow> r | None \<Rightarrow> 0, h')"
proof -
  obtain h1 where h1: "cfg h1 = cfg h" "find_cap H d cap_id h = find_cap_at H d cap_id (cap_first (cfg h) d) h1"
    using config_space.find_cap_unfold [OF assms(1)] by blast
  then show ?thesis
    using config_space.find_cap_from_chain [OF assms(1), of h1 d "cap_first (cfg h) d" offs cap_id] assms(2) by simp
qed

text \<open>A device at bus 0, slot 0 with a power management capability at 0x40 and MSI at 0x50.\<close>

definition caps_space :: "u32 \<Rightarrow> u32" where
  "caps_space a =
     (if a = config_addr 0 0 0 0x34 then 0x40 else if a = config_addr 0 0 0 0x40 then 0x5001
      else if a = config_addr 0 0 0 0x50 then 0x00000005 else if a = config_addr 0 0 0 4 then 0x00100000 else 0)"

definition caps_dev :: pci_dev where
  "caps_dev = \<lparr>dev_bus = 0, dev_slot = 0, dev_func = 0, dev_class = 0, dev_subclass = 0, dev_prog_if = 0\<rparr>"

lemmas caps_defs = cap_id_at_def cap_next_def cap_first_def cfg_word_def cfg_dword_def caps_space_def caps_dev_def
  config_addr_def

theorem find_cap_terminates_witness:
  "\<exists>h'. space h' = caps_space \<and> find_cap (chipset_hw (\<lambda>_. 0) (\<lambda>_. 0)) caps_dev 5
     (sample_chipset\<lparr>space := caps_space\<rparr>) = Some (0x50, h')"
proof -
  have "cap_chain caps_space caps_dev (cap_first caps_space caps_dev # [0x50])"
    "cap_first caps_space caps_dev = 0x40" "cap_id_at caps_space caps_dev 0x40 = 1"
    "cap_id_at caps_space caps_dev 0x50 = 5"
    by (simp_all add: caps_defs)
  then show ?thesis
    using find_cap_terminates [OF chip.config_space_axioms, of "sample_chipset\<lparr>space := caps_space\<rparr>" caps_dev
        "[0x50]" "\<lambda>_. 0" "\<lambda>_. 0" 5] by simp
qed

lemma msi_id_bits:
  fixes w :: u16
  assumes "ucast (w AND 0xff) = (5 :: u8)"
  shows "drop_bit 1 w AND 7 = 2"
proof -
  have "w AND 0xff = ucast (ucast (w AND 0xff) :: u8)"
  proof (rule bit_word_eqI)
    fix n
    have "bit (0xff :: u16) n \<longleftrightarrow> n < 8"
      using bit_mask_iff [of 8 n, where 'a = u16] by (auto simp: mask_eq_exp_minus_1 simp del: bit_numeral_iff)
    then show "bit (w AND 0xff) n = bit (ucast (ucast (w AND 0xff) :: u8) :: u16) n"
      unfolding bit_ucast_iff bit_and_iff by auto
  qed
  then have "w AND 0xff = 5" by (simp add: assms)
  moreover have "drop_bit 1 w AND 7 = drop_bit 1 (w AND 0xff) AND 7"
    by (simp add: drop_bit_and and.assoc)
  ultimately show ?thesis by simp
qed

text \<open>
  The number of MSI vectors of a device: \<open>pci_msi_vec_count\<close> reads the capability's first word instead of its
  control word. That word ends in the capability's kind, so the result is 4 for every device
  with the capability (and 0xff for every other).
\<close>

theorem msi_vec_count_is_four:
  assumes "config_space H cfg writable"
    and "pci_msi_vec_count H d h = Some (n, h')"
  shows "n = 4 \<or> n = 0xff"
proof -
  obtain h1 where h1: "pci_readw H (dev_bus d) (dev_slot d) (dev_func d) 0x6 h =
      (cfg_word (cfg h) (dev_bus d) (dev_slot d) (dev_func d) 0x6, h1)" "cfg h1 = cfg h"
    using config_space.readw [OF assms(1)] by blast
  show ?thesis
  proof (rule ccontr)
    assume no: "\<not> ?thesis"
    then obtain off h2 where cap: "find_cap H d 0x5 h1 = Some (off, h2)" "off \<noteq> 0"
      and n: "n = push_bit (unat (drop_bit 1
        (fst (pci_readw H (dev_bus d) (dev_slot d) (dev_func d) off h2)) AND 7)) 1"
      using assms(2) h1 by (auto simp: pci_msi_vec_count_def split: if_splits option.splits prod.splits)
    obtain h3 where "cfg h3 = cfg h1" "find_cap_at H d 5 (cap_first (cfg h1) d) h3 = Some (off, h2)"
      using config_space.find_cap_unfold [OF assms(1), of h1 d 5] cap(1) by auto
    then have "cfg h2 = cfg h3"
      and five: "ucast (cfg_word (cfg h3) (dev_bus d) (dev_slot d) (dev_func d) off AND 0xff) = (5 :: u8)"
      using config_space.find_cap_from_sound [OF assms(1)] cap(2) by fastforce+
    moreover obtain h4 where "pci_readw H (dev_bus d) (dev_slot d) (dev_func d) off h2 =
        (cfg_word (cfg h2) (dev_bus d) (dev_slot d) (dev_func d) off, h4)"
      using config_space.readw [OF assms(1)] by blast
    ultimately have "n = 4" using msi_id_bits [OF five] by (simp add: n)
    then show False using no by simp
  qed
qed

lemma caps_msi_eval:
  "\<exists>n h'. pci_msi_vec_count (chipset_hw (\<lambda>_. 0) (\<lambda>_. 0)) caps_dev (sample_chipset\<lparr>space := caps_space\<rparr>) =
     Some (n, h') \<and> n \<noteq> 0xff"
  by (simp add: pci_msi_vec_count_def find_cap_def find_cap_from.simps pci_readw_def pci_readd_def ind_def
      outd_def chipset_hw_def caps_space_def caps_dev_def config_addr_def)

theorem msi_vec_count_is_four_witness:
  "\<exists>h'. pci_msi_vec_count (chipset_hw (\<lambda>_. 0) (\<lambda>_. 0)) caps_dev (sample_chipset\<lparr>space := caps_space\<rparr>) =
     Some (4, h')"
  using caps_msi_eval msi_vec_count_is_four [OF chip.config_space_axioms] by metis

end
