(* ===== verification/Ram.thy ===== *)
theory Ram
  imports Hardware Acpi Pci
begin

text \<open>
  The memory that a driver shares with its device, and waiting for a device register. The processor's memory is a part of
  the hardware state that the device may change whenever it is accessed: \<open>mem_of\<close> reads it, \<open>with_mem\<close> replaces it.
  What a driver writes is a function on memories. Used by the drivers in \<open>src/src/driver/\<close>.
\<close>

section \<open>Memory\<close>

type_synonym memory = "u64 \<Rightarrow> u8"

record 'h ram =
  mem_of :: "'h \<Rightarrow> memory"
  with_mem :: "memory \<Rightarrow> 'h \<Rightarrow> 'h"

definition on_mem :: "'h ram \<Rightarrow> (memory \<Rightarrow> memory) \<Rightarrow> 'h \<Rightarrow> 'h" where
  "on_mem M f h = with_mem M (f (mem_of M h)) h"

definition wr16 :: "u64 \<Rightarrow> u16 \<Rightarrow> memory \<Rightarrow> memory" where
  "wr16 a v m = m(a := ucast v, a + 1 := ucast (drop_bit 8 v))"

definition wr32 :: "u64 \<Rightarrow> u32 \<Rightarrow> memory \<Rightarrow> memory" where
  "wr32 a v m = wr16 (a + 2) (ucast (drop_bit 16 v)) (wr16 a (ucast v) m)"

definition wr64 :: "u64 \<Rightarrow> u64 \<Rightarrow> memory \<Rightarrow> memory" where
  "wr64 a v m = wr32 (a + 4) (ucast (drop_bit 32 v)) (wr32 a (ucast v) m)"

text \<open>The loops that set \<open>n\<close> bytes to zero.\<close>

definition zero_bytes :: "u64 \<Rightarrow> nat \<Rightarrow> memory \<Rightarrow> memory" where
  "zero_bytes a n m = fold (\<lambda>i m. m(a + of_nat i := 0)) [0..<n] m"

text \<open>The loops that copy \<open>n\<close> bytes.\<close>

definition copy_bytes :: "u64 \<Rightarrow> u64 \<Rightarrow> nat \<Rightarrow> memory \<Rightarrow> memory" where
  "copy_bytes dst src n m = fold (\<lambda>i m. m(dst + of_nat i := m (src + of_nat i))) [0..<n] m"

section \<open>Registers\<close>

text \<open>A read-modify-write access.\<close>

definition mmio_upd :: "'h hw \<Rightarrow> u64 \<Rightarrow> (u32 \<Rightarrow> u32) \<Rightarrow> 'h \<Rightarrow> 'h" where
  "mmio_upd H a f h = (case mmio_read H a h of (v, h) \<Rightarrow> mmio_write H a (f v) h)"

text \<open>A loop that reads a register as long as \<open>busy\<close> holds of its value; \<open>None\<close>: it does not end.\<close>

partial_function (option) poll :: "'h hw \<Rightarrow> u64 \<Rightarrow> (u32 \<Rightarrow> bool) \<Rightarrow> 'h \<Rightarrow> 'h option" where
  "poll H a busy h = (case mmio_read H a h of (v, h) \<Rightarrow> if busy v then poll H a busy h else Some h)"

lemma poll_stuck:
  assumes step: "\<And>h. P h \<Longrightarrow> busy (fst (mmio_read H a h)) \<and> P (snd (mmio_read H a h))" and "P h"
  shows "poll H a busy h = None"
proof (rule ccontr)
  assume "poll H a busy h \<noteq> None"
  then obtain r where r: "poll H a busy h = Some r" by blast
  let ?Q = "\<lambda>H' a' b h r. H' = H \<and> a' = a \<and> b = busy \<and> P h \<longrightarrow> False"
  have "?Q H a busy h r"
  proof (rule poll.raw_induct [where P = ?Q, OF _ r])
    fix F H' a' b h r
    assume IH: "\<And>H a b h r. F H a b h = Some r \<Longrightarrow> ?Q H a b h r"
      and eq: "(case mmio_read H' a' h of (v, h) \<Rightarrow> if b v then F H' a' b h else Some h) = Some r"
    show "?Q H' a' b h r"
    proof
      assume *: "H' = H \<and> a' = a \<and> b = busy \<and> P h"
      then have "F H a busy (snd (mmio_read H a h)) = Some r"
        using eq step [of h] by (simp add: prod.case_eq_if)
      from IH [OF this] show False using * step by blast
    qed
  qed
  then show False using assms(2) by simp
qed

lemma fold_update_offset:
  fixes a x :: u64
  assumes "n \<le> 2 ^ 64"
  shows "fold (\<lambda>i m. m(a + of_nat i := f i)) [0..<n] m x = (if unat (x - a) < n then f (unat (x - a)) else m x)"
  using assms
proof (induction n)
  case (Suc n)
  have "x = a + of_nat n \<longleftrightarrow> unat (x - a) = n"
  proof
    assume "unat (x - a) = n"
    then have "of_nat n = x - a" by auto
    then show "x = a + of_nat n" by simp
  qed (use Suc.prems in \<open>simp add: unat_of_nat\<close>)
  then show ?case using Suc by (auto simp: less_Suc_eq)
qed simp

text \<open>The loops that clear memory change exactly the bytes of the range.\<close>

lemma zero_bytes_apply: "n \<le> 2 ^ 64 \<Longrightarrow> zero_bytes a n m x = (if unat (x - a) < n then 0 else m x)"
  unfolding zero_bytes_def by (rule fold_update_offset)

section \<open>Reading back what was written\<close>

lemma rd16_wr16 [simp]: "rd16 (wr16 a v m) a = v"
  by (rule bit_word_eqI) (auto simp: rd16_def wr16_def bit_simps)

lemma join_16: "(ucast (ucast v :: u16) OR push_bit 16 (ucast (ucast (drop_bit 16 v) :: u16)) :: u32) = v"
  by (rule bit_word_eqI) (auto simp: bit_simps)

lemma wr16_apply: "wr16 a v m x = (if x = a + 1 then ucast (drop_bit 8 v) else if x = a then ucast v else m x)"
  by (simp add: wr16_def)

lemma rd16_cong: "m a = m' a \<Longrightarrow> m (a + 1) = m' (a + 1) \<Longrightarrow> rd16 m a = rd16 m' a"
  by (simp add: rd16_def)

lemma rd32_wr32 [simp]: "rd32 (wr32 a v m) a = v"
proof -
  have "rd16 (wr32 a v m) a = ucast v"
    unfolding wr32_def by (subst rd16_cong [where m' = "wr16 a (ucast v) m"]) (simp_all add: wr16_apply)
  then show ?thesis by (simp add: rd32_def wr32_def join_16)
qed

text \<open>A write changes the four bytes from its address on.\<close>

lemma wr32_other:
  assumes "4 \<le> unat (x - a)"
  shows "wr32 a v m x = m x"
proof -
  have "x \<noteq> a" "x \<noteq> a + 1" "x \<noteq> a + 2" "x \<noteq> a + 3" using assms by auto
  moreover have "x \<noteq> a + 2 + 1" using \<open>x \<noteq> a + 3\<close> by (simp add: add.assoc)
  ultimately show ?thesis by (simp add: wr32_def wr16_apply)
qed

lemma rd32_cong: "(\<And>i. i < 4 \<Longrightarrow> m (a + of_nat i) = m' (a + of_nat i)) \<Longrightarrow> rd32 m a = rd32 m' a"
proof -
  assume eq: "\<And>i. i < 4 \<Longrightarrow> m (a + of_nat i) = m' (a + of_nat i)"
  show ?thesis using eq [of 0] eq [of 1] eq [of 2] eq [of 3] by (simp add: rd32_def rd16_def add.commute [of a])
qed

lemma rd32_wr32_near:
  "rd32 (wr32 (e + 4) v m) e = rd32 m e" "rd32 (wr32 e v m) (e + 4) = rd32 m (e + 4)"
  "rd32 (wr32 e v m) (e + 12) = rd32 m (e + 12)" "rd32 (wr32 (e + 4) v m) (e + 12) = rd32 m (e + 12)"
  "rd32 (wr32 (e + 12) v m) e = rd32 m e" "rd32 (wr32 (e + 12) v m) (e + 4) = rd32 m (e + 4)"
  for e :: u64
  by (simp_all add: rd32_def rd16_def wr32_def wr16_apply add.commute [of e])

lemma join_64: "(ucast (ucast b :: u32) OR push_bit 32 (ucast (ucast (drop_bit 32 b) :: u32)) :: u64) = b"
  by (rule bit_word_eqI) (auto simp: bit_simps)

lemma rd64_wr64: "rd64 (wr64 a v m) a = v"
  by (simp add: rd64_def wr64_def rd32_wr32_near join_64)

lemma wr64_other: "8 \<le> unat (x - a) \<Longrightarrow> wr64 a v m x = m x"
proof -
  assume x: "8 \<le> unat (x - a)"
  then have "unat (x - a - 4) = unat (x - a) - 4" by (simp add: unat_sub word_le_nat_alt)
  then have "4 \<le> unat (x - (a + 4))" using x by (simp add: diff_diff_eq)
  then show ?thesis using x by (simp add: wr64_def wr32_other)
qed

text \<open>The interface of the memory: what is written to it is read back.\<close>

locale shared_memory =
  fixes M :: "'h ram"
  assumes mem_with: "mem_of M (with_mem M m h) = m"

section \<open>Register blocks\<close>

text \<open>The loop that maps the pages of a register block.\<close>

definition map_bar :: "pci_bar \<Rightarrow> mm \<Rightarrow> mm" where
  "map_bar bar m =
     fold (\<lambda>i. map_frame (to_page (bar_base bar + ucast (of_nat i * 4096 :: u32)))
         (to_frame (bar_base bar + ucast (of_nat i * 4096 :: u32))) (Present OR Writeable OR DisableCache))
       [0..<unat ((bar_size bar - 1) div 4096 + 1)] m"

end
