(* ===== verification/Cpu.thy ===== *)
theory Cpu
  imports Ram
begin

text \<open>
  The part of the x86-64 processor that the assembly files of the kernel (\<open>src/src/syscall/syscall.asm\<close>,
  \<open>src/src/boot/boot.asm\<close>, \<open>src/src/interrupt/bios/bios.asm\<close>) work on. An instruction is a function on the state, straight
  code a list of them. The instruction pointer is only kept where control leaves the straight line. Faults of the
  instructions themselves (non-canonical addresses, pages that are not mapped) are left out, and so is the bit of EFER that
  the processor itself keeps (long mode active).
\<close>

section \<open>State\<close>

datatype reg = RAX | RBX | RCX | RDX | RSI | RDI | RBP | RSP | R8 | R9 | R10 | R11 | R12 | R13 | R14 | R15

record cpu =
  gpr :: "reg \<Rightarrow> u64"
  pc :: u64
  eflags :: u64
  cr0 :: u64
  cr3 :: u64
  cs_sel :: u16
  ss_sel :: u16
  data_sel :: u16
  tr_sel :: u16
  gdtr :: "u16 \<times> u64"
  msr :: "u32 \<Rightarrow> u64"
  cpu_mem :: memory

text \<open>\<open>data_sel\<close> stands for ds, es, fs and gs, which the kernel always loads with the same selector.\<close>

definition ring :: "cpu \<Rightarrow> u16" where
  "ring c = cs_sel c AND 3"

abbreviation (input) IF_FLAG :: u64 where "IF_FLAG \<equiv> 0x200"
abbreviation (input) EFER :: u32 where "EFER \<equiv> 0xc0000080"
abbreviation (input) STAR :: u32 where "STAR \<equiv> 0xc0000081"
abbreviation (input) LSTAR :: u32 where "LSTAR \<equiv> 0xc0000082"
abbreviation (input) FMASK :: u32 where "FMASK \<equiv> 0xc0000084"

section \<open>Instructions\<close>

definition set_reg :: "reg \<Rightarrow> u64 \<Rightarrow> cpu \<Rightarrow> cpu" where
  "set_reg r v c = c\<lparr>gpr := (gpr c)(r := v)\<rparr>"

definition mov :: "reg \<Rightarrow> reg \<Rightarrow> cpu \<Rightarrow> cpu" where
  "mov r r' c = set_reg r (gpr c r') c"

text \<open>A write of the lower half of a register clears its upper half.\<close>

definition set_low :: "reg \<Rightarrow> u32 \<Rightarrow> cpu \<Rightarrow> cpu" where
  "set_low r v = set_reg r (ucast v)"

definition low :: "reg \<Rightarrow> cpu \<Rightarrow> u32" where
  "low r c = ucast (gpr c r)"

text \<open>\<open>mov eax, edi\<close> and the like.\<close>

definition mov_low :: "reg \<Rightarrow> reg \<Rightarrow> cpu \<Rightarrow> cpu" where
  "mov_low r r' c = set_low r (low r' c) c"

definition shr_reg :: "reg \<Rightarrow> nat \<Rightarrow> cpu \<Rightarrow> cpu" where
  "shr_reg r n c = set_reg r (drop_bit n (gpr c r)) c"

definition push_val :: "u64 \<Rightarrow> cpu \<Rightarrow> cpu" where
  "push_val v c = (let a = gpr c RSP - 8 in (set_reg RSP a c)\<lparr>cpu_mem := wr64 a v (cpu_mem c)\<rparr>)"

definition push :: "reg \<Rightarrow> cpu \<Rightarrow> cpu" where
  "push r c = push_val (gpr c r) c"

text \<open>For \<open>pop rsp\<close> the value read replaces the increment.\<close>

definition pop :: "reg \<Rightarrow> cpu \<Rightarrow> cpu" where
  "pop r c = set_reg r (rd64 (cpu_mem c) (gpr c RSP)) (set_reg RSP (gpr c RSP + 8) c)"

definition cli :: "cpu \<Rightarrow> cpu" where
  "cli c = c\<lparr>eflags := eflags c AND NOT IF_FLAG\<rparr>"

definition sti :: "cpu \<Rightarrow> cpu" where
  "sti c = c\<lparr>eflags := eflags c OR IF_FLAG\<rparr>"

definition rdmsr_instr :: "cpu \<Rightarrow> cpu" where
  "rdmsr_instr c =
     (let v = msr c (low RCX c) in set_low RDX (ucast (drop_bit 32 v)) (set_low RAX (ucast v) c))"

definition wrmsr_instr :: "cpu \<Rightarrow> cpu" where
  "wrmsr_instr c =
     c\<lparr>msr := (msr c)(low RCX c := push_bit 32 (ucast (low RDX c)) OR ucast (low RAX c))\<rparr>"

definition or_eax :: "u32 \<Rightarrow> cpu \<Rightarrow> cpu" where
  "or_eax v c = set_low RAX (low RAX c OR v) c"

definition and_eax :: "u32 \<Rightarrow> cpu \<Rightarrow> cpu" where
  "and_eax v c = set_low RAX (low RAX c AND v) c"

text \<open>
  \<open>syscall\<close> (two bytes long) and the 64-bit form of \<open>sysret\<close>. \<open>None\<close>: system calls are not enabled, the instruction is
  undefined.
\<close>

definition syscall_instr :: "cpu \<Rightarrow> cpu option" where
  "syscall_instr c =
     (if bit (msr c EFER) 0 then
        let sel = ucast (drop_bit 32 (msr c STAR)) AND 0xfffc :: u16
        in Some ((set_reg R11 (eflags c) (set_reg RCX (pc c + 2) c))
             \<lparr>pc := msr c LSTAR, eflags := eflags c AND NOT (msr c FMASK), cs_sel := sel, ss_sel := sel + 8\<rparr>)
      else None)"

definition sysret_instr :: "cpu \<Rightarrow> cpu option" where
  "sysret_instr c =
     (if bit (msr c EFER) 0 then
        let sel = ucast (drop_bit 48 (msr c STAR)) :: u16
        in Some (c\<lparr>pc := gpr c RCX, eflags := gpr c R11 AND 0x3c7fd7 OR 2, cs_sel := (sel + 16) OR 3, ss_sel := (sel + 8) OR 3\<rparr>)
      else None)"

definition run :: "(cpu \<Rightarrow> cpu) list \<Rightarrow> cpu \<Rightarrow> cpu" where
  "run = fold (\<lambda>i. i)"

lemma run_simps [simp]: "run [] c = c" "run (i # is) c = run is (i c)" "run (is @ js) c = run js (run is c)"
  by (simp_all add: run_def)

lemma set_reg_simps [simp]:
  "gpr (set_reg r v c) = (gpr c)(r := v)" "pc (set_reg r v c) = pc c" "eflags (set_reg r v c) = eflags c"
  "cr0 (set_reg r v c) = cr0 c" "cr3 (set_reg r v c) = cr3 c" "cs_sel (set_reg r v c) = cs_sel c"
  "ss_sel (set_reg r v c) = ss_sel c" "data_sel (set_reg r v c) = data_sel c" "tr_sel (set_reg r v c) = tr_sel c"
  "gdtr (set_reg r v c) = gdtr c" "msr (set_reg r v c) = msr c" "cpu_mem (set_reg r v c) = cpu_mem c"
  by (simp_all add: set_reg_def)

section \<open>The stack\<close>

definition area :: "u64 \<Rightarrow> nat \<Rightarrow> u64 set" where
  "area a n = {x. unat (x - a) < n}"

lemma rd64_cong: "(\<And>x. x \<in> area a 8 \<Longrightarrow> m x = m' x) \<Longrightarrow> rd64 m a = rd64 m' a"
proof -
  assume eq: "\<And>x. x \<in> area a 8 \<Longrightarrow> m x = m' x"
  have "m (a + of_nat i) = m' (a + of_nat i)" if "i < 8" for i
    using that by (intro eq) (simp add: area_def unat_of_nat)
  from this [of 0] this [of 1] this [of 2] this [of 3] this [of 4] this [of 5] this [of 6] this [of 7] show ?thesis
    by (simp add: rd64_def rd32_def rd16_def add.commute [of a])
qed

text \<open>A cell inside of an area, and two cells of a stack apart from each other.\<close>

lemma unat_cell:
  fixes a x :: u64
  assumes "i \<le> 2 ^ 60"
  shows "unat (x - a) = (unat (x - (a + 8 * of_nat i)) + 8 * i) mod 2 ^ 64"
proof -
  have "unat (8 * of_nat i :: u64) = 8 * i" using assms by (simp add: unat_word_ariths unat_of_nat)
  moreover have "x - a = (x - (a + 8 * of_nat i)) + 8 * of_nat i" by simp
  ultimately show ?thesis using unat_word_ariths(1) [of "x - (a + 8 * of_nat i)" "8 * of_nat i"] by simp
qed

lemma cell_in_area: "x \<in> area (a + 8 * of_nat i) 8 \<Longrightarrow> i < n \<Longrightarrow> n \<le> 2 ^ 60 \<Longrightarrow> x \<in> area a (8 * n)"
  using unat_cell [of i x a] by (simp add: area_def)

lemma cell_apart: "x \<in> area (a + 8 * of_nat i) 8 \<Longrightarrow> 0 < i \<Longrightarrow> i \<le> 2 ^ 60 \<Longrightarrow> 8 \<le> unat (x - a)"
  using unat_cell [of i x a] by (simp add: area_def)

text \<open>Pushing a list of registers: the cells from the new stack pointer on hold them, the last one first.\<close>

lemma run_push:
  assumes "RSP \<notin> set rs" "length rs \<le> 2 ^ 60"
  shows "\<exists>m. run (map push rs) c = (set_reg RSP (gpr c RSP - 8 * of_nat (length rs)) c)\<lparr>cpu_mem := m\<rparr> \<and>
    (\<forall>i < length rs. rd64 m (gpr c RSP - 8 * of_nat (length rs) + 8 * of_nat i) = gpr c (rev rs ! i)) \<and>
    (\<forall>x. x \<notin> area (gpr c RSP - 8 * of_nat (length rs)) (8 * length rs) \<longrightarrow> m x = cpu_mem c x)"
  using assms
proof (induction rs rule: rev_induct)
  case Nil
  show ?case by (intro exI [of _ "cpu_mem c"]) (simp add: set_reg_def)
next
  case (snoc r rs)
  let ?n = "length rs"
  let ?a = "gpr c RSP - 8 * of_nat ?n" let ?b = "gpr c RSP - 8 * of_nat (length (rs @ [r]))"
  obtain m where m: "run (map push rs) c = (set_reg RSP ?a c)\<lparr>cpu_mem := m\<rparr>"
    "\<forall>i < ?n. rd64 m (?a + 8 * of_nat i) = gpr c (rev rs ! i)"
    "\<forall>x. x \<notin> area ?a (8 * ?n) \<longrightarrow> m x = cpu_mem c x"
    using snoc by auto
  have b: "?a - 8 = ?b" by (simp add: algebra_simps)
  have "run (map push (rs @ [r])) c = (set_reg RSP ?b c)\<lparr>cpu_mem := wr64 ?b (gpr c r) m\<rparr>"
    using snoc.prems(1) by (auto simp: m(1) push_def push_val_def set_reg_def b Let_def simp del: of_nat_Suc length_append)
  moreover have "rd64 (wr64 ?b (gpr c r) m) (?b + 8 * of_nat i) = gpr c (rev (rs @ [r]) ! i)" if i: "i < length (rs @ [r])" for i
  proof (cases i)
    case 0
    then show ?thesis by (simp add: rd64_wr64)
  next
    case (Suc j)
    have at: "?b + 8 * of_nat i = ?a + 8 * of_nat j" using Suc by (simp add: algebra_simps)
    have "rd64 (wr64 ?b (gpr c r) m) (?b + 8 * of_nat i) = rd64 m (?b + 8 * of_nat i)"
      by (rule rd64_cong, rule wr64_other, erule cell_apart) (use Suc i snoc.prems(2) in simp_all)
    then show ?thesis using m(2) i Suc unfolding at by simp
  qed
  moreover have "wr64 ?b (gpr c r) m x = cpu_mem c x" if x: "x \<notin> area ?b (8 * length (rs @ [r]))" for x
  proof -
    have "8 \<le> unat (x - ?b)" using x by (simp add: area_def)
    moreover have "x \<notin> area ?a (8 * ?n)"
    proof
      assume "x \<in> area ?a (8 * ?n)"
      then have "unat (x - ?a) < 8 * ?n" by (simp add: area_def)
      moreover have "x - ?b = (x - ?a) + 8" using b by (simp add: algebra_simps)
      ultimately have "unat (x - ?b) < 8 * length (rs @ [r])" by (simp only: unat_word_ariths) simp
      then show False using x by (simp add: area_def)
    qed
    ultimately show ?thesis using m(3) by (simp add: wr64_other)
  qed
  ultimately show ?case by blast
qed

text \<open>Popping a list of registers.\<close>

lemma run_pop:
  assumes "RSP \<notin> set rs" "distinct rs"
  shows "\<exists>g. run (map pop rs) c = c\<lparr>gpr := g\<rparr> \<and> g RSP = gpr c RSP + 8 * of_nat (length rs) \<and>
    (\<forall>i < length rs. g (rs ! i) = rd64 (cpu_mem c) (gpr c RSP + 8 * of_nat i)) \<and>
    (\<forall>r. r \<notin> set rs \<longrightarrow> r \<noteq> RSP \<longrightarrow> g r = gpr c r)"
  using assms
proof (induction rs rule: rev_induct)
  case Nil
  show ?case by (intro exI [of _ "gpr c"]) simp
next
  case (snoc r rs)
  then obtain g where g: "run (map pop rs) c = c\<lparr>gpr := g\<rparr>" "g RSP = gpr c RSP + 8 * of_nat (length rs)"
    "\<forall>i < length rs. g (rs ! i) = rd64 (cpu_mem c) (gpr c RSP + 8 * of_nat i)"
    "\<forall>r. r \<notin> set rs \<longrightarrow> r \<noteq> RSP \<longrightarrow> g r = gpr c r"
    by auto
  let ?g = "(g(RSP := g RSP + 8))(r := rd64 (cpu_mem c) (g RSP))"
  have "run (map pop (rs @ [r])) c = c\<lparr>gpr := ?g\<rparr>" by (simp add: g(1) pop_def set_reg_def)
  moreover have "?g ((rs @ [r]) ! i) = rd64 (cpu_mem c) (gpr c RSP + 8 * of_nat i)" if "i < length (rs @ [r])" for i
  proof (cases "i < length rs")
    case True
    then have "rs ! i \<in> set rs" by simp
    then have "rs ! i \<noteq> r" "rs ! i \<noteq> RSP" using snoc.prems by auto
    then show ?thesis using True g(3) by (simp add: nth_append)
  next
    case False
    then have "i = length rs" using that by simp
    then show ?thesis using g(2) by simp
  qed
  ultimately show ?case
    using g(2,4) snoc.prems by (intro exI [of _ ?g]) (auto simp: algebra_simps simp del: fun_upd_apply, auto)
qed

end
