(* ===== verification/Tasks.thy ===== *)
theory Tasks
  imports Memory Console
begin

text \<open>
  The scheduler of \<open>src/src/proc/scheduler.c\<close> and the creation of tasks in \<open>src/src/proc/task.c\<close>.
  \<open>jump_usermode\<close> leaves the kernel for good; a routine that ends in it, or in the halt loop, has
  this as its outcome. All messages are printed. Those with values go through \<open>kprintln\<close>, which passes none of them on: what
  va_arg finds instead is the parameter \<open>found\<close> (nothing, which is a fault, or values of any kind).
\<close>

section \<open>The scheduler\<close>

record tcb =
  name :: string
  user_stack :: u64
  user_func :: u64
  virt_addr_space :: u64

record sched =
  tasks :: "tcb list"
  cur_task :: u64
  tasks_count :: u64

abbreviation MAX_TASKS :: u64 where "MAX_TASKS \<equiv> 10"

definition zero_tcb :: tcb where
  "zero_tcb = \<lparr>name = [], user_stack = 0, user_func = 0, virt_addr_space = 0\<rparr>"

definition init_sched :: sched where
  "init_sched = \<lparr>tasks = replicate 10 zero_tcb, cur_task = 0, tasks_count = 0\<rparr>"

datatype outcome =
    Return
  | Jump_usermode (usr_stack_top: u64) (usr_func_addr: u64) (pml4_addr: u64)
  | Halted

definition add_tcb :: "tcb \<Rightarrow> sched \<times> console \<Rightarrow> fault + sched \<times> console" where
  "add_tcb task = (\<lambda>(s, c).
     if tasks_count s \<ge> MAX_TASKS then
       and_then (kprintln ''only 10 tasks max are allowed yet'' [] c) (\<lambda>c. Inr (s, c))
     else Inr (s\<lparr>tasks := (tasks s)[unat (tasks_count s) := task], tasks_count := tasks_count s + 1\<rparr>, c))"

definition start_scheduler :: "va_area \<Rightarrow> sched \<Rightarrow> console \<Rightarrow> fault + outcome \<times> console" where
  "start_scheduler found s c =
     (let t = tasks s ! 0
      in and_then (kprintln ''start scheduler...'' [] c) (\<lambda>c.
         and_then (kprintln_va found ''func_addr:  %x'' [VU64 (user_func t)] c) (\<lambda>c.
         and_then (kprintln_va found ''pml4_addr:  %x'' [VU64 (virt_addr_space t)] c) (\<lambda>c.
         and_then (kprintln_va found ''stack_addr: %x'' [VU64 (user_stack t)] c) (\<lambda>c.
         if user_func t = 0 \<or> user_stack t = 0 \<or> virt_addr_space t = 0 then
           and_then (kprintln ''Error no init task set'' [] c) (\<lambda>c. Inr (Return, c))
         else Inr (Jump_usermode (user_stack t) (user_func t) (virt_addr_space t), c))))))"

definition switch_task :: "sched \<Rightarrow> console \<Rightarrow> fault + outcome \<times> sched \<times> console" where
  "switch_task s c =
     and_then (kprintln ''next task...'' [] c) (\<lambda>c.
       let s = s\<lparr>cur_task := cur_task s + 1\<rparr>
       in if cur_task s \<ge> MAX_TASKS \<or> user_func (tasks s ! unat (cur_task s)) = 0 then
            and_then (kprintln ''no tasks left...'' [] c) (\<lambda>c. Inr (Halted, s, c))
          else let t = tasks s ! unat (cur_task s)
               in Inr (Jump_usermode (user_stack t) (user_func t) (virt_addr_space t), s, c))"

definition get_addr_space :: "sched \<Rightarrow> fault + u64" where
  "get_addr_space s =
     (case array_get (tasks s) (unat (cur_task s)) of
        Inl e \<Rightarrow> Inl e | Inr t \<Rightarrow> Inr (virt_addr_space t))"

section \<open>Creating a task\<close>

abbreviation user_stack_top :: u64 where "user_stack_top \<equiv> 0x1000000f000"
abbreviation user_text :: u64 where "user_text \<equiv> 0x10000010000"

text \<open>The size of the text segment differs between the debug and the release build.\<close>

definition text_seg_size :: "bool \<Rightarrow> u64" where
  "text_seg_size debug = (if debug then 0x3900 else 0x5900)"

definition map_stack :: "u64 \<Rightarrow> u64 \<Rightarrow> mm \<Rightarrow> mm" where
  "map_stack user_pml4 phys_addr_start s =
     fold (\<lambda>i. map_user_frame user_pml4 (to_page (user_stack_top - page_offset32 i))
            (to_frame (phys_addr_start - page_offset32 i)) (Present OR Writeable OR User)) [0..<0xf] s"

definition map_text :: "bool \<Rightarrow> u64 \<Rightarrow> u64 \<Rightarrow> mm \<Rightarrow> mm" where
  "map_text debug user_pml4 func_addr s =
     (let flags = Present OR Writeable OR User;
          user_func_addr = user_text + page_off func_addr;
          s = map_user_frame user_pml4 (to_page user_func_addr) (to_frame func_addr) flags s;
          s = map_user_frame user_pml4 (to_page (user_func_addr + 4096)) (to_frame (func_addr + 4096)) flags s;
          data_seg_phys = page_base func_addr + text_seg_size debug;
          data_seg_virt = user_text + text_seg_size debug;
          s = map_user_frame user_pml4 (to_page data_seg_virt) (to_frame data_seg_phys) flags s
      in map_user_frame user_pml4 (to_page (data_seg_virt + 4096)) (to_frame (data_seg_phys + 4096)) flags s)"

definition add_task ::
    "bool \<Rightarrow> string \<Rightarrow> u64 \<Rightarrow> mm \<times> sched \<times> console \<Rightarrow> fault + mm \<times> sched \<times> console" where
  "add_task debug task_name func_addr st =
     (let (s, q, c) = st;
          (user_pml4, s) = create_user_pml4 s;
          (addr, s) = pmm_alloc_unmapped 0xf s;
          phys_addr_start = addr + 0xf * 4096;
          s = map_stack user_pml4 phys_addr_start s;
          s = map_text debug user_pml4 func_addr s
      in and_then (add_tcb \<lparr>name = task_name, user_stack = user_stack_top,
                      user_func = user_text + page_off func_addr, virt_addr_space = user_pml4\<rparr> (q, c))
           (\<lambda>(q, c). Inr (s, q, c)))"

section \<open>Task order\<close>

text \<open>The table never leaves its bounds, and the slots behind the count stay empty.\<close>

definition sched_ok :: "sched \<Rightarrow> bool" where
  "sched_ok s \<longleftrightarrow> length (tasks s) = 10 \<and> tasks_count s \<le> MAX_TASKS \<and>
     (\<forall>i. unat (tasks_count s) \<le> i \<and> i < 10 \<longrightarrow> tasks s ! i = zero_tcb)"

definition tables_console_ok :: "sched \<times> console \<Rightarrow> bool" where
  "tables_console_ok = (\<lambda>(s, c). sched_ok s \<and> con_ok c)"

datatype sched_op = Add tcb | Switch

fun sched_step :: "sched_op \<Rightarrow> sched \<times> console \<Rightarrow> fault + sched \<times> console" where
  "sched_step (Add t) sc = add_tcb t sc"
| "sched_step Switch (s, c) = and_then (switch_task s c) (\<lambda>(out, sc). Inr sc)"

lemma sched_ok_init: "sched_ok init_sched"
  by (simp add: sched_ok_def init_sched_def)

lemma add_tcb_total:
  assumes "con_ok c"
  shows "\<exists>c'. con_ok c' \<and> add_tcb t (s, c) =
    Inr (if tasks_count s \<ge> MAX_TASKS then s
         else s\<lparr>tasks := (tasks s)[unat (tasks_count s) := t], tasks_count := tasks_count s + 1\<rparr>, c')"
  using assms kprintln_plain [OF assms, of "''only 10 tasks max are allowed yet''" "[]"] by (auto simp: add_tcb_def)

lemma switch_task_total:
  assumes "con_ok c"
  shows "\<exists>c'. con_ok c' \<and> switch_task s c = Inr
    (let i = unat (cur_task s + 1); t = tasks s ! i
     in if 10 \<le> i \<or> user_func t = 0 then Halted
        else Jump_usermode (user_stack t) (user_func t) (virt_addr_space t), s\<lparr>cur_task := cur_task s + 1\<rparr>, c')"
proof -
  obtain c1 where c1: "kprintln ''next task...'' [] c = Inr c1" "con_ok c1"
    using kprintln_plain [OF assms, of "''next task...''" "[]"] by auto
  obtain c2 where "kprintln ''no tasks left...'' [] c1 = Inr c2" "con_ok c2"
    using kprintln_plain [OF c1(2), of "''no tasks left...''" "[]"] by auto
  then show ?thesis using c1 by (simp add: switch_task_def Let_def word_le_nat_alt)
qed

lemma add_tcb_ok [inv_intros]:
  assumes "sched_ok s" "con_ok c"
  shows "\<exists>sc. add_tcb t (s, c) = Inr sc \<and> tables_console_ok sc"
proof (cases "tasks_count s \<ge> MAX_TASKS")
  case True
  then show ?thesis using add_tcb_total [OF assms(2), of t s] assms(1) by (auto simp: tables_console_ok_def)
next
  case False
  have "unat (tasks_count s + 1) = unat (tasks_count s) + 1"
    using False by (intro unat_Suc_less [of _ MAX_TASKS]) simp
  then show ?thesis using add_tcb_total [OF assms(2), of t s] assms(1) False
    by (auto simp: tables_console_ok_def sched_ok_def word_le_nat_alt)
qed

lemma switch_task_ok [inv_intros]:
  assumes "sched_ok s" "con_ok c"
  shows "\<exists>out sc. switch_task s c = Inr (out, sc) \<and> tables_console_ok sc"
proof -
  have "sched_ok (s\<lparr>cur_task := cur_task s + 1\<rparr>)" using assms(1) by (simp add: sched_ok_def)
  then show ?thesis using switch_task_total [OF assms(2), of s] by (auto simp: tables_console_ok_def)
qed

interpretation sched_ops: safe_op_system sched_step tables_console_ok
proof
  fix op and sc :: "sched \<times> console"
  obtain s c where sc: "sc = (s, c)" by (cases sc)
  assume "tables_console_ok sc"
  then have ok: "sched_ok s" "con_ok c" by (simp_all add: sc tables_console_ok_def)
  show "\<exists>sc'. sched_step op sc = Inr sc' \<and> tables_console_ok sc'"
  proof (cases op)
    case (Add t)
    then show ?thesis using add_tcb_ok [OF ok, of t] by (simp add: sc)
  next
    case Switch
    then show ?thesis using switch_task_ok [OF ok] by (auto simp: sc)
  qed
qed

lemma run_ops_snoc:
  "run_ops step (xs @ [x]) s = and_then (run_ops step xs s) (step x)"
  by (induction xs arbitrary: s) (auto split: sum.splits)

lemma add_tcbs_take:
  assumes "con_ok c"
  shows "\<exists>s c'. run_ops add_tcb ts (init_sched, c) = Inr (s, c') \<and> con_ok c' \<and>
    tasks s = take 10 ts @ replicate (10 - length ts) zero_tcb \<and>
    unat (tasks_count s) = min 10 (length ts) \<and> cur_task s = 0"
proof (induction ts rule: rev_induct)
  case Nil
  then show ?case using assms by (simp add: init_sched_def)
next
  case (snoc t ts)
  then obtain s c1 where s: "run_ops add_tcb ts (init_sched, c) = Inr (s, c1)" "con_ok c1"
    "tasks s = take 10 ts @ replicate (10 - length ts) zero_tcb" "unat (tasks_count s) = min 10 (length ts)"
    "cur_task s = 0"
    by blast
  from add_tcb_total [OF s(2), of t s] obtain c2 where c2: "con_ok c2" "add_tcb t (s, c1) =
    Inr (if tasks_count s \<ge> MAX_TASKS then s
         else s\<lparr>tasks := (tasks s)[unat (tasks_count s) := t], tasks_count := tasks_count s + 1\<rparr>, c2)" by blast
  show ?case
  proof (cases "length ts < 10")
    case True
    then have less: "tasks_count s < MAX_TASKS" using s(4) by (simp add: word_less_nat_alt)
    have "10 - length ts = Suc (9 - length ts)" using True by simp
    then have "tasks s = ts @ zero_tcb # replicate (10 - Suc (length ts)) zero_tcb" using s(3) True by simp
    then show ?thesis using s(1,4,5) c2 less True unat_Suc_less [OF less]
      by (simp add: run_ops_snoc not_le [symmetric])
  next
    case False
    then have "tasks_count s \<ge> MAX_TASKS" using s(4) by (simp add: word_le_nat_alt)
    then show ?thesis using s c2 False by (simp add: run_ops_snoc)
  qed
qed

text \<open>The switches after the start.\<close>

primrec switches :: "nat \<Rightarrow> sched \<times> console \<Rightarrow> fault + sched \<times> console" where
  "switches 0 sc = Inr sc"
| "switches (Suc n) sc = and_then (switches n sc) (sched_step Switch)"

lemma switches_cur:
  assumes "con_ok c" "cur_task s = 0" "n < 2 ^ 64"
  shows "\<exists>s' c'. switches n (s, c) = Inr (s', c') \<and> con_ok c' \<and> unat (cur_task s') = n \<and> tasks s' = tasks s"
  using assms(3)
proof (induction n)
  case 0
  then show ?case using assms by simp
next
  case (Suc n)
  then obtain s' c' where s: "switches n (s, c) = Inr (s', c')" "con_ok c'" "unat (cur_task s') = n" "tasks s' = tasks s"
    by auto
  have "unat (cur_task s' + 1) = Suc n" using s(3) Suc.prems by (simp add: unat_word_ariths)
  then show ?case using s switch_task_total [OF s(2), of s'] by auto
qed

definition launch :: "tcb \<Rightarrow> outcome" where
  "launch t = Jump_usermode (user_stack t) (user_func t) (virt_addr_space t)"

lemma start_scheduler_faults:
  assumes "con_ok c"
  shows "start_scheduler nothing_found s c = Inl MissingVaArg"
proof -
  obtain c1 where c1: "kprintln ''start scheduler...'' [] c = Inr c1" "con_ok c1"
    using kprintln_plain [OF assms, of "''start scheduler...''" "[]"] by auto
  have "kprintln ''func_addr:  %x'' [VU64 (user_func (tasks s ! 0))] c1 = Inl MissingVaArg"
    using kprintln_missing [OF c1(2), of "''func_addr:  ''" "CHR ''x''" "[]"] by (simp add: reads_arg_def)
  then show ?thesis by (simp add: start_scheduler_def c1(1) kprintln_va_nothing Let_def)
qed

lemma start_scheduler_reads:
  assumes "con_ok c" "va_readable found" "user_func (tasks s ! 0) \<noteq> 0" "user_stack (tasks s ! 0) \<noteq> 0"
    "virt_addr_space (tasks s ! 0) \<noteq> 0"
  shows "\<exists>c'. start_scheduler found s c = Inr (launch (tasks s ! 0), c') \<and> con_ok c'"
proof -
  obtain c1 where c1: "kprintln ''start scheduler...'' [] c = Inr c1" "con_ok c1"
    using kprintln_plain [OF assms(1), of "''start scheduler...''" "[]"] by auto
  obtain c2 where c2: "kprintln_va found ''func_addr:  %x'' [VU64 (user_func (tasks s ! 0))] c1 = Inr c2" "con_ok c2"
    using kprintln_va_reads [OF c1(2) assms(2), of "''func_addr:  %x''"] by auto
  obtain c3 where c3: "kprintln_va found ''pml4_addr:  %x'' [VU64 (virt_addr_space (tasks s ! 0))] c2 = Inr c3" "con_ok c3"
    using kprintln_va_reads [OF c2(2) assms(2), of "''pml4_addr:  %x''"] by auto
  obtain c4 where c4: "kprintln_va found ''stack_addr: %x'' [VU64 (user_stack (tasks s ! 0))] c3 = Inr c4" "con_ok c4"
    using kprintln_va_reads [OF c3(2) assms(2), of "''stack_addr: %x''"] by auto
  then show ?thesis using assms(3-5) by (simp add: start_scheduler_def Let_def c1(1) c2(1) c3(1) launch_def)
qed

text \<open>C10:
  Tasks run in the order they were added: the start runs the first, the n-th switch the next
  one, and the switch after the last task halts the machine; from the eleventh task on they are
  dropped. The start gets as far as the first task only if its messages find values to print where
  \<open>kprintln\<close> does not pass any: by the C standard alone, where there are none, it stops at the first
  of them.
\<close>

theorem tasks_run_in_order:
  assumes "\<forall>t\<in>set ts. user_func t \<noteq> 0 \<and> user_stack t \<noteq> 0 \<and> virt_addr_space t \<noteq> 0" "ts \<noteq> []"
    "n < length (take 10 ts)" "con_ok c" "va_readable found"
  shows "\<exists>s c1 c2 s' c' s'' c''. run_ops add_tcb ts (init_sched, c) = Inr (s, c1) \<and>
    start_scheduler nothing_found s c1 = Inl MissingVaArg \<and>
    start_scheduler found s c1 = Inr (launch (hd ts), c2) \<and>
    switches n (s, c2) = Inr (s', c') \<and>
    switch_task s' c' = Inr (if Suc n < length (take 10 ts) then launch (ts ! Suc n) else Halted, s'', c'')"
proof -
  obtain s c1 where s: "run_ops add_tcb ts (init_sched, c) = Inr (s, c1)" "con_ok c1"
    "tasks s = take 10 ts @ replicate (10 - length ts) zero_tcb" "cur_task s = 0"
    using add_tcbs_take [OF assms(4)] by blast
  have n: "n < 10" "n < length ts" using assms(3) by simp_all
  have "tasks s ! 0 = hd ts" using s(3) assms(2) by (cases ts) simp_all
  then obtain c2 where c2: "start_scheduler found s c1 = Inr (launch (hd ts), c2)" "con_ok c2"
    using start_scheduler_reads [OF s(2) assms(5), of s] assms(1,2) by auto
  obtain s' c' where s': "switches n (s, c2) = Inr (s', c')" "con_ok c'" "unat (cur_task s') = n" "tasks s' = tasks s"
    using switches_cur [OF c2(2) s(4), of n] n(1) by auto
  have cur: "unat (cur_task s' + 1) = Suc n" using s'(3) n by (simp add: unat_word_ariths)
  have "(let i = unat (cur_task s' + 1); t = tasks s' ! i
     in if 10 \<le> i \<or> user_func t = 0 then Halted
        else Jump_usermode (user_stack t) (user_func t) (virt_addr_space t)) =
      (if Suc n < length (take 10 ts) then launch (ts ! Suc n) else Halted)"
  proof (cases "Suc n < length (take 10 ts)")
    case True
    then have "tasks s ! Suc n = ts ! Suc n" using s(3) by (simp add: nth_append)
    moreover have "user_func (ts ! Suc n) \<noteq> 0" using True assms(1) by simp
    ultimately show ?thesis using True s'(4) cur by (simp add: launch_def Let_def)
  next
    case False
    have "Suc n < 10 \<Longrightarrow> user_func (tasks s ! Suc n) = 0"
      using False n s(3) by (simp add: nth_append zero_tcb_def)
    then show ?thesis using False s'(4) cur by (cases "n < 9") (auto simp: Let_def)
  qed
  then show ?thesis using s(1) c2(1) s'(1) start_scheduler_faults [OF s(2), of s] switch_task_total [OF s'(2), of s'] by auto
qed

theorem tasks_run_in_order_witness:
  "\<exists>s c1 c2 s' c'. run_ops add_tcb
      [\<lparr>name = ''a'', user_stack = 1, user_func = 2, virt_addr_space = 3\<rparr>,
       \<lparr>name = ''b'', user_stack = 4, user_func = 5, virt_addr_space = 6\<rparr>] (init_sched, init_console (\<lambda>_. 0)) = Inr (s, c1) \<and>
     start_scheduler passed_on s c1 = Inr (Jump_usermode 1 2 3, c2) \<and>
     switch_task s c2 = Inr (Jump_usermode 4 5 6, s', c')"
proof -
  have "con_ok (init_console (\<lambda>_. 0))" by (simp add: con_ok_def init_console_def)
  from tasks_run_in_order [OF _ _ _ this va_readable_passed_on, where n = 0 and ts =
      "[\<lparr>name = ''a'', user_stack = 1, user_func = 2, virt_addr_space = 3\<rparr>,
       \<lparr>name = ''b'', user_stack = 4, user_func = 5, virt_addr_space = 6\<rparr>]"]
  show ?thesis by (simp add: launch_def) blast
qed

text \<open>
  No sequence of additions and switches faults or leaves the task table: it keeps its ten slots, the
  count stays at most ten and the slots behind it empty.
\<close>

theorem sched_table_bounded:
  assumes "con_ok c"
  shows "\<exists>s c'. run_ops sched_step ops (init_sched, c) = Inr (s, c') \<and> sched_ok s \<and> con_ok c'"
  using sched_ops.run_safe [of "(init_sched, c)" ops] sched_ok_init assms by (auto simp: tables_console_ok_def)

section \<open>The stack of a new task\<close>

lemma stack_frame:
  assumes "page_off a = 0" "i < 15"
  shows "to_frame (a + 0xf * 4096 - page_offset32 i) = a + 4096 * of_nat (15 - i)"
proof -
  have o: "page_offset32 i = 4096 * of_nat i"
  proof -
    have "unat ((of_nat i :: u32) * 4096) = i * 4096"
      using assms(2) by (simp add: unat_word_ariths unat_of_nat)
    then have "unat (page_offset32 i) = unat (4096 * of_nat i :: u64)"
      using assms(2) by (simp add: page_offset32_def unat_ucast_up unat_word_ariths unat_of_nat)
    then show ?thesis by (simp add: word_unat_eq_iff)
  qed
  have eq: "a + 0xf * 4096 - page_offset32 i = a + 4096 * of_nat (15 - i)"
    using assms(2) unfolding o by (simp add: of_nat_diff algebra_simps)
  have "unat (4096 * of_nat (15 - i) :: u64) = 4096 * (15 - i)"
    using assms(2) by (simp add: unat_word_ariths unat_of_nat del: of_nat_diff)
  then have "unat (a + 4096 * of_nat (15 - i)) mod 4096 = 0"
    using assms(1) by (simp add: page_off_0_iff unat_word_ariths mod_add_eq mod_mod_cancel del: of_nat_diff)
  then show ?thesis unfolding eq to_frame_def by (intro page_base_id) (simp add: page_off_0_iff)
qed

lemma alloc_page_aligned:
  assumes "pmm_ok s" "pmm_alloc_unmapped c s = (a, s')"
  shows "page_off a = 0"
proof (cases "a = 0 \<or> c = 0")
  case True
  then show ?thesis
    using assms(2) by (auto simp: page_off_def pmm_alloc_unmapped_def pmm_alloc_unmapped_once_def)
next
  case False
  then have c: "0 < unat c" by (simp add: unat_gt_0)
  from pmm_alloc_unmapped_cases [OF assms(1) c assms(2)] False
  obtain q t where t: "pmm_ok t" "free_run (frame_used t) q (unat c)" "q + unat c \<le> pmm_frames t"
      "take_run (unat c) (Some q) t t = (a, s')"
    by (auto simp: pmm_frames_def)
  from take_run_Some(1) [OF t(1) c t(2,3,4)] show ?thesis by (simp add: page_off_0_iff)
qed

lemma pmm_ok_fold_vwrite [simp]: "pmm_ok (fold (\<lambda>i. vwrite (f i) 0) is t) = pmm_ok t"
  by (induction "is" arbitrary: t) simp_all

lemma pmm_ok_create_user_pml4: "pmm_ok s \<Longrightarrow> pmm_ok (snd (create_user_pml4 s))"
  by (simp add: create_user_pml4_def split_def Let_def map_frame_def pmm_ok_map_page pmm_ok_alloc)

text \<open>
  The stack of a new task is not the fifteen frames allocated for it: the loop maps the frames
  1 to 15 behind the start of the allocation, so the frame after the allocation is mapped writable
  for the user, and the first allocated frame is not mapped.
\<close>

theorem add_task_stack_frames:
  assumes "create_user_pml4 s = (user_pml4, s1)" "pmm_alloc_unmapped 0xf s1 = (a, s2)" "pmm_ok s" "con_ok c"
  shows "\<exists>ms qc. add_task debug task_name func_addr (s, q, c) = Inr (map_text debug user_pml4 func_addr
        (fold (\<lambda>(page, frame). map_user_frame user_pml4 page frame (Present OR Writeable OR User)) ms s2), qc) \<and>
    map snd ms = map (\<lambda>i. a + 4096 * of_nat (15 - i)) [0..<15] \<and>
    a + 15 * 4096 \<in> set (map snd ms) \<and> a \<notin> set (map snd ms)"
proof -
  have "pmm_ok s1" using pmm_ok_create_user_pml4 [OF assms(3)] assms(1) by simp
  then have al: "page_off a = 0" using alloc_page_aligned assms(2) by blast
  define ms where "ms = map (\<lambda>i. (to_page (user_stack_top - page_offset32 i),
      to_frame (a + 0xf * 4096 - page_offset32 i))) [0..<15]"
  have f: "map snd ms = map (\<lambda>i. a + 4096 * of_nat (15 - i)) [0..<15]"
    unfolding ms_def map_map comp_def snd_conv
    by (rule map_cong [OF refl]) (rule stack_frame [OF al], simp)
  have "\<exists>qc. add_task debug task_name func_addr (s, q, c) = Inr (map_text debug user_pml4 func_addr
        (fold (\<lambda>(page, frame). map_user_frame user_pml4 page frame (Present OR Writeable OR User)) ms s2), qc)"
    using add_tcb_total [OF assms(4), of "\<lparr>name = task_name, user_stack = user_stack_top,
        user_func = user_text + page_off func_addr, virt_addr_space = user_pml4\<rparr>" q]
    by (auto simp: add_task_def assms(1,2) map_stack_def ms_def fold_map comp_def Let_def)
  moreover have "a + 15 * 4096 \<in> set (map snd ms)"
    unfolding f set_map by (rule image_eqI [of _ _ 0]) simp_all
  moreover have "a \<notin> set (map snd ms)"
  proof
    assume "a \<in> set (map snd ms)"
    then obtain i where i: "i < 15" "a = a + 4096 * of_nat (15 - i)" unfolding f by auto
    then have "(4096 * of_nat (15 - i) :: u64) = 0" by (metis add_cancel_left_right)
    moreover have "unat (4096 * of_nat (15 - i) :: u64) = 4096 * (15 - i)"
      using i(1) by (simp add: unat_word_ariths unat_of_nat del: of_nat_diff)
    ultimately show False using i(1) by simp
  qed
  ultimately show ?thesis using f by blast
qed

theorem add_task_stack_frames_witness:
  "\<exists>ms s2 qc. add_task False ''init'' 0x300000 (sample, init_sched, init_console (\<lambda>_. 0)) =
     Inr (map_text False (fst (create_user_pml4 sample)) 0x300000
       (fold (\<lambda>(page, frame). map_user_frame (fst (create_user_pml4 sample)) page frame
          (Present OR Writeable OR User)) ms s2), qc) \<and> length ms = 15"
proof -
  have "con_ok (init_console (\<lambda>_. 0))" by (simp add: con_ok_def init_console_def)
  from add_task_stack_frames [OF prod.collapse [symmetric] prod.collapse [symmetric] sample_ok(2) this,
      where debug = False and task_name = "''init''" and func_addr = "0x300000" and q = init_sched]
  obtain ms qc where ms: "add_task False ''init'' 0x300000 (sample, init_sched, init_console (\<lambda>_. 0)) =
     Inr (map_text False (fst (create_user_pml4 sample)) 0x300000
       (fold (\<lambda>(page, frame). map_user_frame (fst (create_user_pml4 sample)) page frame
          (Present OR Writeable OR User)) ms (snd (pmm_alloc_unmapped 0xf (snd (create_user_pml4 sample))))), qc)"
    "map snd ms = map (\<lambda>i. fst (pmm_alloc_unmapped 0xf (snd (create_user_pml4 sample))) + 4096 * of_nat (15 - i)) [0..<15]"
    by blast
  have "length ms = 15" using arg_cong [OF ms(2), of length] by simp
  with ms(1) show ?thesis by blast
qed

end
