(* ===== verification/Keycodes.thy ===== *)
theory Keycodes
  imports Prelude
begin

text \<open>
  The constants of \<open>enum keycode\<close> (\<open>src/src/io/input.h\<close>), which the code compares and subtracts as
  unsigned numbers, and the QWERTZ tables of \<open>src/src/io/keyboard/qwertz_keyboard.h\<close>.
\<close>

section \<open>enum keycode\<close>

abbreviation KEY_CODE_BACKSPACE :: u32 where "KEY_CODE_BACKSPACE \<equiv> 8"
abbreviation KEY_CODE_TAB :: u32 where "KEY_CODE_TAB \<equiv> 9"
abbreviation KEY_CODE_ENTER :: u32 where "KEY_CODE_ENTER \<equiv> 13"
abbreviation KEY_CODE_SHIFT_LEFT :: u32 where "KEY_CODE_SHIFT_LEFT \<equiv> 14"
abbreviation KEY_CODE_SHIFT_RIGHT :: u32 where "KEY_CODE_SHIFT_RIGHT \<equiv> 15"
abbreviation KEY_CODE_CAPS_LOCK :: u32 where "KEY_CODE_CAPS_LOCK \<equiv> 16"
abbreviation KEY_CODE_CTRL :: u32 where "KEY_CODE_CTRL \<equiv> 17"
abbreviation KEY_CODE_CTRL_RIGHT :: u32 where "KEY_CODE_CTRL_RIGHT \<equiv> 18"
abbreviation KEY_CODE_ALT :: u32 where "KEY_CODE_ALT \<equiv> 19"
abbreviation KEY_CODE_ALT_GR :: u32 where "KEY_CODE_ALT_GR \<equiv> 20"
abbreviation KEY_CODE_WIN_LEFT :: u32 where "KEY_CODE_WIN_LEFT \<equiv> 21"
abbreviation KEY_CODE_WIN_RIGHT :: u32 where "KEY_CODE_WIN_RIGHT \<equiv> 22"
abbreviation KEY_CODE_APPS :: u32 where "KEY_CODE_APPS \<equiv> 23"
abbreviation KEY_CODE_ESC :: u32 where "KEY_CODE_ESC \<equiv> 27"
abbreviation KEY_CODE_SPACE :: u32 where "KEY_CODE_SPACE \<equiv> 32"
abbreviation KEY_CODE_ASTERISK :: u32 where "KEY_CODE_ASTERISK \<equiv> 42"
abbreviation KEY_CODE_PLUS :: u32 where "KEY_CODE_PLUS \<equiv> 43"
abbreviation KEY_CODE_COMMA :: u32 where "KEY_CODE_COMMA \<equiv> 44"
abbreviation KEY_CODE_MINUS :: u32 where "KEY_CODE_MINUS \<equiv> 45"
abbreviation KEY_CODE_POINT :: u32 where "KEY_CODE_POINT \<equiv> 46"
abbreviation KEY_CODE_SLASH :: u32 where "KEY_CODE_SLASH \<equiv> 47"
abbreviation KEY_CODE_0 :: u32 where "KEY_CODE_0 \<equiv> 48"
abbreviation KEY_CODE_1 :: u32 where "KEY_CODE_1 \<equiv> 49"
abbreviation KEY_CODE_2 :: u32 where "KEY_CODE_2 \<equiv> 50"
abbreviation KEY_CODE_3 :: u32 where "KEY_CODE_3 \<equiv> 51"
abbreviation KEY_CODE_4 :: u32 where "KEY_CODE_4 \<equiv> 52"
abbreviation KEY_CODE_5 :: u32 where "KEY_CODE_5 \<equiv> 53"
abbreviation KEY_CODE_6 :: u32 where "KEY_CODE_6 \<equiv> 54"
abbreviation KEY_CODE_7 :: u32 where "KEY_CODE_7 \<equiv> 55"
abbreviation KEY_CODE_8 :: u32 where "KEY_CODE_8 \<equiv> 56"
abbreviation KEY_CODE_9 :: u32 where "KEY_CODE_9 \<equiv> 57"
abbreviation KEY_CODE_A :: u32 where "KEY_CODE_A \<equiv> 65"
abbreviation KEY_CODE_B :: u32 where "KEY_CODE_B \<equiv> 66"
abbreviation KEY_CODE_C :: u32 where "KEY_CODE_C \<equiv> 67"
abbreviation KEY_CODE_D :: u32 where "KEY_CODE_D \<equiv> 68"
abbreviation KEY_CODE_E :: u32 where "KEY_CODE_E \<equiv> 69"
abbreviation KEY_CODE_F :: u32 where "KEY_CODE_F \<equiv> 70"
abbreviation KEY_CODE_G :: u32 where "KEY_CODE_G \<equiv> 71"
abbreviation KEY_CODE_H :: u32 where "KEY_CODE_H \<equiv> 72"
abbreviation KEY_CODE_I :: u32 where "KEY_CODE_I \<equiv> 73"
abbreviation KEY_CODE_J :: u32 where "KEY_CODE_J \<equiv> 74"
abbreviation KEY_CODE_K :: u32 where "KEY_CODE_K \<equiv> 75"
abbreviation KEY_CODE_L :: u32 where "KEY_CODE_L \<equiv> 76"
abbreviation KEY_CODE_M :: u32 where "KEY_CODE_M \<equiv> 77"
abbreviation KEY_CODE_N :: u32 where "KEY_CODE_N \<equiv> 78"
abbreviation KEY_CODE_O :: u32 where "KEY_CODE_O \<equiv> 79"
abbreviation KEY_CODE_P :: u32 where "KEY_CODE_P \<equiv> 80"
abbreviation KEY_CODE_Q :: u32 where "KEY_CODE_Q \<equiv> 81"
abbreviation KEY_CODE_R :: u32 where "KEY_CODE_R \<equiv> 82"
abbreviation KEY_CODE_S :: u32 where "KEY_CODE_S \<equiv> 83"
abbreviation KEY_CODE_T :: u32 where "KEY_CODE_T \<equiv> 84"
abbreviation KEY_CODE_U :: u32 where "KEY_CODE_U \<equiv> 85"
abbreviation KEY_CODE_V :: u32 where "KEY_CODE_V \<equiv> 86"
abbreviation KEY_CODE_W :: u32 where "KEY_CODE_W \<equiv> 87"
abbreviation KEY_CODE_X :: u32 where "KEY_CODE_X \<equiv> 88"
abbreviation KEY_CODE_Y :: u32 where "KEY_CODE_Y \<equiv> 89"
abbreviation KEY_CODE_Z :: u32 where "KEY_CODE_Z \<equiv> 90"
abbreviation KEY_CODE_OEM_1 :: u32 where "KEY_CODE_OEM_1 \<equiv> 91"
abbreviation KEY_CODE_OEM_2 :: u32 where "KEY_CODE_OEM_2 \<equiv> 92"
abbreviation KEY_CODE_OEM_3 :: u32 where "KEY_CODE_OEM_3 \<equiv> 93"
abbreviation KEY_CODE_OEM_4 :: u32 where "KEY_CODE_OEM_4 \<equiv> 94"
abbreviation KEY_CODE_OEM_5 :: u32 where "KEY_CODE_OEM_5 \<equiv> 95"
abbreviation KEY_CODE_OEM_6 :: u32 where "KEY_CODE_OEM_6 \<equiv> 96"
abbreviation KEY_CODE_OEM_7 :: u32 where "KEY_CODE_OEM_7 \<equiv> 97"
abbreviation KEY_CODE_OEM_8 :: u32 where "KEY_CODE_OEM_8 \<equiv> 98"
abbreviation KEY_CODE_OEM_102 :: u32 where "KEY_CODE_OEM_102 \<equiv> 99"
abbreviation KEY_CODE_OEM_PLUS :: u32 where "KEY_CODE_OEM_PLUS \<equiv> 100"
abbreviation KEY_CODE_OEM_COMMA :: u32 where "KEY_CODE_OEM_COMMA \<equiv> 101"
abbreviation KEY_CODE_OEM_MINUS :: u32 where "KEY_CODE_OEM_MINUS \<equiv> 102"
abbreviation KEY_CODE_OEM_POINT :: u32 where "KEY_CODE_OEM_POINT \<equiv> 103"
abbreviation KEY_CODE_F1 :: u32 where "KEY_CODE_F1 \<equiv> 104"
abbreviation KEY_CODE_F2 :: u32 where "KEY_CODE_F2 \<equiv> 105"
abbreviation KEY_CODE_F3 :: u32 where "KEY_CODE_F3 \<equiv> 106"
abbreviation KEY_CODE_F4 :: u32 where "KEY_CODE_F4 \<equiv> 107"
abbreviation KEY_CODE_F5 :: u32 where "KEY_CODE_F5 \<equiv> 108"
abbreviation KEY_CODE_F6 :: u32 where "KEY_CODE_F6 \<equiv> 109"
abbreviation KEY_CODE_F7 :: u32 where "KEY_CODE_F7 \<equiv> 110"
abbreviation KEY_CODE_F8 :: u32 where "KEY_CODE_F8 \<equiv> 111"
abbreviation KEY_CODE_F9 :: u32 where "KEY_CODE_F9 \<equiv> 112"
abbreviation KEY_CODE_F10 :: u32 where "KEY_CODE_F10 \<equiv> 113"
abbreviation KEY_CODE_F11 :: u32 where "KEY_CODE_F11 \<equiv> 114"
abbreviation KEY_CODE_F12 :: u32 where "KEY_CODE_F12 \<equiv> 115"
abbreviation KEY_CODE_F13 :: u32 where "KEY_CODE_F13 \<equiv> 116"
abbreviation KEY_CODE_F14 :: u32 where "KEY_CODE_F14 \<equiv> 117"
abbreviation KEY_CODE_F15 :: u32 where "KEY_CODE_F15 \<equiv> 118"
abbreviation KEY_CODE_F16 :: u32 where "KEY_CODE_F16 \<equiv> 119"
abbreviation KEY_CODE_F17 :: u32 where "KEY_CODE_F17 \<equiv> 120"
abbreviation KEY_CODE_F18 :: u32 where "KEY_CODE_F18 \<equiv> 121"
abbreviation KEY_CODE_F19 :: u32 where "KEY_CODE_F19 \<equiv> 122"
abbreviation KEY_CODE_F20 :: u32 where "KEY_CODE_F20 \<equiv> 123"
abbreviation KEY_CODE_F21 :: u32 where "KEY_CODE_F21 \<equiv> 124"
abbreviation KEY_CODE_F22 :: u32 where "KEY_CODE_F22 \<equiv> 125"
abbreviation KEY_CODE_F23 :: u32 where "KEY_CODE_F23 \<equiv> 126"
abbreviation KEY_CODE_F24 :: u32 where "KEY_CODE_F24 \<equiv> 127"
abbreviation KEY_CODE_NUM :: u32 where "KEY_CODE_NUM \<equiv> 128"
abbreviation KEY_CODE_SCROLL :: u32 where "KEY_CODE_SCROLL \<equiv> 129"
abbreviation KEY_CODE_PAUSE :: u32 where "KEY_CODE_PAUSE \<equiv> 130"
abbreviation KEY_CODE_INSERT :: u32 where "KEY_CODE_INSERT \<equiv> 131"
abbreviation KEY_CODE_DELETE :: u32 where "KEY_CODE_DELETE \<equiv> 132"
abbreviation KEY_CODE_POS_1 :: u32 where "KEY_CODE_POS_1 \<equiv> 133"
abbreviation KEY_CODE_END :: u32 where "KEY_CODE_END \<equiv> 134"
abbreviation KEY_CODE_PAGE_UP :: u32 where "KEY_CODE_PAGE_UP \<equiv> 135"
abbreviation KEY_CODE_PAGE_DOWN :: u32 where "KEY_CODE_PAGE_DOWN \<equiv> 136"
abbreviation KEY_CODE_UP :: u32 where "KEY_CODE_UP \<equiv> 137"
abbreviation KEY_CODE_DOWN :: u32 where "KEY_CODE_DOWN \<equiv> 138"
abbreviation KEY_CODE_LEFT :: u32 where "KEY_CODE_LEFT \<equiv> 139"
abbreviation KEY_CODE_RIGHT :: u32 where "KEY_CODE_RIGHT \<equiv> 140"
abbreviation KEY_CODE_NUMPAD_0 :: u32 where "KEY_CODE_NUMPAD_0 \<equiv> 141"
abbreviation KEY_CODE_NUMPAD_1 :: u32 where "KEY_CODE_NUMPAD_1 \<equiv> 142"
abbreviation KEY_CODE_NUMPAD_2 :: u32 where "KEY_CODE_NUMPAD_2 \<equiv> 143"
abbreviation KEY_CODE_NUMPAD_3 :: u32 where "KEY_CODE_NUMPAD_3 \<equiv> 144"
abbreviation KEY_CODE_NUMPAD_4 :: u32 where "KEY_CODE_NUMPAD_4 \<equiv> 145"
abbreviation KEY_CODE_NUMPAD_5 :: u32 where "KEY_CODE_NUMPAD_5 \<equiv> 146"
abbreviation KEY_CODE_NUMPAD_6 :: u32 where "KEY_CODE_NUMPAD_6 \<equiv> 147"
abbreviation KEY_CODE_NUMPAD_7 :: u32 where "KEY_CODE_NUMPAD_7 \<equiv> 148"
abbreviation KEY_CODE_NUMPAD_8 :: u32 where "KEY_CODE_NUMPAD_8 \<equiv> 149"
abbreviation KEY_CODE_NUMPAD_9 :: u32 where "KEY_CODE_NUMPAD_9 \<equiv> 150"
abbreviation KEY_CODE_NUMPAD_SLASH :: u32 where "KEY_CODE_NUMPAD_SLASH \<equiv> 151"
abbreviation KEY_CODE_NUMPAD_ASTERISK :: u32 where "KEY_CODE_NUMPAD_ASTERISK \<equiv> 152"
abbreviation KEY_CODE_NUMPAD_MINUS :: u32 where "KEY_CODE_NUMPAD_MINUS \<equiv> 153"
abbreviation KEY_CODE_NUMPAD_PLUS :: u32 where "KEY_CODE_NUMPAD_PLUS \<equiv> 154"
abbreviation KEY_CODE_NUMPAD_ENTER :: u32 where "KEY_CODE_NUMPAD_ENTER \<equiv> 155"
abbreviation KEY_CODE_NUMPAD_DECIMAL :: u32 where "KEY_CODE_NUMPAD_DECIMAL \<equiv> 156"

section \<open>The QWERTZ tables\<close>

definition qwertz_oem_table :: "u8 list" where
  "qwertz_oem_table = [154, 35, 153, 225, 94, 39, 142, 0, 60, 43, 44, 45, 46]"

definition qwertz_numpad_table :: "u8 list" where
  "qwertz_numpad_table = [47, 42, 45, 43, 10, 44]"

text \<open>
  A C array initialiser with designators: a designator moves the position, the values that follow
  it go to consecutive positions, and everything not named is zero.
\<close>

definition place :: "nat \<times> 'a list \<Rightarrow> 'a list \<Rightarrow> 'a list" where
  "place seg xs = take (fst seg) xs @ snd seg @ drop (fst seg + length (snd seg)) xs"

definition qwertz_segments :: "(nat \<times> u32 list) list" where
  "qwertz_segments =
    [(0x0, [0, KEY_CODE_ESC, KEY_CODE_1, KEY_CODE_2,
       KEY_CODE_3, KEY_CODE_4, KEY_CODE_5, KEY_CODE_6,
       KEY_CODE_7, KEY_CODE_8, KEY_CODE_9, KEY_CODE_0,
       KEY_CODE_OEM_4, KEY_CODE_OEM_6, KEY_CODE_BACKSPACE, KEY_CODE_TAB,
       KEY_CODE_Q, KEY_CODE_W, KEY_CODE_E, KEY_CODE_R,
       KEY_CODE_T, KEY_CODE_Z, KEY_CODE_U, KEY_CODE_I,
       KEY_CODE_O, KEY_CODE_P, KEY_CODE_OEM_1, KEY_CODE_OEM_PLUS,
       KEY_CODE_ENTER, KEY_CODE_CTRL, KEY_CODE_A, KEY_CODE_S,
       KEY_CODE_D, KEY_CODE_F, KEY_CODE_G, KEY_CODE_H,
       KEY_CODE_J, KEY_CODE_K, KEY_CODE_L, KEY_CODE_OEM_3,
       KEY_CODE_OEM_7, KEY_CODE_OEM_5, KEY_CODE_SHIFT_LEFT, KEY_CODE_OEM_2,
       KEY_CODE_Y, KEY_CODE_X, KEY_CODE_C, KEY_CODE_V,
       KEY_CODE_B, KEY_CODE_N, KEY_CODE_M, KEY_CODE_OEM_COMMA,
       KEY_CODE_OEM_POINT, KEY_CODE_OEM_MINUS, KEY_CODE_SHIFT_RIGHT, KEY_CODE_NUMPAD_ASTERISK,
       KEY_CODE_ALT, KEY_CODE_SPACE, KEY_CODE_CAPS_LOCK, KEY_CODE_F1,
       KEY_CODE_F2, KEY_CODE_F3, KEY_CODE_F4, KEY_CODE_F5,
       KEY_CODE_F6, KEY_CODE_F7, KEY_CODE_F8, KEY_CODE_F9,
       KEY_CODE_F10, KEY_CODE_NUM, KEY_CODE_SCROLL, KEY_CODE_NUMPAD_7,
       KEY_CODE_NUMPAD_8, KEY_CODE_NUMPAD_9, KEY_CODE_NUMPAD_MINUS, KEY_CODE_NUMPAD_4,
       KEY_CODE_NUMPAD_5, KEY_CODE_NUMPAD_6, KEY_CODE_NUMPAD_PLUS, KEY_CODE_NUMPAD_1,
       KEY_CODE_NUMPAD_2, KEY_CODE_NUMPAD_3, KEY_CODE_NUMPAD_0, KEY_CODE_NUMPAD_DECIMAL,
       0, 0, KEY_CODE_OEM_102]),
     (0x9c, [KEY_CODE_NUMPAD_ENTER, KEY_CODE_CTRL_RIGHT]),
     (0xb5, [KEY_CODE_NUMPAD_SLASH]),
     (0xb8, [KEY_CODE_ALT_GR]),
     (0xc7, [KEY_CODE_POS_1, KEY_CODE_UP, KEY_CODE_PAGE_UP, KEY_CODE_LEFT]),
     (0xcd, [KEY_CODE_RIGHT, KEY_CODE_END, KEY_CODE_DOWN, KEY_CODE_PAGE_DOWN,
       KEY_CODE_INSERT, KEY_CODE_DELETE]),
     (0xdb, [KEY_CODE_WIN_LEFT, KEY_CODE_WIN_RIGHT, KEY_CODE_APPS])]"

definition qwertz_keycodes :: "u32 list" where
  "qwertz_keycodes = fold place qwertz_segments (replicate 256 0)"

lemma length_place [simp]:
  "fst seg + length (snd seg) \<le> length xs \<Longrightarrow> length (place seg xs) = length xs"
  by (simp add: place_def)

end
