(* ===== verification/Keyboard.thy ===== *)
theory Keyboard
  imports Console Keycodes
begin

text \<open>
  The keyboard of \<open>src/src/io/input.c\<close> and the decoding of scan codes by the two keyboard interrupt
  handlers (\<open>keyboard_handler\<close> in \<open>src/src/interrupt/pic/pic.c\<close>, \<open>debug_keyboard_handler\<close> in
  \<open>src/src/interrupt/apic/apic.c\<close>).
\<close>

section \<open>The layout tables\<close>

record keyboard =
  keycodes :: "u32 list"
  oem_table :: "u8 list"
  numpad_table :: "u8 list"

definition zero_keyboard :: keyboard where
  "zero_keyboard =
     \<lparr>keycodes = replicate 256 0, oem_table = replicate 13 0, numpad_table = replicate 6 0\<rparr>"

definition copy_prefix :: "nat \<Rightarrow> 'a list \<Rightarrow> 'a list \<Rightarrow> 'a list" where
  "copy_prefix n src dst = fold (\<lambda>i xs. xs[i := src ! i]) [0..<n] dst"

definition select_keyboard_layout ::
    "u32 \<Rightarrow> keyboard \<Rightarrow> console \<Rightarrow> (fault + console) \<times> keyboard" where
  "select_keyboard_layout layout k c =
     (if layout = 0 then
        (kprintln ''Keyboard layout QWERTZ'' [] c,
         k\<lparr>keycodes := copy_prefix 255 qwertz_keycodes (keycodes k),
           oem_table := copy_prefix 13 qwertz_oem_table (oem_table k),
           numpad_table := copy_prefix 6 qwertz_numpad_table (numpad_table k)\<rparr>)
      else (kprintln ''Keyboard layout is not supported (so far)'' [] c, k))"

definition scancode_to_ascii :: "keyboard \<Rightarrow> u8 \<Rightarrow> fault + u8" where
  "scancode_to_ascii k scancode =
     (case array_get (keycodes k) (unat scancode) of
        Inl e \<Rightarrow> Inl e
      | Inr key \<Rightarrow>
          if (key \<le> 90 \<and> key > 27) \<or> (key \<le> 13 \<and> key \<ge> 8) then Inr (ucast key)
          else if key > 90 \<and> key < 104 then array_get (oem_table k) (unat (key - 91))
          else if key \<ge> 141 \<and> key \<le> 150 then Inr (ucast (key - 93))
          else if key > 150 \<and> key \<le> 156 then array_get (numpad_table k) (unat (key - 151))
          else Inr 0)"

section \<open>The interrupt handlers\<close>

text \<open>
  Both handlers decode a scan code in the same way: 0xe0 announces an extended code, codes above
  0x80 are releases, and a pressed key is shown in cyan. \<open>decode\<close> gives the new value of the static
  \<open>seq\<close> and the scan code of a pressed key.
\<close>

datatype keystate = KEY_PRESSED | KEY_HOLD | KEY_RELEASED

definition decode :: "u8 \<Rightarrow> u8 \<Rightarrow> u8 \<times> u8 option" where
  "decode seq byte =
     (let scancode = (ucast byte :: u32)
      in if scancode = 0xe0 then (1, None)
         else
           let state = (if scancode > 0x80 then KEY_RELEASED else KEY_PRESSED);
               (scancode', seq') = (if seq = 1 then (scancode + 0x80, 0) else (scancode, seq))
           in (seq', if state = KEY_PRESSED then Some (ucast scancode') else None))"

definition debug_keyboard_handler ::
    "keyboard \<Rightarrow> u8 \<Rightarrow> u8 \<times> console \<Rightarrow> fault + u8 \<times> console" where
  "debug_keyboard_handler k byte st =
     (let (seq', pressed) = decode (fst st) byte
      in case pressed of
           None \<Rightarrow> Inr (seq', snd st)
         | Some scancode \<Rightarrow>
             (let c = kset_color 0 3 (snd st)
              in case scancode_to_ascii k scancode of
                   Inl e \<Rightarrow> Inl e
                 | Inr ascii \<Rightarrow>
                     (case kprintf ''%c'' [VInt (scast ascii)] c of
                        Inl e \<Rightarrow> Inl e | Inr c' \<Rightarrow> Inr (seq', c'))))"

section \<open>The loaded layout\<close>

definition qwertz_keyboard :: keyboard where
  "qwertz_keyboard =
     \<lparr>keycodes = qwertz_keycodes, oem_table = qwertz_oem_table, numpad_table = qwertz_numpad_table\<rparr>"

lemma select_qwertz: "snd (select_keyboard_layout 0 zero_keyboard c) = qwertz_keyboard"
proof -
  have "copy_prefix 255 qwertz_keycodes (replicate 256 0) = qwertz_keycodes" by code_simp
  moreover have "copy_prefix 13 qwertz_oem_table (replicate 13 0) = qwertz_oem_table" by code_simp
  moreover have "copy_prefix 6 qwertz_numpad_table (replicate 6 0) = qwertz_numpad_table" by code_simp
  ultimately show ?thesis
    by (simp add: select_keyboard_layout_def zero_keyboard_def qwertz_keyboard_def)
qed

text \<open>The characters a German keyboard without modifiers should give, by scan code.\<close>

definition qwertz_ascii :: "u8 list" where
  "qwertz_ascii =
     [0, 0] @ bytes_of ''1234567890'' @ [225, 39, 8, 9] @ bytes_of ''QWERTZUIOP'' @ [154, 43, 13, 0] @
     bytes_of ''ASDFGHJKL'' @ [153, 142, 94, 0, 35] @ bytes_of ''YXCVBNM,.-'' @ [0, 42, 0, 32] @
     replicate 13 0 @ bytes_of ''789-456+1230,'' @ [0, 0, 60] @
     replicate 69 0 @ [10] @ replicate 24 0 @ [47] @ replicate 74 0"

lemma qwertz_ascii_eval:
  "map (\<lambda>n. scancode_to_ascii qwertz_keyboard (of_nat n)) [0..<256] = map Inr qwertz_ascii"
  by code_simp

lemma length_qwertz_ascii [simp]: "length qwertz_ascii = 256"
  by (simp add: qwertz_ascii_def bytes_of_def)

lemma scancode_to_ascii_qwertz:
  "scancode_to_ascii qwertz_keyboard s = Inr (qwertz_ascii ! unat s)"
proof -
  have "map (\<lambda>n. scancode_to_ascii qwertz_keyboard (of_nat n)) [0..<256] ! unat s
      = map Inr qwertz_ascii ! unat s"
    by (simp only: qwertz_ascii_eval)
  then show ?thesis using unat_u8_less [of s] by simp
qed

section \<open>Decoding a stream of scan codes\<close>

datatype key_event = Make u8 | Break u8 | ExtMake u8 | ExtBreak u8

fun scan_bytes :: "key_event \<Rightarrow> u8 list" where
  "scan_bytes (Make s) = [s]"
| "scan_bytes (Break s) = [s + 0x80]"
| "scan_bytes (ExtMake s) = [0xe0, s]"
| "scan_bytes (ExtBreak s) = [0xe0, s + 0x80]"

fun event_code :: "key_event \<Rightarrow> u8" where
  "event_code (Make s) = s"
| "event_code (Break s) = s"
| "event_code (ExtMake s) = s"
| "event_code (ExtBreak s) = s"

fun presses :: "key_event \<Rightarrow> u8 list" where
  "presses (Make s) = [s]"
| "presses (ExtMake s) = [s + 0x80]"
| "presses (Break s) = []"
| "presses (ExtBreak s) = []"

definition valid_event :: "key_event \<Rightarrow> bool" where
  "valid_event e \<longleftrightarrow> event_code e < 0x80 \<and> event_code e \<noteq> 0 \<and> event_code e \<noteq> 0x60"

fun decode_all :: "u8 \<Rightarrow> u8 list \<Rightarrow> u8 \<times> u8 list" where
  "decode_all seq [] = (seq, [])"
| "decode_all seq (b # bs) =
     (let (seq', p) = decode seq b; (seq'', ps) = decode_all seq' bs
      in (seq'', (case p of None \<Rightarrow> [] | Some s \<Rightarrow> [s]) @ ps))"

lemma decode_all_append:
  "decode_all seq (xs @ ys) =
     (let (s1, p1) = decode_all seq xs; (s2, p2) = decode_all s1 ys in (s2, p1 @ p2))"
  by (induction xs arbitrary: seq) (simp_all add: Let_def split: prod.splits)

lemma decode_seq0:
  "decode 0 b = (if b = 0xe0 then (1, None) else (0, if b > 0x80 then None else Some b))"
  by (simp add: decode_def word_unat_eq_iff word_less_nat_alt unat_ucast_up Let_def)

lemma decode_seq1:
  "decode 1 b = (if b = 0xe0 then (1, None) else (0, if b > 0x80 then None else Some (b + 0x80)))"
proof -
  have "unat (ucast b + 0x80 :: u32) = unat b + 128"
    using unat_u8_less [of b] by (simp add: unat_word_ariths unat_ucast_up)
  then have "(ucast (ucast b + 0x80 :: u32) :: u8) = b + 0x80"
    by (simp add: word_unat_eq_iff unat_ucast_mod [of "ucast b + 0x80 :: u32"] unat_word_ariths)
  then show ?thesis
    by (simp add: decode_def word_unat_eq_iff word_less_nat_alt unat_ucast_up Let_def)
qed

lemma decode_event:
  assumes "valid_event e"
  shows "decode_all 0 (scan_bytes e) = (0, presses e)"
proof -
  let ?s = "event_code e"
  have s: "unat ?s < 128" "unat ?s \<noteq> 0" "unat ?s \<noteq> 96"
    using assms by (simp_all add: valid_event_def word_less_nat_alt word_unat_eq_iff)
  then have r: "unat (?s + 0x80) = unat ?s + 128" by (simp add: unat_word_ariths)
  have c: "?s \<noteq> 0xe0" "\<not> ?s > 0x80" "?s + 0x80 \<noteq> 0xe0" "?s + 0x80 > 0x80"
    using s r by (simp_all add: word_less_nat_alt word_unat_eq_iff)
  show ?thesis using c by (cases e) (simp_all add: decode_seq0 decode_seq1)
qed

lemma decode_events:
  "\<forall>e \<in> set es. valid_event e \<Longrightarrow>
   decode_all 0 (concat (map scan_bytes es)) = (0, concat (map presses es))"
  by (induction es) (simp_all add: decode_all_append decode_event)

section \<open>The handler as a whole\<close>

lemma debug_keyboard_handler_step:
  assumes "con_ok (snd st)"
  shows "\<exists>c'. debug_keyboard_handler qwertz_keyboard byte st = Inr (fst (decode (fst st) byte), c') \<and>
    con_ok c' \<and>
    (case snd (decode (fst st) byte) of
       None \<Rightarrow> c' = snd st
     | Some s \<Rightarrow> printByte (qwertz_ascii ! unat s) (kset_color 0 3 (snd st)) = Inr c')"
proof (cases "snd (decode (fst st) byte)")
  case None
  then show ?thesis using assms by (simp add: debug_keyboard_handler_def case_prod_beta)
next
  case (Some s)
  let ?c = "kset_color 0 3 (snd st)" and ?a = "qwertz_ascii ! unat s"
  have "con_ok ?c" using assms by (simp add: kset_color_def con_ok_def)
  from printByte_safe [OF this] obtain c' where
    c': "printByte ?a ?c = Inr c'" "con_ok c'" by blast
  show ?thesis using Some c'
    by (simp add: debug_keyboard_handler_def case_prod_beta scancode_to_ascii_qwertz directive_def)
qed

interpretation kbd: safe_op_system "debug_keyboard_handler qwertz_keyboard" "\<lambda>st. con_ok (snd st)"
  by unfold_locales (use debug_keyboard_handler_step in fastforce)

text \<open>The handler run over a stream of bytes is the decoder followed by printing.\<close>

definition show_key :: "u8 \<Rightarrow> console \<Rightarrow> fault + console" where
  "show_key s c = printByte (qwertz_ascii ! unat s) (kset_color 0 3 c)"

lemma handler_run_decode:
  assumes "con_ok c"
  shows "run_ops (debug_keyboard_handler qwertz_keyboard) bs (seq, c) =
    (let (seq', ps) = decode_all seq bs
     in case run_ops show_key ps c of Inl e \<Rightarrow> Inl e | Inr c' \<Rightarrow> Inr (seq', c'))"
  using assms
proof (induction bs arbitrary: seq c)
  case Nil
  then show ?case by simp
next
  case (Cons b bs)
  have ok: "con_ok (snd (seq, c))" using Cons.prems by simp
  from debug_keyboard_handler_step [OF ok, of b, unfolded fst_conv snd_conv] obtain c' where
    c': "debug_keyboard_handler qwertz_keyboard b (seq, c) = Inr (fst (decode seq b), c')"
      "con_ok c'"
      "case snd (decode seq b) of None \<Rightarrow> c' = c
       | Some s \<Rightarrow> printByte (qwertz_ascii ! unat s) (kset_color 0 3 c) = Inr c'"
    by blast
  show ?case
    using Cons.IH [OF c'(2), of "fst (decode seq b)"] c'(1,3)
    by (cases "snd (decode seq b)")
      (auto simp: Let_def case_prod_beta show_key_def split: sum.splits)
qed

section \<open>Properties\<close>

text \<open>
  After the QWERTZ layout is selected every scan code has a character, none of the table
  accesses of \<open>scancode_to_ascii\<close> leaves its table, and the characters are those of the German
  layout.
\<close>

theorem qwertz_layout_ascii:
  "\<forall>s. scancode_to_ascii (snd (select_keyboard_layout 0 zero_keyboard c)) s =
     Inr (qwertz_ascii ! unat s)"
  by (simp add: select_qwertz scancode_to_ascii_qwertz)

text \<open>C13:
  On the byte stream of any sequence of key presses and releases, plain or extended, the
  interrupt handler shows exactly the characters of the pressed keys, in order (extended keys from
  the upper half of the table), never faults, and is back in its start state.
\<close>

theorem keyboard_handler_shows_presses:
  assumes "con_ok c" "\<forall>e \<in> set es. valid_event e"
  shows "\<exists>c'. run_ops (debug_keyboard_handler qwertz_keyboard) (concat (map scan_bytes es)) (0, c) =
           Inr (0, c') \<and> con_ok c' \<and> run_ops show_key (concat (map presses es)) c = Inr c'"
proof -
  have "con_ok (snd (0 :: u8, c))" using assms(1) by simp
  from kbd.run_safe [OF this, of "concat (map scan_bytes es)"] obtain st where
    "run_ops (debug_keyboard_handler qwertz_keyboard) (concat (map scan_bytes es)) (0, c) = Inr st"
    "con_ok (snd st)" by blast
  then show ?thesis using handler_run_decode [OF assms(1), of "concat (map scan_bytes es)" 0]
      decode_events [OF assms(2)]
    by (auto split: sum.splits)
qed

theorem keyboard_handler_shows_presses_witness:
  "\<exists>c'. run_ops (debug_keyboard_handler qwertz_keyboard) [0x1e, 0x9e, 0xe0, 0x35, 0xe0, 0xb5]
          (0, init_console (\<lambda>_. 0)) = Inr (0, c') \<and>
        run_ops show_key [0x1e, 0xb5] (init_console (\<lambda>_. 0)) = Inr c'"
proof -
  let ?es = "[Make 0x1e, Break 0x1e, ExtMake 0x35, ExtBreak 0x35]"
  have "con_ok (init_console (\<lambda>_. 0))" "\<forall>e \<in> set ?es. valid_event e"
    by (simp_all add: con_ok_def init_console_def valid_event_def)
  from keyboard_handler_shows_presses [OF this] show ?thesis by auto
qed

end
