(* ===== verification/Syscalls.thy ===== *)
theory Syscalls
  imports Tasks Keyboard
begin

text \<open>
  The system calls of \<open>src/src/syscall/syscall.c\<close> and the wrappers of \<open>syscall.h\<close>. A call changes the
  console, the memory state or the scheduler; its arguments are the six argument registers, and the
  bytes of a user string are read through a parameter, as is what \<open>kprintf\<close> finds where \<open>kprintln\<close> passed nothing. \<open>switch_task\<close> and \<open>jump_usermode\<close> do not return.
\<close>

section \<open>The handlers\<close>

record kernel =
  console :: console
  memory :: mm
  scheduler :: sched

datatype sys_result =
    Returned u64
  | Left_kernel outcome

text \<open>The colours \<open>BLACK\<close> and \<open>WHITE\<close> of \<open>types.h\<close>.\<close>

abbreviation BLACK :: u8 where "BLACK \<equiv> 0"
abbreviation WHITE :: u8 where "WHITE \<equiv> 15"

definition with_console :: "(console \<Rightarrow> fault + console) \<Rightarrow> u64 \<Rightarrow> kernel \<Rightarrow> fault + sys_result \<times> kernel" where
  "with_console f r k =
     (case f (console k) of Inl e \<Rightarrow> Inl e | Inr c \<Rightarrow> Inr (Returned r, k\<lparr>console := c\<rparr>))"

definition write_syscall :: "u64 \<Rightarrow> u8 list \<Rightarrow> kernel \<Rightarrow> fault + sys_result \<times> kernel" where
  "write_syscall fd buffer k =
     (let k = k\<lparr>console := kset_color BLACK WHITE (console k)\<rparr>
      in if fd = 0 then with_console (kprintf ''%s'' [VStr buffer]) 0 k
         else with_console (kprintln ''only stdout is supported so far'' []) (- 1) k)"

definition sched_yield_syscall :: "kernel \<Rightarrow> fault + sys_result \<times> kernel" where
  "sched_yield_syscall k =
     and_then (switch_task (scheduler k) (console k))
       (\<lambda>(out, q, c). Inr (Left_kernel out, k\<lparr>scheduler := q, console := c\<rparr>))"

definition stub_syscall :: "string \<Rightarrow> kernel \<Rightarrow> fault + sys_result \<times> kernel" where
  "stub_syscall msg k =
     with_console (kprintln msg []) 0 (k\<lparr>console := kset_color BLACK WHITE (console k)\<rparr>)"

text \<open>The calls that are not implemented yet ignore their arguments, print their name and return 0.\<close>

definition open_syscall :: "u64 \<Rightarrow> u32 \<Rightarrow> u32 \<Rightarrow> kernel \<Rightarrow> fault + sys_result \<times> kernel" where
  "open_syscall file flags mode k = stub_syscall ''open syscall'' k"

definition read_syscall :: "u32 \<Rightarrow> u64 \<Rightarrow> u64 \<Rightarrow> kernel \<Rightarrow> fault + sys_result \<times> kernel" where
  "read_syscall fd buffer count k = stub_syscall ''read syscall'' k"

definition close_syscall :: "u32 \<Rightarrow> kernel \<Rightarrow> fault + sys_result \<times> kernel" where
  "close_syscall fd k = stub_syscall ''close syscall'' k"

definition exit_syscall :: "u32 \<Rightarrow> kernel \<Rightarrow> fault + sys_result \<times> kernel" where
  "exit_syscall err_code k = stub_syscall ''exit syscall'' k"

definition fork_syscall :: "kernel \<Rightarrow> fault + sys_result \<times> kernel" where
  "fork_syscall k = stub_syscall ''fork syscall'' k"

definition execve_syscall :: "u64 \<Rightarrow> u64 \<Rightarrow> u64 \<Rightarrow> kernel \<Rightarrow> fault + sys_result \<times> kernel" where
  "execve_syscall path argv envp k = stub_syscall ''execve syscall'' k"

definition getpid_syscall :: "kernel \<Rightarrow> fault + sys_result \<times> kernel" where
  "getpid_syscall k = stub_syscall ''getpid syscall'' k"

definition kill_syscall :: "u32 \<Rightarrow> u32 \<Rightarrow> kernel \<Rightarrow> fault + sys_result \<times> kernel" where
  "kill_syscall pid sig k = stub_syscall ''kill syscall'' k"

definition getcwd_syscall :: "u64 \<Rightarrow> u64 \<Rightarrow> kernel \<Rightarrow> fault + sys_result \<times> kernel" where
  "getcwd_syscall buffer sz k = stub_syscall ''getcwd syscall'' k"

definition mkdir_syscall :: "u64 \<Rightarrow> u32 \<Rightarrow> kernel \<Rightarrow> fault + sys_result \<times> kernel" where
  "mkdir_syscall path mode k = stub_syscall ''mkdir syscall'' k"

definition rmdir_syscall :: "u64 \<Rightarrow> kernel \<Rightarrow> fault + sys_result \<times> kernel" where
  "rmdir_syscall path k = stub_syscall ''rmdir syscall'' k"

definition rename_syscall :: "u64 \<Rightarrow> u64 \<Rightarrow> kernel \<Rightarrow> fault + sys_result \<times> kernel" where
  "rename_syscall oldname newname k = stub_syscall ''rename syscall'' k"

definition pause_syscall :: "kernel \<Rightarrow> fault + sys_result \<times> kernel" where
  "pause_syscall k = stub_syscall ''pause syscall'' k"

definition nano_sleep_syscall :: "u64 \<Rightarrow> u64 \<Rightarrow> kernel \<Rightarrow> fault + sys_result \<times> kernel" where
  "nano_sleep_syscall req rem k = stub_syscall ''nano sleep syscall'' k"

abbreviation (input) PROT_EXEC :: u32 where "PROT_EXEC \<equiv> 4"

definition mmap_flags :: "u32 \<Rightarrow> u64" where
  "mmap_flags prot =
     (let pageFlags = User OR ucast (prot AND 3)
      in if prot AND PROT_EXEC = 0 then pageFlags OR ExecDisable else pageFlags)"

definition mmap_pages :: "u64 \<Rightarrow> u32" where
  "mmap_pages sz = ucast (sz div 4096 + 1)"

definition map_user_range :: "u64 \<Rightarrow> u64 \<Rightarrow> u64 \<Rightarrow> u64 \<Rightarrow> nat \<Rightarrow> mm \<Rightarrow> mm" where
  "map_user_range pml4_table addr phys_addr_start pageFlags count s =
     fold (\<lambda>i. map_user_frame pml4_table (to_page (addr + page_offset32 i))
            (to_frame (phys_addr_start + page_offset32 i)) pageFlags) [0..<count] s"

definition mmap_syscall :: "u64 \<Rightarrow> u64 \<Rightarrow> u32 \<Rightarrow> kernel \<Rightarrow> fault + sys_result \<times> kernel" where
  "mmap_syscall addr sz prot k =
     (case get_addr_space (scheduler k) of
        Inl e \<Rightarrow> Inl e
      | Inr pml4_table \<Rightarrow>
          let pagesCount = mmap_pages sz;
              (phys_addr_start, s) = pmm_alloc_unmapped (ucast pagesCount) (memory k);
              s = map_user_range pml4_table addr phys_addr_start (mmap_flags prot) (unat pagesCount) s
          in Inr (Returned (addr AND NOT 4096), k\<lparr>memory := s\<rparr>))"

text \<open>The value is lost on the way to \<open>kprintf\<close>; \<open>found\<close> gives what it reads instead.\<close>

definition print_int_syscall :: "va_area \<Rightarrow> u64 \<Rightarrow> kernel \<Rightarrow> fault + sys_result \<times> kernel" where
  "print_int_syscall found i k = with_console (kprintln_va found ''%d'' [VU64 i]) 0 k"

section \<open>The table and the wrappers\<close>

datatype handler =
    H_write | H_sched_yield | H_open | H_read | H_close | H_exit
  | H_mmap | H_fork | H_execve | H_getpid | H_kill | H_getcwd
  | H_mkdir | H_rmdir | H_rename | H_pause | H_nano_sleep | H_print_int

text \<open>\<open>syscall_num\<close>.\<close>

abbreviation (input) SYS_WRITE :: nat where "SYS_WRITE \<equiv> 0"
abbreviation (input) SYS_OPEN :: nat where "SYS_OPEN \<equiv> 1"
abbreviation (input) SYS_READ :: nat where "SYS_READ \<equiv> 2"
abbreviation (input) SYS_CLOSE :: nat where "SYS_CLOSE \<equiv> 3"
abbreviation (input) SYS_EXIT :: nat where "SYS_EXIT \<equiv> 4"
abbreviation (input) SYS_SCHED_YIELD :: nat where "SYS_SCHED_YIELD \<equiv> 5"
abbreviation (input) SYS_MMAP :: nat where "SYS_MMAP \<equiv> 6"
abbreviation (input) SYS_FORK :: nat where "SYS_FORK \<equiv> 7"
abbreviation (input) SYS_EXECVE :: nat where "SYS_EXECVE \<equiv> 8"
abbreviation (input) SYS_GETPID :: nat where "SYS_GETPID \<equiv> 9"
abbreviation (input) SYS_KILL :: nat where "SYS_KILL \<equiv> 10"
abbreviation (input) SYS_GETCWD :: nat where "SYS_GETCWD \<equiv> 11"
abbreviation (input) SYS_MKDIR :: nat where "SYS_MKDIR \<equiv> 12"
abbreviation (input) SYS_RMDIR :: nat where "SYS_RMDIR \<equiv> 13"
abbreviation (input) SYS_RENAME :: nat where "SYS_RENAME \<equiv> 14"
abbreviation (input) SYS_PAUSE :: nat where "SYS_PAUSE \<equiv> 15"
abbreviation (input) SYS_NANO_SLEEP :: nat where "SYS_NANO_SLEEP \<equiv> 16"
abbreviation (input) SYS_PRINT_INT :: nat where "SYS_PRINT_INT \<equiv> 17"

abbreviation (input) SYSCALLS_COUNT :: nat where "SYSCALLS_COUNT \<equiv> 18"

text \<open>The table with its designators, in the order of the source.\<close>

definition syscall_table :: "handler option list" where
  "syscall_table = fold (\<lambda>(i, h) t. t[i := Some h])
     [(SYS_WRITE, H_write), (SYS_SCHED_YIELD, H_sched_yield),
      (SYS_OPEN, H_open), (SYS_READ, H_read),
      (SYS_CLOSE, H_close), (SYS_EXIT, H_exit),
      (SYS_MMAP, H_mmap), (SYS_FORK, H_fork),
      (SYS_EXECVE, H_execve), (SYS_GETPID, H_getpid),
      (SYS_KILL, H_kill), (SYS_GETCWD, H_getcwd),
      (SYS_MKDIR, H_mkdir), (SYS_RMDIR, H_rmdir),
      (SYS_RENAME, H_rename), (SYS_PAUSE, H_pause),
      (SYS_NANO_SLEEP, H_nano_sleep), (SYS_PRINT_INT, H_print_int)]
     (replicate SYSCALLS_COUNT None)"

text \<open>\<open>user_str\<close> gives the bytes of the user string at an address.\<close>

definition call_handler ::
    "va_area \<Rightarrow> (u64 \<Rightarrow> u8 list) \<Rightarrow> handler \<Rightarrow> u64 list \<Rightarrow> kernel \<Rightarrow> fault + sys_result \<times> kernel" where
  "call_handler found user_str h args k =
     (case h of
        H_write \<Rightarrow> write_syscall (args ! 0) (user_str (args ! 1)) k
      | H_sched_yield \<Rightarrow> sched_yield_syscall k
      | H_open \<Rightarrow> open_syscall (args ! 0) (ucast (args ! 1)) (ucast (args ! 2)) k
      | H_read \<Rightarrow> read_syscall (ucast (args ! 0)) (args ! 1) (args ! 2) k
      | H_close \<Rightarrow> close_syscall (ucast (args ! 0)) k
      | H_exit \<Rightarrow> exit_syscall (ucast (args ! 0)) k
      | H_mmap \<Rightarrow> mmap_syscall (args ! 0) (args ! 1) (ucast (args ! 2)) k
      | H_fork \<Rightarrow> fork_syscall k
      | H_execve \<Rightarrow> execve_syscall (args ! 0) (args ! 1) (args ! 2) k
      | H_getpid \<Rightarrow> getpid_syscall k
      | H_kill \<Rightarrow> kill_syscall (ucast (args ! 0)) (ucast (args ! 1)) k
      | H_getcwd \<Rightarrow> getcwd_syscall (args ! 0) (args ! 1) k
      | H_mkdir \<Rightarrow> mkdir_syscall (args ! 0) (ucast (args ! 1)) k
      | H_rmdir \<Rightarrow> rmdir_syscall (args ! 0) k
      | H_rename \<Rightarrow> rename_syscall (args ! 0) (args ! 1) k
      | H_pause \<Rightarrow> pause_syscall k
      | H_nano_sleep \<Rightarrow> nano_sleep_syscall (args ! 0) (args ! 1) k
      | H_print_int \<Rightarrow> print_int_syscall found (args ! 0) k)"

text \<open>The dispatch by number: an index behind the table reads past its end.\<close>

definition dispatch ::
    "va_area \<Rightarrow> (u64 \<Rightarrow> u8 list) \<Rightarrow> u64 \<Rightarrow> u64 list \<Rightarrow> kernel \<Rightarrow> fault + sys_result \<times> kernel" where
  "dispatch found user_str num args k =
     (case array_get syscall_table (unat num) of
        Inl e \<Rightarrow> Inl e
      | Inr None \<Rightarrow> Inl NullDeref
      | Inr (Some h) \<Rightarrow> call_handler found user_str h args k)"

text \<open>The wrappers check the number before they trap into the kernel.\<close>

definition syscall ::
    "va_area \<Rightarrow> (u64 \<Rightarrow> u8 list) \<Rightarrow> u64 \<Rightarrow> u64 list \<Rightarrow> kernel \<Rightarrow> fault + sys_result \<times> kernel" where
  "syscall found user_str num args k =
     (if num \<ge> of_nat SYSCALLS_COUNT then Inr (Returned (- 1), k) else dispatch found user_str num args k)"

definition write_call :: "va_area \<Rightarrow> (u64 \<Rightarrow> u8 list) \<Rightarrow> u64 \<Rightarrow> u64 \<Rightarrow> kernel \<Rightarrow> fault + sys_result \<times> kernel" where
  "write_call found user_str fd buffer = syscall found user_str (of_nat SYS_WRITE) [fd, buffer]"

definition sched_yield_call :: "va_area \<Rightarrow> (u64 \<Rightarrow> u8 list) \<Rightarrow> kernel \<Rightarrow> fault + sys_result \<times> kernel" where
  "sched_yield_call found user_str = syscall found user_str (of_nat SYS_SCHED_YIELD) []"

definition mmap_call ::
    "va_area \<Rightarrow> (u64 \<Rightarrow> u8 list) \<Rightarrow> u64 \<Rightarrow> u64 \<Rightarrow> u32 \<Rightarrow> u32 \<Rightarrow> u32 \<Rightarrow> u64 \<Rightarrow> kernel \<Rightarrow>
     fault + sys_result \<times> kernel" where
  "mmap_call found user_str addr sz prot flags fd offset =
     syscall found user_str (of_nat SYS_MMAP) [addr, sz, scast prot, scast flags, scast fd, offset]"

definition printInt_call :: "va_area \<Rightarrow> (u64 \<Rightarrow> u8 list) \<Rightarrow> u64 \<Rightarrow> kernel \<Rightarrow> fault + sys_result \<times> kernel" where
  "printInt_call found user_str i = syscall found user_str (of_nat SYS_PRINT_INT) [i]"

section \<open>Console output of the calls\<close>

lemma kprintln_plain_safe:
  assumes "con_ok c" "CHR ''%'' \<notin> set msg"
  shows "\<exists>c'. kprintln msg args c = Inr c' \<and> con_ok c'"
proof -
  obtain c1 where c1: "run_ops printByte (bytes_of msg) c = Inr c1" "con_ok c1"
    using con.run_safe [OF assms(1)] by blast
  then have "kprintf msg [] c = Inr c1"
    using kprintf_plain [OF assms(2), of "[]" "[]" c] by simp
  moreover obtain c2 where "printByte 10 c1 = Inr c2" "con_ok c2"
    using printByte_safe [OF c1(2)] by blast
  ultimately show ?thesis by (simp add: kprintln_def)
qed

lemma kset_color_ok [simp]: "con_ok (kset_color bg fg c) = con_ok c"
  by (simp add: con_ok_def kset_color_def)

lemma stub_safe:
  assumes "con_ok (console k)" "CHR ''%'' \<notin> set msg"
  shows "\<exists>c'. stub_syscall msg k = Inr (Returned 0, k\<lparr>console := c'\<rparr>) \<and> con_ok c'"
  using kprintln_plain_safe [of "kset_color BLACK WHITE (console k)" msg "[]"] assms
  by (auto simp: stub_syscall_def with_console_def)

lemma write_safe:
  assumes "con_ok (console k)"
  shows "\<exists>c'. write_syscall fd buf k = Inr (Returned (if fd = 0 then 0 else - 1), k\<lparr>console := c'\<rparr>) \<and> con_ok c'"
proof (cases "fd = 0")
  case True
  have "con_ok (kset_color BLACK WHITE (console k))" using assms by simp
  from con.run_safe [OF this, of "takeWhile (\<lambda>b. b \<noteq> 0) buf"] show ?thesis
    using True by (auto simp: write_syscall_def with_console_def directive_def printStr_def)
next
  case False
  then show ?thesis
    using kprintln_plain_safe [of "kset_color BLACK WHITE (console k)" "''only stdout is supported so far''" "[]"] assms
    by (auto simp: write_syscall_def with_console_def)
qed

lemmas stub_defs = open_syscall_def read_syscall_def close_syscall_def exit_syscall_def fork_syscall_def
  execve_syscall_def getpid_syscall_def kill_syscall_def getcwd_syscall_def mkdir_syscall_def
  rmdir_syscall_def rename_syscall_def pause_syscall_def nano_sleep_syscall_def

lemma syscall_table_eval:
  "syscall_table = map Some [H_write, H_open, H_read, H_close, H_exit, H_sched_yield, H_mmap, H_fork,
     H_execve, H_getpid, H_kill, H_getcwd, H_mkdir, H_rmdir, H_rename, H_pause, H_nano_sleep, H_print_int]"
  by code_simp

text \<open>
  A system call never reads behind the table when it goes through the wrapper: a number from
  18 on returns -1 and changes nothing, and each of the 18 numbers calls a handler.
\<close>

theorem syscall_dispatch:
  "syscall found user_str num args k =
     (if num \<ge> 18 then Inr (Returned (- 1), k)
      else call_handler found user_str
        ([H_write, H_open, H_read, H_close, H_exit, H_sched_yield, H_mmap, H_fork, H_execve, H_getpid,
          H_kill, H_getcwd, H_mkdir, H_rmdir, H_rename, H_pause, H_nano_sleep, H_print_int] ! unat num)
        args k)"
proof (cases "num \<ge> 18")
  case False
  then have "unat num < 18" by (simp add: word_le_nat_alt)
  then show ?thesis using False
    by (simp add: syscall_def dispatch_def syscall_table_eval array_get_def nth_map del: list.map)
qed (simp add: syscall_def)

text \<open>
  Every call other than \<open>sched_yield\<close>, \<open>mmap\<close> and \<open>print_int\<close> returns, whatever its arguments
  and the user's string: the cursor stays on the screen, memory and scheduler are untouched.
\<close>

theorem console_calls_safe:
  assumes "con_ok (console k)" "h \<notin> {H_sched_yield, H_mmap, H_print_int}"
  shows "\<exists>r c'. call_handler found user_str h args k = Inr (Returned r, k\<lparr>console := c'\<rparr>) \<and> con_ok c' \<and>
    (r = 0 \<or> h = H_write \<and> args ! 0 \<noteq> 0 \<and> r = - 1)"
proof -
  have stub: "\<exists>c'. stub_syscall msg k = Inr (Returned 0, k\<lparr>console := c'\<rparr>) \<and> con_ok c'"
    if "CHR ''%'' \<notin> set msg" for msg
    by (rule stub_safe [OF assms(1) that])
  show ?thesis
  proof (cases "h = H_write")
    case True
    then show ?thesis using write_safe [OF assms(1), of "args ! 0" "user_str (args ! 1)"]
      by (auto simp: call_handler_def)
  next
    case False
    then show ?thesis using assms(2)
      by (cases h) (simp_all add: call_handler_def stub_defs stub ex_simps [symmetric] del: ex_simps)
  qed
qed

text \<open>
  \<open>print_int\<close> calls \<open>kprintln\<close> with a directive, whose argument is not passed on: by the C standard alone it is never
  carried out.
\<close>

theorem print_int_faults: "print_int_syscall nothing_found i k = Inl MissingVaArg"
  by (simp add: print_int_syscall_def with_console_def kprintln_va_nothing kprintln_def directive_def)

theorem console_calls_safe_witness:
  "\<exists>r c'. call_handler nothing_found (\<lambda>_. [72, 105]) H_write [0, 0x1000] \<lparr>console = init_console (\<lambda>_. 0), memory = sample, scheduler = init_sched\<rparr> =
     Inr (Returned r, \<lparr>console = c', memory = sample, scheduler = init_sched\<rparr>) \<and> con_ok c'"
proof -
  have "con_ok (console \<lparr>console = init_console (\<lambda>_. 0), memory = sample, scheduler = init_sched\<rparr>)"
    by (simp add: con_ok_def init_console_def)
  from console_calls_safe [OF this, of H_write nothing_found] show ?thesis by fastforce
qed

section \<open>Memory mapping\<close>

lemma mmap_flag_bits:
  "phys_base (mmap_flags prot) = 0"
  "prot AND 1 \<noteq> 0 \<Longrightarrow> is_entry_present (mmap_flags prot)"
  "page_base (mmap_flags prot) = (if prot AND PROT_EXEC = 0 then ExecDisable else 0)"
proof -
  have m3: "(prot AND 3 :: u32) = take_bit 2 prot"
    by (simp add: take_bit_eq_mask mask_eq_exp_minus_1)
  have pb: "phys_base (x OR y) = phys_base x OR phys_base y" for x y
    unfolding phys_base_mask by (rule bit_word_eqI) (auto simp: bit_simps)
  note gb = page_base_or
  have low: "phys_base (ucast (prot AND 3)) = 0" "page_base (ucast (prot AND 3)) = 0"
    unfolding m3 phys_base_mask page_base_def fff by (rule bit_word_eqI; auto simp: bit_simps)+
  have c: "phys_base User = 0" "phys_base ExecDisable = 0" "page_base User = 0"
    "page_base ExecDisable = ExecDisable"
    by (simp_all add: phys_base_def page_base_def)
  show "phys_base (mmap_flags prot) = 0" by (simp add: mmap_flags_def Let_def pb low c)
  show "page_base (mmap_flags prot) = (if prot AND PROT_EXEC = 0 then ExecDisable else 0)"
    by (simp add: mmap_flags_def Let_def gb low c)
  assume "prot AND 1 \<noteq> 0"
  then have "bit prot 0" by (simp add: and_one_eq bit_0 odd_iff_mod_2_eq_one)
  then have "bit (mmap_flags prot) 0"
    by (auto simp: mmap_flags_def Let_def bit_simps m3)
  then show "is_entry_present (mmap_flags prot)"
    by (simp add: is_entry_present_def and_one_eq bit_0 odd_iff_mod_2_eq_one)
qed

lemma mmap_one_page:
  assumes "unat sz < 4096"
  shows "mmap_pages sz = 1"
proof -
  have "sz div 4096 = 0" using assms by (simp add: unat_div word_unat_eq_iff)
  then show ?thesis by (simp add: mmap_pages_def)
qed

text \<open>C16:
  A call of \<open>mmap\<close> for less than a page maps the page of the address, in the calling task's
  address space, to a frame that was free: every address of the page then translates to that frame,
  with bit 63 set unless the mapping is executable.
\<close>

theorem mmap_maps_fresh_frame:
  assumes "get_addr_space (scheduler k) = Inr pml4" "unat sz < 4096" "pmm_ok (memory k)"
    "pmm_alloc_unmapped 1 (memory k) = (a, s1)" "a \<noteq> 0" "map_ok s1 pml4 (to_page addr)"
    "prot AND 1 \<noteq> 0" "page_base va = page_base addr"
  shows "\<exists>r k'. mmap_syscall addr sz prot k = Inr (Returned r, k') \<and>
    fst (to_usr_phys pml4 va (memory k')) =
      (a OR (if prot AND PROT_EXEC = 0 then ExecDisable else 0)) + page_off va \<and>
    (\<exists>f. unat a = 4096 * f \<and> \<not> frame_used (memory k) f)"
proof -
  have p0: "page_offset32 0 = 0" by (simp add: page_offset32_def)
  have u1: "unat (1 :: u32) = 1" "(ucast (1 :: u32) :: u64) = 1" by simp_all
  obtain f where f: "unat a = 4096 * f" "\<not> frame_used (memory k) f"
    using pmm_alloc_one(3) [OF assms(3,4,5)] by blast
  have al: "page_base a = a" using f(1) by (intro page_base_id) (simp add: page_off_0_iff)
  define s2 where "s2 = map_page pml4 (to_page addr) (to_frame a) (mmap_flags prot) s1"
  have "mmap_syscall addr sz prot k = Inr (Returned (addr AND NOT 4096), k\<lparr>memory := s2\<rparr>)"
    by (simp add: mmap_syscall_def assms(1,4) mmap_one_page [OF assms(2)] u1 map_user_range_def
        map_user_frame_def p0 s2_def)
  moreover have "page_base va = page_base (to_page addr)" using assms(8) by (simp add: to_page_def)
  then have "fst (to_usr_phys pml4 va s2) = page_base (to_frame a OR mmap_flags prot) + page_off va"
    unfolding s2_def
    by (rule mapped_translation [OF assms(6) mmap_flag_bits(1) mmap_flag_bits(2) [OF assms(7)]])
  moreover have "page_base (to_frame a OR mmap_flags prot) =
      a OR (if prot AND PROT_EXEC = 0 then ExecDisable else 0)"
    unfolding page_base_or to_frame_def mmap_flag_bits(3) by (simp add: al)
  ultimately show ?thesis using f by auto
qed

text \<open>A kernel whose current task uses the sample page tables.\<close>

definition sample_kernel :: kernel where
  "sample_kernel = \<lparr>console = init_console (\<lambda>_. 0), memory = sample,
     scheduler = init_sched\<lparr>tasks := (tasks init_sched)[0 := \<lparr>name = ''init'', user_stack = 1, user_func = 2,
       virt_addr_space = 0x4000\<rparr>], tasks_count := 1\<rparr>\<rparr>"

lemma sample_kernel_facts:
  "memory sample_kernel = sample" "get_addr_space (scheduler sample_kernel) = Inr 0x4000"
  by (simp_all add: sample_kernel_def get_addr_space_def init_sched_def array_get_def)

lemma sample_alloc:
  "fst (pmm_alloc_unmapped 1 sample) = 0x210000" "map_ok (snd (pmm_alloc_unmapped 1 sample)) 0x4000 0x40000000"
proof -
  have "va_path (snd (pmm_alloc_unmapped 1 sample)) 0x4000 0x40000000 = [0x4000, 0x5008]" by code_simp
  then show "map_ok (snd (pmm_alloc_unmapped 1 sample)) 0x4000 0x40000000"
    by (rule sample_alloc_map_ok) (simp_all add: tables_ok_def sample_tmp, simp add: sample_def phys_base_def)
qed (rule sample_alloc_frame)

theorem mmap_maps_fresh_frame_witness:
  "\<exists>r k'. mmap_syscall 0x40000000 100 3 sample_kernel = Inr (Returned r, k') \<and>
     fst (to_usr_phys 0x4000 0x40000123 (memory k')) = 0x8000000000210123"
proof -
  have al: "pmm_alloc_unmapped 1 (memory sample_kernel) = (0x210000, snd (pmm_alloc_unmapped 1 sample))"
    using sample_alloc(1) by (metis sample_kernel_facts(1) prod.collapse)
  have tp: "to_page 0x40000000 = 0x40000000" by (simp add: to_page_def page_base_def)
  have "pmm_ok (memory sample_kernel)" using sample_ok(2) by (simp add: sample_kernel_facts)
  note ok = this
  have pre: "unat (100 :: u64) < 4096" "(0x210000 :: u64) \<noteq> 0" "(3 :: u32) AND 1 \<noteq> 0"
    "page_base 0x40000123 = page_base 0x40000000"
    by (simp_all add: page_base_def)
  have "map_ok (snd (pmm_alloc_unmapped 1 sample)) 0x4000 (to_page 0x40000000)"
    unfolding tp by (rule sample_alloc(2))
  note ex = mmap_maps_fresh_frame [OF sample_kernel_facts(2) pre(1) ok al pre(2) this pre(3,4)]
  have v: "(0x210000 OR (if (3 :: u32) AND PROT_EXEC = 0 then ExecDisable else 0)) + page_off 0x40000123
      = 0x8000000000210123"
    by (simp add: page_off_def)
  show ?thesis using ex unfolding v by blast
qed

text \<open>
  \<open>mmap\<close> returns the given address with bit 12 cleared instead of its page: for a page-aligned
  address of an odd page the result is the start of the page before, which the call did not map.
\<close>

theorem mmap_returns_other_page:
  assumes "mmap_syscall addr sz prot k = Inr (Returned r, k')" "page_off addr = 0" "bit addr 12"
  shows "r = addr - 4096 \<and> page_base r \<noteq> page_base addr"
proof -
  have b: "bit (4096 :: u64) n \<longleftrightarrow> n = 12" for n
  proof -
    have "(4096 :: u64) = 2 ^ 12" by simp
    then show ?thesis by (simp only: bit_exp_iff) auto
  qed
  have r: "r = addr AND NOT 4096"
    using assms(1) by (auto simp: mmap_syscall_def Let_def split: sum.splits prod.splits)
  have d: "(w AND NOT x) AND x = 0" "(w AND NOT x) OR x = w OR x" for w x :: u64
    by (rule bit_word_eqI; auto simp: bit_simps)+
  have "addr OR 4096 = addr"
  proof (rule bit_word_eqI)
    fix n
    show "bit (addr OR 4096) n = bit addr n"
      unfolding bit_or_iff b using assms(3) by blast
  qed
  then have "(addr AND NOT 4096) OR 4096 = addr" by (simp only: d(2))
  then have sum: "r + 4096 = addr" using disjunctive_add_eq_or [OF d(1)] r by metis
  then have eq: "r = addr - 4096" by (metis add_diff_cancel_right')
  have c: "(w AND x) AND y = (w AND y) AND x" for w x y :: u64
    by (rule bit_word_eqI) (auto simp: bit_simps)
  have "page_off r = page_off addr AND NOT 4096" unfolding r page_off_def by (rule c)
  then have "page_off r = 0" using assms(2) by simp
  then have "page_base r = r" "page_base addr = addr" using assms(2) by (simp_all add: page_base_id)
  moreover have "r \<noteq> addr" using eq by simp
  ultimately show ?thesis using eq by simp
qed

theorem mmap_returns_other_page_witness:
  "fst (projr (mmap_syscall 0x40001000 100 3 sample_kernel)) = Returned 0x40000000"
proof -
  have "\<exists>k'. mmap_syscall 0x40001000 100 3 sample_kernel = Inr (Returned 0x40000000, k')"
    by (cases "pmm_alloc_unmapped (ucast (mmap_pages 100)) sample")
      (simp add: mmap_syscall_def sample_kernel_facts Let_def)
  then obtain k' where k': "mmap_syscall 0x40001000 100 3 sample_kernel = Inr (Returned 0x40000000, k')"
    by blast
  have "bit (0x40001000 :: u64) 12" by code_simp
  from mmap_returns_other_page [OF k' _ this] have "(0x40000000 :: u64) = 0x40001000 - 4096"
    by (simp add: page_off_def)
  then show ?thesis by (simp add: k')
qed

text \<open>
  \<open>mmap\<close> maps one page more than the length needs when the length is a multiple of the page
  size (for lengths below 16 TiB).
\<close>

theorem mmap_page_count:
  assumes "unat sz < 2 ^ 44 - 4096"
  shows "unat (mmap_pages sz) = (unat sz + 4095) div 4096 + (if unat sz mod 4096 = 0 then 1 else 0)"
proof -
  have "unat (mmap_pages sz) = unat sz div 4096 + 1"
    using assms by (simp add: mmap_pages_def unat_ucast_mod unat_word_ariths unat_div)
  also have "\<dots> = (unat sz + 4095) div 4096 + (if unat sz mod 4096 = 0 then 1 else 0)"
  proof (cases "unat sz mod 4096")
    case 0
    then obtain d where "unat sz = 4096 * d" by auto
    then show ?thesis by simp
  next
    case (Suc m)
    define d where "d = unat sz div 4096"
    have "unat sz = 4096 * d + unat sz mod 4096" by (simp add: d_def)
    then have eq: "unat sz + 4095 = m + 4096 * (d + 1)" using Suc by simp
    have "m < 4096" using Suc by (metis Suc_lessD mod_less_divisor zero_less_numeral)
    then have "(unat sz + 4095) div 4096 = d + 1" unfolding eq by simp
    then show ?thesis using Suc by (simp add: d_def)
  qed
  finally show ?thesis .
qed

theorem mmap_page_count_witness: "unat (mmap_pages 0x2000) = 3"
  by (subst mmap_page_count) simp_all

end
