(* ===== verification/Example_Tasks.thy ===== *)
theory Example_Tasks
  imports Syscalls
begin

text \<open>
  The tasks of \<open>src/src/example_tasks/\<close> and the part of \<open>kernel_main\<close> that starts them (\<open>src/src/main.c\<close>; it stands behind
  a halt loop, so that the kernel at present never gets there). A task runs on the kernel and on the integers of its own
  memory; its system calls go through the wrappers of \<open>syscall.h\<close>.
\<close>

section \<open>Programs of a task\<close>

text \<open>How a task ends: it returns from its function, leaves the processor to another task, or runs forever.\<close>

datatype task_end =
    Finished
  | Switched outcome
  | Spins

type_synonym task_state = "(u64 \<Rightarrow> u32) \<times> kernel"

text \<open>A system call and what the task does with its result.\<close>

definition sys ::
    "(kernel \<Rightarrow> fault + sys_result \<times> kernel) \<Rightarrow> (u64 \<Rightarrow> task_state \<Rightarrow> fault + task_end \<times> task_state) \<Rightarrow>
      task_state \<Rightarrow> fault + task_end \<times> task_state" where
  "sys call_it next_step st =
     (case call_it (snd st) of
        Inl e \<Rightarrow> Inl e
      | Inr (Left_kernel out, k) \<Rightarrow> Inr (Switched out, fst st, k)
      | Inr (Returned r, k) \<Rightarrow> next_step r (fst st, k))"

text \<open>
  \<open>lit\<close> gives the address at which the compiler puts a string, \<open>user_str\<close> the bytes of the string at an address.
\<close>

definition task1 :: "va_area \<Rightarrow> (u64 \<Rightarrow> u8 list) \<Rightarrow> (string \<Rightarrow> u64) \<Rightarrow> task_state \<Rightarrow> fault + task_end \<times> task_state" where
  "task1 found user_str lit =
     sys (write_call found user_str 0 (lit (''write syscall (from task1)'' @ [CHR 0x0A])))
       (\<lambda>_. sys (sched_yield_call found user_str) (\<lambda>_ st. Inr (Finished, st)))"

abbreviation (input) PROT_READ :: u32 where "PROT_READ \<equiv> 1"
abbreviation (input) PROT_WRITE :: u32 where "PROT_WRITE \<equiv> 2"

definition task2 :: "va_area \<Rightarrow> (u64 \<Rightarrow> u8 list) \<Rightarrow> (string \<Rightarrow> u64) \<Rightarrow> task_state \<Rightarrow> fault + task_end \<times> task_state" where
  "task2 found user_str lit =
     (let puts = (\<lambda>s. write_call found user_str 0 (lit (s @ [CHR 0x0A])));
          print = (\<lambda>a :: u32. printInt_call found user_str (scast a));
          ptr = (0x8000000000 :: u64)
      in sys (puts ''from task2: write syscall'') (\<lambda>_.
         sys (mmap_call found user_str ptr 8 (PROT_READ OR PROT_WRITE OR PROT_EXEC) 0 0 0) (\<lambda>addr.
         sys (if sint addr = - 1 then puts ''mmap error'' else puts ''mmap successful'') (\<lambda>_ st.
         sys (print (fst st ptr)) (\<lambda>_ st.
           (let st = ((fst st)(ptr := 64), snd st)
            in sys (print (fst st ptr)) (\<lambda>_ st.
              (let st = ((fst st)(ptr + 4 := - 69), snd st)
               in sys (print (fst st (ptr + 4))) (\<lambda>_.
                  sys (sched_yield_call found user_str) (\<lambda>_ st. Inr (Finished, st))) st)) st)) st))))"

definition test_msg :: "nat \<Rightarrow> string" where
  "test_msg n = ''test'' @ (if n < 10 then [] else [''0123456789'' ! (n div 10)]) @ [''0123456789'' ! (n mod 10)]"

primrec write_all ::
    "va_area \<Rightarrow> (u64 \<Rightarrow> u8 list) \<Rightarrow> (string \<Rightarrow> u64) \<Rightarrow> string list \<Rightarrow> task_state \<Rightarrow> fault + task_end \<times> task_state" where
  "write_all found user_str lit [] st = Inr (Spins, st)"
| "write_all found user_str lit (s # ss) st = sys (write_call found user_str 0 (lit s)) (\<lambda>_. write_all found user_str lit ss) st"

definition err_task :: "va_area \<Rightarrow> (u64 \<Rightarrow> u8 list) \<Rightarrow> (string \<Rightarrow> u64) \<Rightarrow> task_state \<Rightarrow> fault + task_end \<times> task_state" where
  "err_task found user_str lit = write_all found user_str lit (map test_msg [1..<58])"

text \<open>The start of the scheduler: \<open>link1\<close> and \<open>link2\<close> are the addresses of \<open>task1\<close> and \<open>task2\<close>.\<close>

definition start_tasks :: "va_area \<Rightarrow> bool \<Rightarrow> u64 \<Rightarrow> u64 \<Rightarrow> kernel \<Rightarrow> fault + outcome \<times> kernel" where
  "start_tasks found debug link1 link2 k =
     and_then (add_task debug ''task1'' link1 (memory k, scheduler k, console k)) (\<lambda>st.
     and_then (add_task debug ''task2'' link2 st) (\<lambda>(m, q, c).
     and_then (start_scheduler found q c) (\<lambda>(out, c).
       Inr (out, k\<lparr>console := c, memory := m, scheduler := q\<rparr>))))"

section \<open>Calls of a task\<close>

lemma write_result:
  assumes "con_ok (console k)"
  shows "\<exists>c'. write_call found user_str 0 buf k = Inr (Returned 0, k\<lparr>console := c'\<rparr>) \<and> con_ok c' \<and>
    printStr (user_str buf) (kset_color BLACK WHITE (console k)) = Inr c'"
proof -
  have "con_ok (kset_color BLACK WHITE (console k))" using assms by simp
  from con.run_safe [OF this, of "takeWhile (\<lambda>b. b \<noteq> 0) (user_str buf)"] show ?thesis
    by (auto simp: write_call_def syscall_def dispatch_def syscall_table_eval array_get_def call_handler_def
        write_syscall_def with_console_def directive_def printStr_def)
qed

lemma write_step:
  assumes "con_ok (console k)"
  shows "\<exists>c'. con_ok c' \<and> printStr (user_str buf) (kset_color BLACK WHITE (console k)) = Inr c' \<and>
    (\<forall>f. sys (write_call found user_str 0 buf) f (um, k) = f 0 (um, k\<lparr>console := c'\<rparr>))"
  using write_result [OF assms, of found user_str buf] by (auto simp: sys_def)

lemma yield_step:
  assumes "switch_task (scheduler k) (console k) = Inr (out, q, c)"
  shows "sys (sched_yield_call found user_str) f (um, k) = Inr (Switched out, um, k\<lparr>scheduler := q, console := c\<rparr>)"
  using assms by (simp add: sys_def sched_yield_call_def syscall_def dispatch_def syscall_table_eval array_get_def call_handler_def
      sched_yield_syscall_def)

lemma print_step:
  assumes "con_ok (console k)" "va_readable found"
  shows "\<exists>c'. con_ok c' \<and> (\<forall>f. sys (printInt_call found user_str i) f (um, k) = f 0 (um, k\<lparr>console := c'\<rparr>))"
  using kprintln_va_reads [OF assms, of "''%d''" "[VU64 i]"]
  by (auto simp: sys_def printInt_call_def syscall_def dispatch_def syscall_table_eval array_get_def call_handler_def
      print_int_syscall_def with_console_def)

lemma mmap_step:
  assumes "get_addr_space (scheduler k) = Inr pml4"
  shows "\<exists>m. \<forall>f. sys (mmap_call found user_str a n p 0 0 0) f (um, k) = f (a AND NOT 4096) (um, k\<lparr>memory := m\<rparr>)"
  using assms by (auto simp: sys_def mmap_call_def syscall_def dispatch_def syscall_table_eval array_get_def call_handler_def
      mmap_syscall_def split_def Let_def)

text \<open>A task shows its message in white on black and gives up the processor.\<close>

lemma task1_result:
  assumes "con_ok (console k)"
  shows "\<exists>c1. con_ok c1 \<and>
    printStr (user_str (lit (''write syscall (from task1)'' @ [CHR 0x0A]))) (kset_color BLACK WHITE (console k)) = Inr c1 \<and>
    (\<forall>out q c2. switch_task (scheduler k) c1 = Inr (out, q, c2) \<longrightarrow>
      task1 found user_str lit (um, k) = Inr (Switched out, um, k\<lparr>console := c2, scheduler := q\<rparr>))"
proof -
  obtain c1 where c1: "con_ok c1"
    "printStr (user_str (lit (''write syscall (from task1)'' @ [CHR 0x0A]))) (kset_color BLACK WHITE (console k)) = Inr c1"
    "\<And>f. sys (write_call found user_str 0 (lit (''write syscall (from task1)'' @ [CHR 0x0A]))) f (um, k) =
      f 0 (um, k\<lparr>console := c1\<rparr>)"
    using write_step [OF assms] by metis
  then show ?thesis
    using yield_step [of "k\<lparr>console := c1\<rparr>"] by (auto simp: task1_def)
qed

text \<open>The second task, with the console followed from call to call.\<close>

lemma task2_result:
  assumes "con_ok (console k)" "va_readable found" "get_addr_space (scheduler k) = Inr pml4"
  shows "\<exists>m c. con_ok c \<and> (\<forall>out q c'. switch_task (scheduler k) c = Inr (out, q, c') \<longrightarrow>
    task2 found user_str lit (um, k) =
      Inr (Switched out, um(0x8000000000 := 64, 0x8000000004 := - 69), k\<lparr>memory := m, console := c', scheduler := q\<rparr>))"
proof -
  let ?puts = "\<lambda>s. write_call found user_str 0 (lit (s @ [CHR 0x0A]))"
  obtain c1 where c1: "con_ok c1"
    "\<And>f. sys (?puts ''from task2: write syscall'') f (um, k) = f 0 (um, k\<lparr>console := c1\<rparr>)"
    using write_step [OF assms(1)] by metis
  have "get_addr_space (scheduler (k\<lparr>console := c1\<rparr>)) = Inr pml4" using assms(3) by simp
  from mmap_step [OF this] obtain m where m:
    "\<And>f. sys (mmap_call found user_str 0x8000000000 8 (PROT_READ OR PROT_WRITE OR PROT_EXEC) 0 0 0) f (um, k\<lparr>console := c1\<rparr>) =
      f (0x8000000000 AND NOT 4096) (um, k\<lparr>console := c1, memory := m\<rparr>)"
    by blast
  have upd: "k\<lparr>console := c1, memory := m\<rparr> = k\<lparr>memory := m, console := c1\<rparr>" by simp
  obtain c2 where c2: "con_ok c2"
    "\<And>f. sys (?puts ''mmap successful'') f (um, k\<lparr>memory := m, console := c1\<rparr>) = f 0 (um, k\<lparr>memory := m, console := c2\<rparr>)"
    using write_step [of "k\<lparr>memory := m, console := c1\<rparr>" user_str "lit (''mmap successful'' @ [CHR 0x0A])" found um] c1(1)
    by auto
  have print: "\<exists>c'. con_ok c' \<and> (\<forall>f. sys (printInt_call found user_str i) f (v, k\<lparr>memory := m, console := c\<rparr>) =
      f 0 (v, k\<lparr>memory := m, console := c'\<rparr>))" if "con_ok c" for i v c
    using print_step [of "k\<lparr>memory := m, console := c\<rparr>" found user_str i v] that assms(2) by simp
  obtain c3 where c3: "con_ok c3" "\<And>f. sys (printInt_call found user_str (scast (um 0x8000000000))) f
      (um, k\<lparr>memory := m, console := c2\<rparr>) = f 0 (um, k\<lparr>memory := m, console := c3\<rparr>)"
    using print [OF c2(1)] by metis
  let ?v = "um(0x8000000000 := 64)"
  obtain c4 where c4: "con_ok c4" "\<And>f. sys (printInt_call found user_str (scast (?v 0x8000000000))) f
      (?v, k\<lparr>memory := m, console := c3\<rparr>) = f 0 (?v, k\<lparr>memory := m, console := c4\<rparr>)"
    using print [OF c3(1)] by metis
  let ?w = "?v(0x8000000000 + 4 := - 69)"
  obtain c5 where c5: "con_ok c5" "\<And>f. sys (printInt_call found user_str (scast (?w (0x8000000000 + 4)))) f
      (?w, k\<lparr>memory := m, console := c4\<rparr>) = f 0 (?w, k\<lparr>memory := m, console := c5\<rparr>)"
    using print [OF c4(1)] by metis
  have "sint (0x8000000000 AND NOT 4096 :: u64) \<noteq> - 1" by simp
  then have "task2 found user_str lit (um, k) =
      sys (sched_yield_call found user_str) (\<lambda>_ st. Inr (Finished, st)) (?w, k\<lparr>memory := m, console := c5\<rparr>)"
    unfolding task2_def Let_def c1(2) m upd by (simp only: if_False c2(2) c3(2) c4(2) c5(2) fst_conv snd_conv)
  then show ?thesis
    using c5(1) yield_step [of "k\<lparr>memory := m, console := c5\<rparr>"] by (intro exI [of _ m] exI [of _ c5]) auto
qed

lemma printStr_white:
  assumes "con_ok c" "con_color c = 15" "printStr bs c = Inr c'"
  shows "con_ok c'" "con_color c' = 15" "kset_color BLACK WHITE c = c"
proof -
  have "run_ops printByte (takeWhile (\<lambda>b. b \<noteq> 0) bs) c = Inr c'" using assms(3) by (simp add: printStr_def)
  from run_printByte_color [OF assms(1) this] assms(2) show "con_ok c'" "con_color c' = 15" by simp_all
  show "kset_color BLACK WHITE c = c" using assms(2) by (simp add: kset_color_def)
qed

lemma write_all_result:
  assumes "con_ok (console k)" "con_color (console k) = 15"
  shows "\<exists>c'. run_ops (\<lambda>s. printStr (user_str (lit s))) ss (console k) = Inr c' \<and> con_ok c' \<and>
    write_all found user_str lit ss (um, k) = Inr (Spins, um, k\<lparr>console := c'\<rparr>)"
  using assms
proof (induction ss arbitrary: k)
  case (Cons s ss)
  have same: "kset_color BLACK WHITE (console k) = console k" using Cons.prems(2) by (simp add: kset_color_def)
  obtain c1 where c1: "printStr (user_str (lit s)) (console k) = Inr c1"
    "\<And>f. sys (write_call found user_str 0 (lit s)) f (um, k) = f 0 (um, k\<lparr>console := c1\<rparr>)"
    using write_step [OF Cons.prems(1), of user_str "lit s" found um] unfolding same by metis
  from Cons.IH [of "k\<lparr>console := c1\<rparr>"] printStr_white(1,2) [OF Cons.prems c1(1)] show ?case
    by (simp add: c1)
qed simp

section \<open>Properties\<close>

text \<open>
  \<open>err_task\<close> shows its 57 messages one after the other and then keeps the processor for ever: there is no timer interrupt
  that switches tasks.
\<close>

theorem err_task_spins:
  assumes "con_ok (console k)"
  shows "\<exists>c'. run_ops (\<lambda>n. printStr (user_str (lit (test_msg n)))) [1..<58] (kset_color BLACK WHITE (console k)) = Inr c' \<and>
    con_ok c' \<and> err_task found user_str lit (um, k) = Inr (Spins, um, k\<lparr>console := c'\<rparr>)"
proof -
  let ?k = "k\<lparr>console := kset_color BLACK WHITE (console k)\<rparr>"
  have "con_ok (console ?k)" "con_color (console ?k) = 15" using assms by (simp, simp add: kset_color_def)
  from write_all_result [OF this, of user_str lit "map test_msg [1..<58]" found um] obtain c' where c':
    "run_ops (\<lambda>s. printStr (user_str (lit s))) (map test_msg [1..<58]) (kset_color BLACK WHITE (console k)) = Inr c'"
    "con_ok c'" "err_task found user_str lit (um, ?k) = Inr (Spins, um, k\<lparr>console := c'\<rparr>)"
    by (auto simp: err_task_def)
  have "kset_color BLACK WHITE (kset_color BLACK WHITE c) = kset_color BLACK WHITE c" for c
    by (simp add: kset_color_def)
  then have "write_call found user_str 0 b ?k = write_call found user_str 0 b k" for b
    by (simp add: write_call_def syscall_def dispatch_def syscall_table_eval array_get_def call_handler_def write_syscall_def
        with_console_def)
  then have "write_all found user_str lit (s # ss) (um, ?k) = write_all found user_str lit (s # ss) (um, k)" for s ss
    by (simp only: write_all.simps sys_def fst_conv snd_conv)
  then have "err_task found user_str lit (um, ?k) = err_task found user_str lit (um, k)"
    by (simp add: err_task_def upt_conv_Cons del: write_all.simps upt_Suc)
  moreover have "run_ops f (map g xs) = run_ops (\<lambda>x. f (g x)) xs" for f :: "string \<Rightarrow> console \<Rightarrow> fault + console" and g and xs :: "nat list"
    by (rule ext, induction xs) (auto split: sum.splits)
  ultimately show ?thesis using c' by auto
qed

text \<open>What the start of the example tasks comes to: the first task is entered, and the next switch enters the second one.\<close>

definition example_tcb :: "string \<Rightarrow> u64 \<Rightarrow> u64 \<Rightarrow> tcb" where
  "example_tcb task_name link pml4 =
     \<lparr>name = task_name, user_stack = user_stack_top, user_func = user_text + page_off link, virt_addr_space = pml4\<rparr>"

lemma add_example:
  assumes "con_ok c"
  shows "\<exists>m' q' c'. add_task debug task_name link (m, q, c) = Inr (m', q', c') \<and>
    add_tcb (example_tcb task_name link (fst (create_user_pml4 m))) (q, c) = Inr (q', c') \<and> con_ok c'"
  using add_tcb_total [OF assms, of "example_tcb task_name link (fst (create_user_pml4 m))" q]
  by (auto simp: add_task_def split_def Let_def example_tcb_def)

lemma example_func: "0x10000010000 + page_off a \<noteq> 0"
proof -
  have "unat (0x10000010000 + page_off a) = 0x10000010000 + unat a mod 4096"
    by (simp add: unat_word_ariths unat_page_off)
  then show ?thesis by (metis add_is_0 unat_0 zero_neq_numeral)
qed

lemma tasks_added:
  assumes "con_ok (console k)" "scheduler k = init_sched"
  shows "\<exists>m2 q2 c2 m1. con_ok c2 \<and>
    (\<forall>found. start_tasks found debug link1 link2 k = and_then (start_scheduler found q2 c2)
      (\<lambda>(out, c). Inr (out, k\<lparr>console := c, memory := m2, scheduler := q2\<rparr>))) \<and> cur_task q2 = 0 \<and>
    tasks q2 = [example_tcb ''task1'' link1 (fst (create_user_pml4 (memory k))),
      example_tcb ''task2'' link2 (fst (create_user_pml4 m1))] @ replicate 8 zero_tcb"
proof -
  let ?t = "example_tcb ''task1'' link1 (fst (create_user_pml4 (memory k)))"
  obtain m1 q1 c1 where 1: "add_task debug ''task1'' link1 (memory k, init_sched, console k) = Inr (m1, q1, c1)"
    "add_tcb ?t (init_sched, console k) = Inr (q1, c1)" "con_ok c1"
    using add_example [OF assms(1)] by blast
  let ?u = "example_tcb ''task2'' link2 (fst (create_user_pml4 m1))"
  obtain m2 q2 c2 where 2: "add_task debug ''task2'' link2 (m1, q1, c1) = Inr (m2, q2, c2)"
    "add_tcb ?u (q1, c1) = Inr (q2, c2)" "con_ok c2"
    using add_example [OF 1(3)] by blast
  have "run_ops add_tcb [?t, ?u] (init_sched, console k) = Inr (q2, c2)" using 1(2) 2(2) by simp
  then have "tasks q2 = take 10 [?t, ?u] @ replicate (10 - length [?t, ?u]) zero_tcb" "cur_task q2 = 0"
    using add_tcbs_take [OF assms(1), of "[?t, ?u]"] by simp_all
  then show ?thesis using 1(1) 2(1,3) assms(2)
    by (intro exI [of _ m2] exI [of _ q2] exI [of _ c2] exI [of _ m1]) (simp add: start_tasks_def)
qed

lemma start_tasks_faults:
  assumes "con_ok (console k)" "scheduler k = init_sched"
  shows "start_tasks nothing_found debug link1 link2 k = Inl MissingVaArg"
  using tasks_added [OF assms, of debug link1 link2] start_scheduler_faults by auto

lemma start_tasks_result:
  assumes "con_ok (console k)" "scheduler k = init_sched" "va_readable found" "fst (create_user_pml4 (memory k)) \<noteq> 0"
  shows "\<exists>pml4 q k1. start_tasks found debug link1 link2 k =
      Inr (Jump_usermode 0x1000000f000 (0x10000010000 + page_off link1) (fst (create_user_pml4 (memory k))), k1) \<and>
    con_ok (console k1) \<and> get_addr_space q = Inr pml4 \<and>
    (\<forall>c. con_ok c \<longrightarrow> (\<exists>c'. con_ok c' \<and> switch_task (scheduler k1) c =
      Inr (Jump_usermode 0x1000000f000 (0x10000010000 + page_off link2) pml4, q, c'))) \<and>
    (\<forall>c. con_ok c \<longrightarrow> (\<exists>q' c'. con_ok c' \<and> switch_task q c = Inr (Halted, q', c')))"
proof -
  obtain m2 q2 c2 m1 where 2: "con_ok c2"
    "start_tasks found debug link1 link2 k = and_then (start_scheduler found q2 c2)
      (\<lambda>(out, c). Inr (out, k\<lparr>console := c, memory := m2, scheduler := q2\<rparr>))" "cur_task q2 = 0"
    "tasks q2 = [example_tcb ''task1'' link1 (fst (create_user_pml4 (memory k))),
      example_tcb ''task2'' link2 (fst (create_user_pml4 m1))] @ replicate 8 zero_tcb"
    using tasks_added [OF assms(1,2), of debug link1 link2] by blast
  obtain c3 where c3: "start_scheduler found q2 c2 = Inr (launch (tasks q2 ! 0), c3)" "con_ok c3"
    using start_scheduler_reads [OF 2(1) assms(3), of q2] assms(4) example_func by (auto simp: 2(4) example_tcb_def)
  define q3 where "q3 = q2\<lparr>cur_task := 1\<rparr>"
  let ?k1 = "k\<lparr>console := c3, memory := m2, scheduler := q2\<rparr>"
  have start: "start_tasks found debug link1 link2 k =
      Inr (Jump_usermode 0x1000000f000 (0x10000010000 + page_off link1) (fst (create_user_pml4 (memory k))), ?k1)"
    using c3(1) by (simp add: 2(2,4) launch_def example_tcb_def)
  have sw: "\<exists>c'. con_ok c' \<and> switch_task (scheduler ?k1) c =
      Inr (Jump_usermode 0x1000000f000 (0x10000010000 + page_off link2) (fst (create_user_pml4 m1)), q3, c')" if "con_ok c" for c
    using switch_task_total [OF that, of q2] example_func by (simp add: 2(3,4) q3_def example_tcb_def Let_def)
  have halt: "\<exists>q' c'. con_ok c' \<and> switch_task q3 c = Inr (Halted, q', c')" if "con_ok c" for c
    using switch_task_total [OF that, of q3] by (auto simp: q3_def 2(4) zero_tcb_def Let_def)
  have "get_addr_space q3 = Inr (fst (create_user_pml4 m1))"
    by (simp add: q3_def get_addr_space_def array_get_def 2(4) example_tcb_def)
  then show ?thesis using start c3(2) sw halt
    by (intro exI [of _ "fst (create_user_pml4 m1)"] exI [of _ q3] exI [of _ ?k1]) simp
qed



theorem err_task_spins_witness:
  "\<exists>c'. err_task nothing_found (\<lambda>_. [33]) (\<lambda>_. 0) (\<lambda>_. 0, sample_kernel) = Inr (Spins, \<lambda>_. 0, sample_kernel\<lparr>console := c'\<rparr>) \<and> con_ok c'"
proof -
  have "con_ok (console sample_kernel)" by (simp add: sample_kernel_def con_ok_def init_console_def)
  from err_task_spins [OF this, of "\<lambda>_. [33]" "\<lambda>_. 0" nothing_found "\<lambda>_. 0"] show ?thesis by blast
qed

end
