(* ===== verification/Trap_Entry.thy ===== *)
theory Trap_Entry
  imports Cpu Example_Tasks
begin

text \<open>
  Entry to and exit from the kernel: \<open>src/src/syscall/syscall.asm\<close>. A system call is followed from the instruction in user
  mode through the code that saves the registers, the handler and the code that restores them, and a task is entered
  for the first time. The compiled handlers are a parameter, which keeps to the calling convention of C.
\<close>

section \<open>The code\<close>

definition enable_syscalls :: "u64 \<Rightarrow> cpu \<Rightarrow> cpu" where
  "enable_syscalls syscall_entry = run
     [cli,
      set_reg RCX (ucast EFER), rdmsr_instr, or_eax 1, wrmsr_instr,
      set_reg RCX (ucast STAR), rdmsr_instr, set_low RDX 0x00180008, wrmsr_instr,
      set_reg RCX (ucast LSTAR), rdmsr_instr, set_reg RDI syscall_entry, mov_low RAX RDI, shr_reg RDI 32, mov_low RDX RDI,
      wrmsr_instr,
      set_reg RCX (ucast FMASK), rdmsr_instr, or_eax 0x200, wrmsr_instr,
      sti]"

definition init_syscalls :: "u64 \<Rightarrow> cpu \<Rightarrow> cpu" where
  "init_syscalls syscall_entry = enable_syscalls syscall_entry"

text \<open>\<open>None\<close>: \<open>sysret\<close> is not enabled.\<close>

definition jump_usermode :: "cpu \<Rightarrow> cpu option" where
  "jump_usermode c =
     sysret_instr (run [cli, mov RCX RSI, mov RSP RDI, set_reg R11 IF_FLAG, \<lambda>c. c\<lparr>cr3 := gpr c RDX\<rparr>] c)"

text \<open>The call of it in \<open>start_scheduler\<close> and \<open>switch_task\<close>, with the arguments in the registers of the C calling convention.\<close>

definition call_jump_usermode :: "u64 \<Rightarrow> u64 \<Rightarrow> u64 \<Rightarrow> cpu \<Rightarrow> cpu option" where
  "call_jump_usermode stack_top func pml4 c =
     jump_usermode (run [set_reg RDI stack_top, set_reg RSI func, set_reg RDX pml4] c)"

definition saved :: "reg list" where
  "saved = [RBX, RCX, RDX, RDI, RSI, RBP, R8, R9, R10, R11, R12, R13, R14, R15]"

definition syscall_save :: "u64 \<Rightarrow> cpu \<Rightarrow> cpu" where
  "syscall_save kernel_syscall_stack =
     run (map push saved @ [mov RBX RSP, set_reg RSP kernel_syscall_stack, push RBX, sti])"

definition syscall_restore :: "cpu \<Rightarrow> cpu option" where
  "syscall_restore c =
     sysret_instr (run ([cli, pop RSP] @
       map pop [R15, R14, R13, R12, R11, R10, R9, R8, RBP, RSI, RDI, RDX, RCX, RBX] @ [set_reg R11 IF_FLAG]) c)"

section \<open>A system call\<close>

text \<open>
  The handler is called through the table with its number in rax; its arguments are in the registers of the C calling
  convention. It comes back, or ends in \<open>jump_usermode\<close> with its arguments in the same registers, or halts.
\<close>

type_synonym handler_code = "kernel \<times> cpu \<Rightarrow> fault + sys_result \<times> kernel \<times> cpu"

definition handler_args :: "cpu \<Rightarrow> u64 list" where
  "handler_args c = [gpr c RDI, gpr c RSI, gpr c RDX, gpr c RCX, gpr c R8, gpr c R9]"

datatype trap_end =
    User_mode kernel cpu
  | Stopped kernel
  | Faulted fault
  | Invalid_opcode
  | Elsewhere cpu

definition enter_user :: "kernel \<Rightarrow> cpu option \<Rightarrow> trap_end" where
  "enter_user k r = (case r of None \<Rightarrow> Invalid_opcode | Some c \<Rightarrow> User_mode k c)"

definition after_handler :: "sys_result \<Rightarrow> kernel \<Rightarrow> cpu \<Rightarrow> trap_end" where
  "after_handler res k c =
     (case res of
        Returned r \<Rightarrow> enter_user k (syscall_restore c)
      | Left_kernel (Jump_usermode stack_top func pml4) \<Rightarrow>
          enter_user k (call_jump_usermode stack_top func pml4 c)
      | Left_kernel _ \<Rightarrow> Stopped k)"

definition syscall_entry_code :: "u64 \<Rightarrow> handler_code \<Rightarrow> kernel \<Rightarrow> cpu \<Rightarrow> trap_end" where
  "syscall_entry_code kernel_syscall_stack code k c =
     (case code (k, syscall_save kernel_syscall_stack c) of
        Inl e \<Rightarrow> Faulted e
      | Inr (res, k, c) \<Rightarrow> after_handler res k c)"

text \<open>The instruction \<open>syscall\<close> in user mode, and what the kernel makes of it.\<close>

definition trap :: "u64 \<Rightarrow> u64 \<Rightarrow> handler_code \<Rightarrow> kernel \<Rightarrow> cpu \<Rightarrow> trap_end" where
  "trap syscall_entry kernel_syscall_stack code k c =
     (case syscall_instr c of
        None \<Rightarrow> Invalid_opcode
      | Some c \<Rightarrow> if pc c = syscall_entry then syscall_entry_code kernel_syscall_stack code k c else Elsewhere c)"

section \<open>The interface of the compiled handlers\<close>

definition callee_saved :: "reg set" where
  "callee_saved = {RBX, RBP, RSP, R12, R13, R14, R15}"

text \<open>
  Compiled handlers do what \<open>dispatch\<close> says, keep the registers that the calling convention names and write only the memory
  of the kernel, \<open>own\<close>.
\<close>

locale compiled_handlers =
  fixes code :: handler_code
    and found :: va_area
    and user_str :: "u64 \<Rightarrow> u8 list"
    and own :: "u64 set"
  assumes code_fault: "dispatch found user_str (gpr c RAX) (handler_args c) k = Inl e \<Longrightarrow> code (k, c) = Inl e"
    and code_ends: "dispatch found user_str (gpr c RAX) (handler_args c) k = Inr (res, k') \<Longrightarrow>
      \<exists>g m e. code (k, c) = Inr (res, k', c\<lparr>gpr := g, cpu_mem := m, eflags := e\<rparr>) \<and>
        (\<forall>x. x \<notin> own \<longrightarrow> m x = cpu_mem c x) \<and>
        (\<forall>r. res = Returned r \<longrightarrow> g RAX = r \<and> (\<forall>r \<in> callee_saved. g r = gpr c r))"

text \<open>The handlers themselves, with the result in rax.\<close>

definition direct_code :: "va_area \<Rightarrow> (u64 \<Rightarrow> u8 list) \<Rightarrow> handler_code" where
  "direct_code found user_str = (\<lambda>(k, c).
     case dispatch found user_str (gpr c RAX) (handler_args c) k of
       Inl e \<Rightarrow> Inl e
     | Inr (res, k') \<Rightarrow> Inr (res, k', case res of Returned r \<Rightarrow> set_reg RAX r c | Left_kernel out \<Rightarrow> c))"

interpretation direct: compiled_handlers "direct_code found user_str" found user_str "{}"
proof
  fix c k e
  show "dispatch found user_str (gpr c RAX) (handler_args c) k = Inl e \<Longrightarrow> direct_code found user_str (k, c) = Inl e"
    by (simp add: direct_code_def)
next
  fix c k res k'
  show "dispatch found user_str (gpr c RAX) (handler_args c) k = Inr (res, k') \<Longrightarrow>
      \<exists>g m e. direct_code found user_str (k, c) = Inr (res, k', c\<lparr>gpr := g, cpu_mem := m, eflags := e\<rparr>) \<and>
        (\<forall>x. x \<notin> {} \<longrightarrow> m x = cpu_mem c x) \<and>
        (\<forall>r. res = Returned r \<longrightarrow> g RAX = r \<and> (\<forall>r \<in> callee_saved. g r = gpr c r))"
    by (cases res; intro exI [of _ "gpr (case res of Returned r \<Rightarrow> set_reg RAX r c | Left_kernel out \<Rightarrow> c)"]
        exI [of _ "cpu_mem c"] exI [of _ "eflags c"]) (auto simp: direct_code_def callee_saved_def set_reg_def)
qed

section \<open>Setting up and entering user mode\<close>

text \<open>
  What the model specific registers must hold: system calls enabled, the selectors of the kernel (8) and of the user (0x18),
  the entry, and the interrupt flag among the flags that the instruction clears.
\<close>

definition syscalls_enabled :: "u64 \<Rightarrow> cpu \<Rightarrow> bool" where
  "syscalls_enabled syscall_entry c \<longleftrightarrow> bit (msr c EFER) 0 \<and> drop_bit 32 (msr c STAR) = 0x00180008 \<and>
     msr c LSTAR = syscall_entry \<and> bit (msr c FMASK) 9"

definition user_mode :: "cpu \<Rightarrow> bool" where
  "user_mode c \<longleftrightarrow> cs_sel c = 0x2b \<and> ss_sel c = 0x23 \<and> bit (eflags c) 9"

lemma user_mode_ring: "user_mode c \<Longrightarrow> ring c = 3"
  by (simp add: user_mode_def ring_def)

lemma low_ucast: "low r (set_low r v c) = v" "r \<noteq> r' \<Longrightarrow> low r (set_low r' v c) = low r c"
  "low r (set_reg r x c) = ucast x" "r \<noteq> r' \<Longrightarrow> low r (set_reg r' x c) = low r c"
  by (simp_all add: low_def set_low_def)

lemma drop_low: "drop_bit 32 (ucast (w :: u32) :: u64) = 0"
  by (rule bit_word_eqI) (auto simp: bit_simps dest: bit_imp_le_length)

lemma star_selectors:
  assumes "drop_bit 32 (x :: u64) = 0x00180008"
  shows "(ucast (drop_bit 32 x) AND 0xfffc :: u16) = 8" "(ucast (drop_bit 48 x) :: u16) = 0x18"
proof -
  show "(ucast (drop_bit 32 x) AND 0xfffc :: u16) = 8" by (simp add: assms)
  have "drop_bit 48 x = drop_bit 16 (drop_bit 32 x)" by simp
  then show "(ucast (drop_bit 48 x) :: u16) = 0x18" unfolding assms by simp
qed

lemma sysret_user:
  assumes "bit (msr c EFER) 0" "drop_bit 32 (msr c STAR) = 0x00180008" "gpr c R11 = IF_FLAG"
  shows "sysret_instr c = Some (c\<lparr>pc := gpr c RCX, eflags := 0x202, cs_sel := 0x2b, ss_sel := 0x23\<rparr>)"
  using assms star_selectors(2) [OF assms(2)] by (simp add: sysret_instr_def Let_def)

lemma syscall_kernel:
  assumes "syscalls_enabled e c"
  shows "\<exists>f. syscall_instr c = Some (c\<lparr>gpr := (gpr c)(RCX := pc c + 2, R11 := eflags c), pc := e, eflags := f,
    cs_sel := 8, ss_sel := 16\<rparr>) \<and> \<not> bit f 9"
  using assms star_selectors(1)
  by (intro exI [of _ "eflags c AND NOT (msr c FMASK)"])
    (simp add: syscalls_enabled_def syscall_instr_def set_reg_def bit_not_iff bit_and_iff)

text \<open>The kernel writes to the stack pointer of the user before it has a stack of its own.\<close>

lemma syscall_save_result:
  fixes c :: cpu and kstack :: u64
  defines "u \<equiv> gpr c RSP - 112"
  assumes "area (kstack - 8) 8 \<inter> area u 112 = {}"
  shows "\<exists>m e. syscall_save kstack c = c\<lparr>gpr := (gpr c)(RBX := u, RSP := kstack - 8), cpu_mem := m, eflags := e\<rparr> \<and>
    rd64 m (kstack - 8) = u \<and> (\<forall>i < 14. rd64 m (u + 8 * of_nat i) = gpr c (rev saved ! i)) \<and>
    (\<forall>x. x \<notin> area u 112 \<longrightarrow> x \<notin> area (kstack - 8) 8 \<longrightarrow> m x = cpu_mem c x)"
proof -
  have "RSP \<notin> set saved" "length saved = 14" by (simp_all add: saved_def)
  from run_push [OF this(1), of c] this(2) obtain m where m:
    "run (map push saved) c = (set_reg RSP u c)\<lparr>cpu_mem := m\<rparr>"
    "\<forall>i < 14. rd64 m (u + 8 * of_nat i) = gpr c (rev saved ! i)"
    "\<forall>x. x \<notin> area u 112 \<longrightarrow> m x = cpu_mem c x"
    by (auto simp: u_def)
  let ?m = "wr64 (kstack - 8) u m"
  have out: "?m x = m x" if "x \<notin> area (kstack - 8) 8" for x
    using that by (simp add: area_def wr64_other)
  have "syscall_save kstack c = c\<lparr>gpr := (gpr c)(RBX := u, RSP := kstack - 8), cpu_mem := ?m, eflags := eflags c OR IF_FLAG\<rparr>"
    by (simp add: syscall_save_def m(1) mov_def set_reg_def push_def push_val_def sti_def Let_def fun_upd_twist)
  moreover have "rd64 ?m (u + 8 * of_nat i) = gpr c (rev saved ! i)" if i: "i < 14" for i
  proof -
    have "rd64 ?m (u + 8 * of_nat i) = rd64 m (u + 8 * of_nat i)"
    proof (rule rd64_cong)
      fix x assume "x \<in> area (u + 8 * of_nat i) 8"
      then have "x \<in> area u 112" using cell_in_area [of x u i 14] i by simp
      then show "?m x = m x" using assms(2) by (intro out) blast
    qed
    then show ?thesis using m(2) i by simp
  qed
  moreover have "rd64 ?m (kstack - 8) = u" by (rule rd64_wr64)
  ultimately show ?thesis using m(3) out by (intro exI [of _ ?m] exI) auto
qed

lemma syscall_restore_result:
  fixes c :: cpu
  defines "u \<equiv> rd64 (cpu_mem c) (gpr c RSP)"
  assumes "bit (msr c EFER) 0" "drop_bit 32 (msr c STAR) = 0x00180008"
    and cells: "\<forall>i < 14. rd64 (cpu_mem c) (u + 8 * of_nat i) = g (rev saved ! i)"
    and rest: "g RSP = u + 112"
  shows "syscall_restore c = Some (c\<lparr>gpr := g(RAX := gpr c RAX, R11 := IF_FLAG), pc := g RCX, eflags := 0x202,
    cs_sel := 0x2b, ss_sel := 0x23\<rparr>)"
proof -
  let ?c = "run [cli, pop RSP] c"
  have r: "[R15, R14, R13, R12, R11, R10, R9, R8, RBP, RSI, RDI, RDX, RCX, RBX] = rev saved" by (simp add: saved_def)
  have c1: "?c = c\<lparr>gpr := (gpr c)(RSP := u), eflags := eflags c AND NOT IF_FLAG\<rparr>"
    by (simp add: cli_def pop_def set_reg_def u_def)
  have "RSP \<notin> set (rev saved)" "distinct (rev saved)" "length (rev saved) = 14" by (simp_all add: saved_def)
  from run_pop [OF this(1,2), of ?c] this(3) obtain h where h: "run (map pop (rev saved)) ?c = ?c\<lparr>gpr := h\<rparr>"
    "h RSP = u + 112" "\<forall>i < 14. h (rev saved ! i) = rd64 (cpu_mem c) (u + 8 * of_nat i)"
    "\<forall>r. r \<notin> set saved \<longrightarrow> r \<noteq> RSP \<longrightarrow> h r = gpr ?c r"
    unfolding c1 by auto
  have "h r = (g(RAX := gpr c RAX)) r" for r
  proof (cases "r \<in> set saved")
    case True
    then obtain i where "i < 14" "r = rev saved ! i"
      by (metis in_set_conv_nth set_rev \<open>length (rev saved) = 14\<close>)
    then show ?thesis using h(3) cells True by (auto simp: saved_def)
  next
    case False
    then show ?thesis using h(2,4) rest by (cases r) (simp_all add: saved_def pop_def cli_def)
  qed
  then have "h = g(RAX := gpr c RAX)" by blast
  moreover have "run ([cli, pop RSP] @ map pop (rev saved) @ [set_reg R11 IF_FLAG]) c = set_reg R11 IF_FLAG (?c\<lparr>gpr := h\<rparr>)"
    using h(1) by simp
  ultimately have "run ([cli, pop RSP] @ map pop (rev saved) @ [set_reg R11 IF_FLAG]) c =
      c\<lparr>gpr := g(RAX := gpr c RAX, R11 := IF_FLAG), eflags := eflags c AND NOT IF_FLAG\<rparr>"
    unfolding c1 by (simp add: set_reg_def)
  then show ?thesis unfolding syscall_restore_def r using assms(2,3) by (simp add: sysret_user)
qed

text \<open>The blocks of \<open>enable_syscalls\<close>.\<close>

lemma join_halves_or: "(push_bit 32 (ucast (ucast (drop_bit 32 x) :: u32)) OR ucast (ucast x OR v :: u32) :: u64) = x OR ucast v"
  by (rule bit_word_eqI) (auto simp: bit_simps)

lemma msr_blocks:
  "msr (wrmsr_instr (or_eax v (rdmsr_instr (set_reg RCX (ucast i) c)))) = (msr c)(i := msr c i OR ucast v)"
  "msr (wrmsr_instr (set_low RDX v (rdmsr_instr (set_reg RCX (ucast i) c)))) =
    (msr c)(i := push_bit 32 (ucast v) OR ucast (ucast (msr c i) :: u32))"
  "msr (wrmsr_instr (mov_low RDX RDI (shr_reg RDI 32 (mov_low RAX RDI (set_reg RDI e (rdmsr_instr (set_reg RCX (ucast i) c))))))) =
    (msr c)(i := e)"
  by (simp_all add: wrmsr_instr_def rdmsr_instr_def or_eax_def mov_low_def shr_reg_def low_def set_low_def set_reg_def
      join_halves_or join_halves Let_def)

lemma msr_blocks_flags:
  "eflags (wrmsr_instr c) = eflags c" "eflags (or_eax v c) = eflags c" "eflags (rdmsr_instr c) = eflags c"
  "eflags (set_low r v c) = eflags c" "eflags (mov_low r r' c) = eflags c" "eflags (shr_reg r n c) = eflags c"
  by (simp_all add: wrmsr_instr_def rdmsr_instr_def or_eax_def mov_low_def shr_reg_def set_low_def Let_def)

lemma sti_cli_simps: "msr (sti c) = msr c" "msr (cli c) = msr c" "bit (eflags (sti c)) 9"
  by (simp_all add: sti_def cli_def bit_or_iff)

lemma jump_usermode_result:
  assumes "syscalls_enabled e c"
  shows "\<exists>g. jump_usermode c = Some (c\<lparr>gpr := g, pc := gpr c RSI, eflags := 0x202, cr3 := gpr c RDX, cs_sel := 0x2b, ss_sel := 0x23\<rparr>) \<and>
    g RSP = gpr c RDI"
proof -
  let ?c = "run [cli, mov RCX RSI, mov RSP RDI, set_reg R11 IF_FLAG, \<lambda>c. c\<lparr>cr3 := gpr c RDX\<rparr>] c"
  have "sysret_instr ?c = Some (?c\<lparr>pc := gpr ?c RCX, eflags := 0x202, cs_sel := 0x2b, ss_sel := 0x23\<rparr>)"
    using assms by (intro sysret_user) (simp_all add: syscalls_enabled_def cli_def mov_def)
  then show ?thesis
    by (intro exI [of _ "gpr ?c"]) (simp add: jump_usermode_def cli_def mov_def set_reg_def)
qed

section \<open>The way to the handler and back\<close>

lemma cpu_order:
  "c\<lparr>gpr := g, pc := p, eflags := f, cs_sel := s, ss_sel := t, cpu_mem := m\<rparr> =
   c\<lparr>pc := p, cs_sel := s, ss_sel := t, gpr := g, cpu_mem := m, eflags := f\<rparr>"
  by (rule cpu.equality) simp_all

text \<open>What the handler finds: the user's arguments, except that rcx holds the address to return to, in kernel mode.\<close>

lemma trap_to_handler:
  fixes c :: cpu and kstack :: u64
  defines "u \<equiv> gpr c RSP - 112"
  assumes "syscalls_enabled syscall_entry c" "area (kstack - 8) 8 \<inter> area u 112 = {}"
  shows "\<exists>c1 m f. trap syscall_entry kstack code k c =
      (case code (k, c1) of Inl e \<Rightarrow> Faulted e | Inr (res, k, c) \<Rightarrow> after_handler res k c) \<and>
    c1 = c\<lparr>gpr := (gpr c)(RCX := pc c + 2, R11 := eflags c, RBX := u, RSP := kstack - 8), pc := syscall_entry,
      eflags := f, cs_sel := 8, ss_sel := 16, cpu_mem := m\<rparr> \<and>
    rd64 m (kstack - 8) = u \<and>
    (\<forall>i < 14. rd64 m (u + 8 * of_nat i) = ((gpr c)(RCX := pc c + 2, R11 := eflags c)) (rev saved ! i)) \<and>
    (\<forall>x. x \<notin> area u 112 \<longrightarrow> x \<notin> area (kstack - 8) 8 \<longrightarrow> m x = cpu_mem c x)"
proof -
  let ?g = "(gpr c)(RCX := pc c + 2, R11 := eflags c)"
  obtain f where f: "syscall_instr c = Some (c\<lparr>gpr := ?g, pc := syscall_entry, eflags := f, cs_sel := 8, ss_sel := 16\<rparr>)"
    using syscall_kernel [OF assms(2)] by blast
  let ?c = "c\<lparr>gpr := ?g, pc := syscall_entry, eflags := f, cs_sel := 8, ss_sel := 16\<rparr>"
  have u: "gpr ?c RSP - 112 = u" by (simp add: u_def)
  from syscall_save_result [of kstack ?c, unfolded u, OF assms(3)] obtain m e where
    m: "syscall_save kstack ?c = ?c\<lparr>gpr := ?g(RBX := u, RSP := kstack - 8), cpu_mem := m, eflags := e\<rparr>"
      "rd64 m (kstack - 8) = u" "\<forall>i < 14. rd64 m (u + 8 * of_nat i) = ?g (rev saved ! i)"
      "\<forall>x. x \<notin> area u 112 \<longrightarrow> x \<notin> area (kstack - 8) 8 \<longrightarrow> m x = cpu_mem c x"
    by auto
  have "trap syscall_entry kstack code k c = syscall_entry_code kstack code k ?c"
    by (simp add: trap_def f)
  then have "trap syscall_entry kstack code k c = (case code (k, c\<lparr>gpr := ?g(RBX := u, RSP := kstack - 8),
      pc := syscall_entry, eflags := e, cs_sel := 8, ss_sel := 16, cpu_mem := m\<rparr>) of
        Inl e \<Rightarrow> Faulted e | Inr (res, k, c) \<Rightarrow> after_handler res k c)"
    by (simp add: syscall_entry_code_def m(1) cpu_order)
  then show ?thesis using m(2,3,4) by blast
qed

context compiled_handlers
begin

lemma trap_result:
  fixes c :: cpu and kstack :: u64
  defines "u \<equiv> gpr c RSP - 112"
  assumes "syscalls_enabled syscall_entry c" "area (kstack - 8) 8 \<inter> area u 112 = {}"
    and "dispatch found user_str (gpr c RAX) [gpr c RDI, gpr c RSI, gpr c RDX, pc c + 2, gpr c R8, gpr c R9] k = Inr (res, k')"
  shows "\<exists>g m f. trap syscall_entry kstack code k c =
      after_handler res k' (c\<lparr>gpr := g, pc := syscall_entry, eflags := f, cs_sel := 8, ss_sel := 16, cpu_mem := m\<rparr>) \<and>
    (\<forall>r. res = Returned r \<longrightarrow> g RAX = r \<and> g RSP = kstack - 8) \<and>
    (own \<inter> area (kstack - 8) 8 = {} \<longrightarrow> rd64 m (kstack - 8) = u) \<and>
    (own \<inter> area u 112 = {} \<longrightarrow>
      (\<forall>i < 14. rd64 m (u + 8 * of_nat i) = ((gpr c)(RCX := pc c + 2, R11 := eflags c)) (rev saved ! i))) \<and>
    (\<forall>x. x \<notin> own \<union> area u 112 \<union> area (kstack - 8) 8 \<longrightarrow> m x = cpu_mem c x)"
proof -
  let ?g = "(gpr c)(RCX := pc c + 2, R11 := eflags c)"
  obtain c1 m f where c1: "trap syscall_entry kstack code k c =
      (case code (k, c1) of Inl e \<Rightarrow> Faulted e | Inr (res, k, c) \<Rightarrow> after_handler res k c)"
    "c1 = c\<lparr>gpr := ?g(RBX := u, RSP := kstack - 8), pc := syscall_entry, eflags := f, cs_sel := 8, ss_sel := 16, cpu_mem := m\<rparr>"
    "rd64 m (kstack - 8) = u" "\<forall>i < 14. rd64 m (u + 8 * of_nat i) = ?g (rev saved ! i)"
    "\<forall>x. x \<notin> area u 112 \<longrightarrow> x \<notin> area (kstack - 8) 8 \<longrightarrow> m x = cpu_mem c x"
    using trap_to_handler [OF assms(2), of kstack code k] assms(3) unfolding u_def by blast
  have "dispatch found user_str (gpr c1 RAX) (handler_args c1) k = Inr (res, k')"
    using assms(4) by (simp add: c1(2) handler_args_def)
  from code_ends [OF this] obtain h n e where h: "code (k, c1) = Inr (res, k', c1\<lparr>gpr := h, cpu_mem := n, eflags := e\<rparr>)"
    "\<forall>x. x \<notin> own \<longrightarrow> n x = cpu_mem c1 x"
    "\<forall>r. res = Returned r \<longrightarrow> h RAX = r \<and> (\<forall>r \<in> callee_saved. h r = gpr c1 r)"
    by blast
  have n: "x \<notin> own \<Longrightarrow> n x = m x" for x using h(2) by (simp add: c1(2))
  have cell: "rd64 n a = rd64 m a" if "own \<inter> area a 8 = {}" for a
    by (rule rd64_cong, rule n) (use that in blast)
  have "trap syscall_entry kstack code k c =
      after_handler res k' (c\<lparr>gpr := h, pc := syscall_entry, eflags := e, cs_sel := 8, ss_sel := 16, cpu_mem := n\<rparr>)"
    by (simp add: c1(1) h(1)) (simp add: c1(2) cpu_order)
  moreover have "rd64 n (u + 8 * of_nat i) = ?g (rev saved ! i)" if "own \<inter> area u 112 = {}" "i < 14" for i
  proof -
    have "area (u + 8 * of_nat i) 8 \<subseteq> area u 112" using cell_in_area [of _ u i 14] that(2) by auto
    then have "own \<inter> area (u + 8 * of_nat i) 8 = {}" using that(1) by blast
    from cell [OF this] show ?thesis using that(2) c1(4) by simp
  qed
  ultimately show ?thesis
    using h(3) c1(3,5) cell n by (intro exI [of _ h] exI [of _ n] exI [of _ e]) (auto simp: c1(2) callee_saved_def)
qed

end

section \<open>Properties\<close>

text \<open>
  After \<open>enable_syscalls\<close> the registers for system calls are as they must be and interrupts are on; other registers of the
  kind are as before.
\<close>

lemma enable_syscalls_result:
  "syscalls_enabled syscall_entry (enable_syscalls syscall_entry c) \<and> bit (eflags (enable_syscalls syscall_entry c)) 9 \<and>
   (\<forall>i. i \<notin> {EFER, STAR, LSTAR, FMASK} \<longrightarrow> msr (enable_syscalls syscall_entry c) i = msr c i)"
proof -
  have "msr (enable_syscalls syscall_entry c) = (msr c)(EFER := msr c EFER OR 1,
      STAR := push_bit 32 (ucast (0x00180008 :: u32)) OR ucast (ucast (msr c STAR) :: u32), LSTAR := syscall_entry,
      FMASK := msr c FMASK OR 0x200)"
    unfolding enable_syscalls_def run_simps sti_cli_simps msr_blocks by (simp add: fun_upd_apply)
  moreover have "bit (eflags (enable_syscalls syscall_entry c)) 9"
    unfolding enable_syscalls_def run_simps by (rule sti_cli_simps)
  ultimately show ?thesis by (simp add: syscalls_enabled_def drop_low bit_or_iff)
qed

text \<open>
  Entering a task: with system calls enabled, \<open>jump_usermode\<close> goes on in user mode at the function, on the stack and in
  the address space it was given, with interrupts on.
\<close>

theorem jump_usermode_enters:
  assumes "syscalls_enabled e c"
  shows "\<exists>c'. jump_usermode c = Some c' \<and> user_mode c' \<and> ring c' = 3 \<and> pc c' = gpr c RSI \<and> gpr c' RSP = gpr c RDI \<and>
    cr3 c' = gpr c RDX \<and> cpu_mem c' = cpu_mem c"
  using jump_usermode_result [OF assms] by (auto simp: user_mode_def ring_def)

text \<open>The fourth argument, which arrives in rcx instead of r10, is used by no handler.\<close>

lemma dispatch_fourth: "dispatch found user_str n [a, b, d, x, e, f] k = dispatch found user_str n [a, b, d, y, e, f] k"
proof -
  have "call_handler found user_str h [a, b, d, x, e, f] k = call_handler found user_str h [a, b, d, y, e, f] k" for h
    by (cases h) (simp_all add: call_handler_def)
  then show ?thesis by (simp add: dispatch_def split: sum.split option.split)
qed

text \<open>C4:
  The way of a system call through the kernel and back is what the model of the wrappers, \<open>syscall\<close>, says it is: a task
  that executes the instruction with a number of the table in rax and the arguments in rdi, rsi, rdx, r10, r8 and r9 goes
  on behind the instruction, in user mode, with the result of the call in rax; the kernel is as the call leaves it;
  and of its own the task has lost rcx, r11, the flags, and 112 bytes below its stack pointer.
\<close>

theorem trap_returns:
  assumes "compiled_handlers code found user_str own"
    and "syscalls_enabled syscall_entry c" "user_mode c" "gpr c RAX < of_nat SYSCALLS_COUNT"
    and "syscall found user_str (gpr c RAX) (map (gpr c) [RDI, RSI, RDX, R10, R8, R9]) k = Inr (Returned r, k')"
    and "area (kstack - 8) 8 \<inter> area (gpr c RSP - 112) 112 = {}" "own \<inter> area (gpr c RSP - 112) 112 = {}"
      "own \<inter> area (kstack - 8) 8 = {}"
  shows "\<exists>m. trap syscall_entry kstack code k c = User_mode k' (c\<lparr>gpr := (gpr c)(RAX := r, RCX := pc c + 2, R11 := IF_FLAG),
        pc := pc c + 2, eflags := 0x202, cpu_mem := m\<rparr>) \<and>
    (\<forall>x. x \<notin> own \<union> area (gpr c RSP - 112) 112 \<union> area (kstack - 8) 8 \<longrightarrow> m x = cpu_mem c x)"
proof -
  let ?u = "gpr c RSP - 112" and ?g = "(gpr c)(RCX := pc c + 2, R11 := eflags c)"
  have d: "dispatch found user_str (gpr c RAX) [gpr c RDI, gpr c RSI, gpr c RDX, pc c + 2, gpr c R8, gpr c R9] k = Inr (Returned r, k')"
    using assms(4,5) dispatch_fourth [where x = "gpr c R10" and y = "pc c + 2"] by (simp add: syscall_def not_le [symmetric])
  obtain h m f where h: "trap syscall_entry kstack code k c =
      after_handler (Returned r) k' (c\<lparr>gpr := h, pc := syscall_entry, eflags := f, cs_sel := 8, ss_sel := 16, cpu_mem := m\<rparr>)"
    "h RAX = r" "h RSP = kstack - 8" "rd64 m (kstack - 8) = ?u" "\<forall>i < 14. rd64 m (?u + 8 * of_nat i) = ?g (rev saved ! i)"
    "\<forall>x. x \<notin> own \<union> area ?u 112 \<union> area (kstack - 8) 8 \<longrightarrow> m x = cpu_mem c x"
    using compiled_handlers.trap_result [OF assms(1,2,6) d] assms(7,8) by blast
  let ?c = "c\<lparr>gpr := h, pc := syscall_entry, eflags := f, cs_sel := 8, ss_sel := 16, cpu_mem := m\<rparr>"
  have "syscall_restore ?c = Some (?c\<lparr>gpr := ?g(RAX := gpr ?c RAX, R11 := IF_FLAG), pc := ?g RCX, eflags := 0x202,
      cs_sel := 0x2b, ss_sel := 0x23\<rparr>)"
    using assms(2) h(3,4,5) by (intro syscall_restore_result) (simp_all add: syscalls_enabled_def)
  then have "trap syscall_entry kstack code k c = User_mode k' (c\<lparr>gpr := (gpr c)(RAX := r, RCX := pc c + 2, R11 := IF_FLAG),
        pc := pc c + 2, eflags := 0x202, cpu_mem := m\<rparr>)"
    using assms(3) by (simp add: h(1,2) after_handler_def enter_user_def user_mode_def fun_upd_twist cpu.equality)
  then show ?thesis using h(6) by blast
qed

text \<open>A yield ends in the next task.\<close>

lemma call_jump_result:
  assumes "syscalls_enabled e c"
  shows "\<exists>c'. call_jump_usermode stack_top func pml4 c = Some c' \<and> user_mode c' \<and> pc c' = func \<and> gpr c' RSP = stack_top \<and>
    cr3 c' = pml4 \<and> msr c' = msr c"
proof -
  let ?d = "run [set_reg RDI stack_top, set_reg RSI func, set_reg RDX pml4] c"
  have "syscalls_enabled e ?d" using assms by (simp add: syscalls_enabled_def)
  from jump_usermode_result [OF this] show ?thesis by (auto simp: call_jump_usermode_def user_mode_def)
qed

lemma trap_yield:
  assumes "compiled_handlers code found user_str own" "syscalls_enabled syscall_entry c" "gpr c RAX = 5"
    and "area (kstack - 8) 8 \<inter> area (gpr c RSP - 112) 112 = {}"
    and "switch_task (scheduler k) (console k) = Inr (Jump_usermode stack_top func pml4, q, con)"
  shows "\<exists>c'. trap syscall_entry kstack code k c = User_mode (k\<lparr>scheduler := q, console := con\<rparr>) c' \<and> user_mode c' \<and> pc c' = func \<and>
    gpr c' RSP = stack_top \<and> cr3 c' = pml4 \<and> msr c' = msr c"
proof -
  have "dispatch found user_str (gpr c RAX) as k = Inr (Left_kernel (Jump_usermode stack_top func pml4), k\<lparr>scheduler := q, console := con\<rparr>)" for as
    by (simp add: assms(3,5) dispatch_def syscall_table_eval array_get_def call_handler_def sched_yield_syscall_def)
  from compiled_handlers.trap_result [OF assms(1,2,4) this] obtain g m f where
    "trap syscall_entry kstack code k c = after_handler (Left_kernel (Jump_usermode stack_top func pml4)) (k\<lparr>scheduler := q, console := con\<rparr>)
      (c\<lparr>gpr := g, pc := syscall_entry, eflags := f, cs_sel := 8, ss_sel := 16, cpu_mem := m\<rparr>)"
    by blast
  moreover define d where "d = c\<lparr>gpr := g, pc := syscall_entry, eflags := f, cs_sel := 8, ss_sel := 16, cpu_mem := m\<rparr>"
  moreover have "syscalls_enabled syscall_entry d" "msr d = msr c" using assms(2) by (simp_all add: d_def syscalls_enabled_def)
  ultimately show ?thesis
    using call_jump_result [of syscall_entry d stack_top func pml4] by (auto simp: after_handler_def enter_user_def)
qed

text \<open>C20:
  The end of \<open>kernel_main\<close> on the processor, from \<open>init_syscalls\<close> on. Where the messages of the start find values to
  print (without any, by the C standard, the start stops at them), the start of the example tasks enters \<open>task1\<close> in user
  mode, at its function, on its stack and in its address space; and when the task, whose code cannot change the registers
  that \<open>init_syscalls\<close> set, executes the system call for yield, the processor goes on in user mode in \<open>task2\<close>.
\<close>

theorem tasks_on_processor:
  assumes "compiled_handlers code found user_str own" "scheduler k = init_sched" "con_ok (console k)"
    "fst (create_user_pml4 (memory k)) \<noteq> 0" "va_readable found"
    and "msr c2 = msr (init_syscalls e c)" "gpr c2 RAX = of_nat SYS_SCHED_YIELD"
    "area (kstack - 8) 8 \<inter> area (gpr c2 RSP - 112) 112 = {}" "con_ok con2"
  shows "start_tasks nothing_found debug link1 link2 k = Inl MissingVaArg \<and>
    (\<exists>out k1 c1 c3 pml4 q con3. start_tasks found debug link1 link2 k = Inr (out, k1) \<and>
    out = Jump_usermode (usr_stack_top out) (usr_func_addr out) (pml4_addr out) \<and>
    call_jump_usermode (usr_stack_top out) (usr_func_addr out) (pml4_addr out) (init_syscalls e c) = Some c1 \<and>
    user_mode c1 \<and> pc c1 = 0x10000010000 + page_off link1 \<and> gpr c1 RSP = 0x1000000f000 \<and>
    cr3 c1 = fst (create_user_pml4 (memory k)) \<and> msr c1 = msr (init_syscalls e c) \<and>
    trap e kstack code (k1\<lparr>memory := m2, console := con2\<rparr>) c2 =
      User_mode (k1\<lparr>memory := m2, scheduler := q, console := con3\<rparr>) c3 \<and>
    user_mode c3 \<and> pc c3 = 0x10000010000 + page_off link2 \<and> gpr c3 RSP = 0x1000000f000 \<and>
    cr3 c3 = pml4 \<and> get_addr_space q = Inr pml4)"
proof -
  obtain pml4 q k1 where r: "start_tasks found debug link1 link2 k =
      Inr (Jump_usermode 0x1000000f000 (0x10000010000 + page_off link1) (fst (create_user_pml4 (memory k))), k1)"
    "get_addr_space q = Inr pml4"
    "\<And>c. con_ok c \<Longrightarrow> \<exists>c'. con_ok c' \<and> switch_task (scheduler k1) c =
      Inr (Jump_usermode 0x1000000f000 (0x10000010000 + page_off link2) pml4, q, c')"
    using start_tasks_result [OF assms(3,2,5,4), of debug link1 link2] by blast
  let ?out = "Jump_usermode 0x1000000f000 (0x10000010000 + page_off link1) (fst (create_user_pml4 (memory k)))"
  let ?k2 = "k1\<lparr>memory := m2, console := con2\<rparr>"
  obtain con3 where con3: "switch_task (scheduler ?k2) (console ?k2) =
      Inr (Jump_usermode 0x1000000f000 (0x10000010000 + page_off link2) pml4, q, con3)"
    using r(3) [OF assms(9)] by auto
  have on: "syscalls_enabled e (init_syscalls e c)" using enable_syscalls_result by (simp add: init_syscalls_def)
  then have "syscalls_enabled e c2" using assms(6) by (simp add: syscalls_enabled_def)
  with trap_yield [OF assms(1) _ _ assms(8) con3] assms(7) obtain c3 where
    "trap e kstack code ?k2 c2 = User_mode (?k2\<lparr>scheduler := q, console := con3\<rparr>) c3" "user_mode c3"
    "pc c3 = 0x10000010000 + page_off link2" "gpr c3 RSP = 0x1000000f000" "cr3 c3 = pml4"
    by auto
  moreover obtain c1 where
    "call_jump_usermode (usr_stack_top ?out) (usr_func_addr ?out) (pml4_addr ?out) (init_syscalls e c) = Some c1"
    "user_mode c1" "pc c1 = 0x10000010000 + page_off link1" "gpr c1 RSP = 0x1000000f000"
    "cr3 c1 = fst (create_user_pml4 (memory k))" "msr c1 = msr (init_syscalls e c)"
    using call_jump_result [OF on, of "usr_stack_top ?out" "usr_func_addr ?out" "pml4_addr ?out"] by auto
  moreover have "?k2\<lparr>scheduler := q, console := con3\<rparr> = k1\<lparr>memory := m2, scheduler := q, console := con3\<rparr>" by simp
  ultimately show ?thesis
    using start_tasks_faults [OF assms(3,2), of debug link1 link2] r(1,2)
    by (intro conjI exI [of _ ?out] exI [of _ k1] exI [of _ c1] exI [of _ c3] exI [of _ pml4] exI [of _ q] exI [of _ con3]) simp_all
qed

text \<open>C38:
  The entry trusts the stack pointer of the user: before the handler runs, the kernel has written rbx to the eight bytes
  below it, in kernel mode, whatever address that is. A task that sets rsp and rbx before the instruction can so change any
  memory of the kernel.
\<close>

theorem entry_writes_user_pointer:
  assumes "syscalls_enabled syscall_entry c" "area (kstack - 8) 8 \<inter> area (gpr c RSP - 112) 112 = {}"
    and "gpr c RSP = a + 8" "gpr c RBX = v"
  shows "\<exists>c1. trap syscall_entry kstack code k c =
      (case code (k, c1) of Inl e \<Rightarrow> Faulted e | Inr (res, k, c) \<Rightarrow> after_handler res k c) \<and>
    ring c1 = 0 \<and> rd64 (cpu_mem c1) a = v"
proof -
  obtain c1 m f where c1: "trap syscall_entry kstack code k c =
      (case code (k, c1) of Inl e \<Rightarrow> Faulted e | Inr (res, k, c) \<Rightarrow> after_handler res k c)"
    "cs_sel c1 = 8" "cpu_mem c1 = m"
    "\<forall>i < 14. rd64 m (gpr c RSP - 112 + 8 * of_nat i) = ((gpr c)(RCX := pc c + 2, R11 := eflags c)) (rev saved ! i)"
    using trap_to_handler [OF assms(1,2), of code k] by fastforce
  have "rd64 m (gpr c RSP - 112 + 8 * of_nat 13) = v"
    using c1(4) [rule_format, of 13] assms(4) by (simp add: saved_def)
  then have "rd64 (cpu_mem c1) a = v" by (simp add: c1(3) assms(3))
  moreover have "ring c1 = 0" by (simp add: ring_def c1(2))
  ultimately show ?thesis using c1(1) by blast
qed

text \<open>
  The number in rax is not checked by the entry: a task that does not use the wrappers makes the kernel call what it reads
  behind the table.
\<close>

theorem trap_number_unchecked:
  assumes "compiled_handlers code found user_str own" "syscalls_enabled syscall_entry c" "18 \<le> gpr c RAX"
    and "area (kstack - 8) 8 \<inter> area (gpr c RSP - 112) 112 = {}"
  shows "trap syscall_entry kstack code k c = Faulted OutOfBounds"
proof -
  obtain c1 m f where c1: "trap syscall_entry kstack code k c =
      (case code (k, c1) of Inl e \<Rightarrow> Faulted e | Inr (res, k, c) \<Rightarrow> after_handler res k c)" "gpr c1 RAX = gpr c RAX"
    using trap_to_handler [OF assms(2,4), of code k] by fastforce
  have "dispatch found user_str (gpr c1 RAX) (handler_args c1) k = Inl OutOfBounds"
    using assms(3) by (simp add: c1(2) dispatch_def array_get_def syscall_table_eval word_le_nat_alt not_less)
  from compiled_handlers.code_fault [OF assms(1) this] show ?thesis by (simp add: c1(1))
qed

section \<open>A task on a machine\<close>

definition sample_user :: "u64 \<Rightarrow> u64 \<Rightarrow> cpu" where
  "sample_user rax rdi = \<lparr>gpr = (\<lambda>_. 7)(RSP := 0x1000000e000, RAX := rax, RDI := rdi), pc = 0x10000010040, eflags = 0x246,
     cr0 = 0x80000001, cr3 = 0x210000, cs_sel = 0x2b, ss_sel = 0x23, data_sel = 0x10, tr_sel = 0x30, gdtr = (0x4f, 0x101000),
     msr = (\<lambda>_. 0)(EFER := 0x501, STAR := 0x0018000800000000, LSTAR := 0x100400, FMASK := 0x200), cpu_mem = (\<lambda>_. 0)\<rparr>"

lemma sample_user_facts:
  "syscalls_enabled 0x100400 (sample_user rax rdi)" "user_mode (sample_user rax rdi)"
  "gpr (sample_user rax rdi) RAX = rax" "gpr (sample_user rax rdi) RDI = rdi"
  "gpr (sample_user rax rdi) RSP = 0x1000000e000" "gpr (sample_user rax rdi) RBX = 7" "pc (sample_user rax rdi) = 0x10000010040"
  by (simp_all add: sample_user_def syscalls_enabled_def user_mode_def bit_0 bit_numeral_rec)

lemma sample_user_stacks: "area (0x12c000 - 8) 8 \<inter> area (gpr (sample_user rax rdi) RSP - 112) 112 = {}"
proof -
  have "unat (x - 0x1000000df90) \<ge> 112" if "unat (x - 0x12bff8) < 8" for x :: u64
  proof -
    have "unat x = (unat (x - 0x12bff8) + 0x12bff8) mod 2 ^ 64"
      using unat_word_ariths(1) [of "x - 0x12bff8" "0x12bff8"] by simp
    then have x: "unat x < 0x12c000" "0x12bff8 \<le> unat x" using that by simp_all
    have "unat (x - 0x1000000df90) = unat x + (2 ^ 64 - 0x1000000df90)"
      using x by (simp add: unat_sub_if')
    then show ?thesis using x by simp
  qed
  then show ?thesis by (auto simp: sample_user_facts area_def not_less [symmetric])
qed

lemmas sample_direct = direct.compiled_handlers_axioms

theorem trap_returns_witness:
  "\<exists>k' m. trap 0x100400 0x12c000 (direct_code passed_on (\<lambda>_. [33])) sample_kernel (sample_user 0 0) = User_mode k'
     ((sample_user 0 0)\<lparr>gpr := (gpr (sample_user 0 0))(RAX := 0, RCX := 0x10000010042, R11 := IF_FLAG),
        pc := 0x10000010042, eflags := 0x202, cpu_mem := m\<rparr>)"
proof -
  let ?c = "sample_user 0 0"
  have "con_ok (console sample_kernel)" by (simp add: sample_kernel_def con_ok_def init_console_def)
  from write_safe [OF this, of 0 "[33]"] obtain c' where
    "write_syscall 0 [33] sample_kernel = Inr (Returned 0, sample_kernel\<lparr>console := c'\<rparr>)" by auto
  then have d: "syscall passed_on (\<lambda>_. [33]) (gpr ?c RAX) (map (gpr ?c) [RDI, RSI, RDX, R10, R8, R9])
      sample_kernel = Inr (Returned 0, sample_kernel\<lparr>console := c'\<rparr>)"
    by (simp add: syscall_def dispatch_def syscall_table_eval array_get_def call_handler_def sample_user_facts)
  from trap_returns [OF sample_direct sample_user_facts(1,2) _ d sample_user_stacks] show ?thesis
    by (auto simp: sample_user_facts)
qed

theorem jump_usermode_enters_witness:
  "\<exists>c'. jump_usermode (set_reg RSI 0x10000010040 (sample_user 0 0)) = Some c' \<and> user_mode c' \<and> pc c' = 0x10000010040"
proof -
  have "syscalls_enabled 0x100400 (set_reg RSI 0x10000010040 (sample_user 0 0))"
    using sample_user_facts(1) by (simp add: syscalls_enabled_def)
  from jump_usermode_enters [OF this] show ?thesis by auto
qed

theorem tasks_on_processor_witness:
  "\<exists>out k1 c3 q con3. start_tasks passed_on False 0x101234 0x102345
      \<lparr>console = init_console (\<lambda>_. 0), memory = sample, scheduler = init_sched\<rparr> = Inr (out, k1) \<and>
    trap 0x100400 0x12c000 (direct_code passed_on (\<lambda>_. [])) (k1\<lparr>memory := sample, console := init_console (\<lambda>_. 0)\<rparr>)
      ((init_syscalls 0x100400 (sample_user 5 0))\<lparr>gpr := gpr (sample_user 5 0)\<rparr>) =
        User_mode (k1\<lparr>memory := sample, scheduler := q, console := con3\<rparr>) c3 \<and>
    user_mode c3 \<and> pc c3 = 0x10000010345"
proof -
  define k where "k = \<lparr>console = init_console (\<lambda>_. 0), memory = sample, scheduler = init_sched\<rparr>"
  define c where "c = (init_syscalls 0x100400 (sample_user 5 0))\<lparr>gpr := gpr (sample_user 5 0)\<rparr>"
  have k: "scheduler k = init_sched" "con_ok (console k)" "con_ok (init_console (\<lambda>_. 0))"
    by (simp_all add: k_def con_ok_def init_console_def)
  have p: "fst (create_user_pml4 (memory k)) \<noteq> 0"
    using sample_alloc(1) by (simp add: k_def create_user_pml4_def split_def Let_def)
  have "area (0x12c000 - 8) 8 \<inter> area (gpr c RSP - 112) 112 = {}"
    using sample_user_stacks [of 5 0] by (simp add: c_def)
  moreover have "msr c = msr (init_syscalls 0x100400 (sample_user 5 0))" "gpr c RAX = of_nat SYS_SCHED_YIELD"
    by (simp_all add: c_def sample_user_facts)
  ultimately show ?thesis
    using tasks_on_processor [OF sample_direct [where found = passed_on and user_str = "\<lambda>_. []"] k(1,2) p
        va_readable_passed_on, where ?c2.0 = c and e = "0x100400"
        and c = "sample_user 5 0" and kstack = "0x12c000" and ?con2.0 = "init_console (\<lambda>_. 0)" and debug = False
        and ?link1.0 = "0x101234" and ?link2.0 = "0x102345" and ?m2.0 = sample] k(3)
    unfolding k_def [symmetric] c_def [symmetric] by (simp add: page_off_def) blast
qed

theorem entry_writes_user_pointer_witness:
  "\<exists>c1. trap 0x100400 0x12c000 (direct_code passed_on (\<lambda>_. [])) sample_kernel (sample_user 9 0) =
      (case direct_code passed_on (\<lambda>_. []) (sample_kernel, c1) of Inl e \<Rightarrow> Faulted e | Inr (res, k, c) \<Rightarrow> after_handler res k c) \<and>
    ring c1 = 0 \<and> rd64 (cpu_mem c1) 0x1000000dff8 = 7"
  by (rule entry_writes_user_pointer [OF sample_user_facts(1) sample_user_stacks]) (simp_all add: sample_user_facts)

theorem trap_number_unchecked_witness:
  "trap 0x100400 0x12c000 (direct_code passed_on (\<lambda>_. [])) sample_kernel (sample_user 1000 0) = Faulted OutOfBounds"
  by (rule trap_number_unchecked [OF sample_direct sample_user_facts(1) _ sample_user_stacks]) (simp add: sample_user_facts)

end
