(* ===== verification/Ahci.thy ===== *)
theory Ahci
  imports Ram "HOL-Library.Monad_Syntax"
begin

text \<open>
  The AHCI driver: \<open>src/src/driver/ahci/ahci.c\<close> and \<open>ahci.h\<close>. Ports and controllers are addresses of register blocks; command
  headers, command tables and buffers are addresses in memory. A result \<open>None\<close> is a wait that does not end.
  The messages it prints are left out.
\<close>

section \<open>Data\<close>

abbreviation (input) AHCI_SECTOR_SIZE :: u64 where "AHCI_SECTOR_SIZE \<equiv> 0x200"
abbreviation (input) BYTES_PER_PRDT :: u64 where "BYTES_PER_PRDT \<equiv> 0x200000"
abbreviation (input) MAX_PRDTS :: u64 where "MAX_PRDTS \<equiv> 1024"
abbreviation (input) AHCI_CMD_HEADERS :: nat where "AHCI_CMD_HEADERS \<equiv> 32"
abbreviation (input) MAX_AHCI_CONTROLLERS :: nat where "MAX_AHCI_CONTROLLERS \<equiv> 32"
abbreviation (input) MAX_AHCI_DEVS :: nat where "MAX_AHCI_DEVS \<equiv> 32"

abbreviation (input) AHCI_DEV_SATA :: u8 where "AHCI_DEV_SATA \<equiv> 1"
abbreviation (input) AHCI_DEV_SATAPI :: u8 where "AHCI_DEV_SATAPI \<equiv> 2"
abbreviation (input) AHCI_DEV_SEMB :: u8 where "AHCI_DEV_SEMB \<equiv> 3"
abbreviation (input) AHCI_DEV_PM :: u8 where "AHCI_DEV_PM \<equiv> 4"

abbreviation (input) HBA_CMD_ST :: u32 where "HBA_CMD_ST \<equiv> 0x0001"
abbreviation (input) HBA_CMD_FRE :: u32 where "HBA_CMD_FRE \<equiv> 0x0010"
abbreviation (input) HBA_CMD_FR :: u32 where "HBA_CMD_FR \<equiv> 0x4000"
abbreviation (input) HBA_CMD_CR :: u32 where "HBA_CMD_CR \<equiv> 0x8000"

text \<open>The registers of a port and of the controller, by their offset.\<close>

abbreviation (input) port_clb :: u64 where "port_clb \<equiv> 0x00"
abbreviation (input) port_clbu :: u64 where "port_clbu \<equiv> 0x04"
abbreviation (input) port_fb :: u64 where "port_fb \<equiv> 0x08"
abbreviation (input) port_fbu :: u64 where "port_fbu \<equiv> 0x0c"
abbreviation (input) port_cmd :: u64 where "port_cmd \<equiv> 0x18"
abbreviation (input) port_tfd :: u64 where "port_tfd \<equiv> 0x20"
abbreviation (input) port_sig :: u64 where "port_sig \<equiv> 0x24"
abbreviation (input) port_ssts :: u64 where "port_ssts \<equiv> 0x28"
abbreviation (input) port_sact :: u64 where "port_sact \<equiv> 0x34"
abbreviation (input) port_ci :: u64 where "port_ci \<equiv> 0x38"

abbreviation (input) hba_cap :: u64 where "hba_cap \<equiv> 0x00"
abbreviation (input) hba_ghc :: u64 where "hba_ghc \<equiv> 0x04"
abbreviation (input) hba_pi :: u64 where "hba_pi \<equiv> 0x0c"
abbreviation (input) hba_vs :: u64 where "hba_vs \<equiv> 0x10"
abbreviation (input) hba_cap2 :: u64 where "hba_cap2 \<equiv> 0x24"
abbreviation (input) hba_bohc :: u64 where "hba_bohc \<equiv> 0x28"

text \<open>The field \<open>status\<close> of a device is never used.\<close>

record ahci_dev =
  dev_port :: u64
  dev_cmd_slots :: u32
  dev_sector_count :: u64
  serial_num :: u64
  firmware :: u64
  model_num :: u64

definition zero_dev :: ahci_dev where
  "zero_dev = \<lparr>dev_port = 0, dev_cmd_slots = 0, dev_sector_count = 0, serial_num = 0, firmware = 0, model_num = 0\<rparr>"

text \<open>\<open>devs\<close> holds the first \<open>devs_count\<close> entries of the array.\<close>

record ahci_controller =
  c_pci_bar :: pci_bar
  c_regs :: u64
  devs :: "ahci_dev list"
  ports_count :: u32
  c_cmd_slots :: u32
  version_maj :: u16
  version_min :: u16

text \<open>\<open>controllers\<close> holds the first \<open>controllers_count\<close> entries of the array.\<close>

record 'h ahci =
  ah_hw :: 'h
  ah_mm :: mm
  controllers :: "ahci_controller list"

section \<open>Command headers and tables\<close>

text \<open>A header has 32 bytes: flags, \<open>prdtl\<close> at 2, \<open>ctba\<close> at 8, \<open>ctbau\<close> at 12.\<close>

definition hdr_prdtl :: "memory \<Rightarrow> u64 \<Rightarrow> u16" where
  "hdr_prdtl m hdr = rd16 m (hdr + 2)"

definition hdr_table :: "memory \<Rightarrow> u64 \<Rightarrow> u64" where
  "hdr_table m hdr = ucast (rd32 m (hdr + 8)) OR push_bit 32 (ucast (rd32 m (hdr + 12)))"

definition set_cfl :: "u8 \<Rightarrow> u64 \<Rightarrow> memory \<Rightarrow> memory" where
  "set_cfl v hdr m = m(hdr := (m hdr AND 0xe0) OR (v AND 0x1f))"

definition set_w :: "bool \<Rightarrow> u64 \<Rightarrow> memory \<Rightarrow> memory" where
  "set_w b hdr m = m(hdr := (m hdr AND 0xbf) OR (if b then 0x40 else 0))"

text \<open>A table has the command at 0 and its entries of 16 bytes from 128 on; an entry's last word is \<open>dbc\<close> and \<open>i\<close>.\<close>

definition prdt_entry :: "u64 \<Rightarrow> int \<Rightarrow> u64" where
  "prdt_entry table i = table + 128 + of_int (16 * i)"

definition set_prdt_entry :: "u64 \<Rightarrow> bool \<Rightarrow> u32 \<Rightarrow> u64 \<Rightarrow> memory \<Rightarrow> memory" where
  "set_prdt_entry e intr dbc buffer m =
     (let m = wr32 (e + 12) ((rd32 m (e + 12) AND 0x7fffffff) OR (if intr then 0x80000000 else 0)) m;
          m = wr32 (e + 12) ((rd32 m (e + 12) AND 0xffc00000) OR (dbc AND 0x3fffff)) m;
          m = wr32 e (ucast buffer) m
      in wr32 (e + 4) (ucast (drop_bit 32 buffer)) m)"

function set_prdts_from :: "u64 \<Rightarrow> u64 \<Rightarrow> bool \<Rightarrow> nat \<Rightarrow> u64 \<Rightarrow> u32 \<Rightarrow> memory \<Rightarrow> memory" where
  "set_prdts_from hdr table intr i buffer sz m =
     (if int i < int (unat (hdr_prdtl m hdr)) - 1 then
        set_prdts_from hdr table intr (Suc i) (buffer + BYTES_PER_PRDT) (sz - 0x200000)
          (set_prdt_entry (prdt_entry table (int i)) intr (0x200000 - 1) buffer m)
      else set_prdt_entry (prdt_entry table (int (unat (hdr_prdtl m hdr)) - 1)) intr (sz - 1) buffer m)"
  by pat_completeness auto
termination
proof (relation "measure (\<lambda>(hdr, table, intr, i, b, sz, m). 65536 - i)", goal_cases)
  case 1
  show ?case by simp
next
  case (2 hdr table intr i b sz m)
  moreover have "uint (hdr_prdtl m hdr) < 65536" using uint_lt2p [of "hdr_prdtl m hdr"] by simp
  ultimately show ?case by simp
qed

declare set_prdts_from.simps [simp del]

definition set_prdts :: "u64 \<Rightarrow> u64 \<Rightarrow> u32 \<Rightarrow> bool \<Rightarrow> memory \<Rightarrow> u64 \<times> memory" where
  "set_prdts hdr buffer sz intr m =
     (let table = hdr_table m hdr in (table, set_prdts_from hdr table intr 0 buffer sz m))"

section \<open>Ports\<close>

definition get_ahci_dev_type :: "'h hw \<Rightarrow> u64 \<Rightarrow> 'h \<Rightarrow> u8 \<times> 'h" where
  "get_ahci_dev_type H port h =
     (let (ssts, h) = mmio_read H (port + port_ssts) h;
          det = ucast (ssts AND 0xf) :: u8;
          ipm = ucast (drop_bit 8 ssts AND 0xf) :: u8
      in if det \<noteq> 3 \<or> ipm \<noteq> 1 then (- 1, h)
         else let (sig, h) = mmio_read H (port + port_sig) h
              in (if sig = 0xeb140101 then AHCI_DEV_SATAPI
                  else if sig = 0x96690101 then AHCI_DEV_PM
                  else if sig = 0xc33c0101 then AHCI_DEV_SEMB
                  else AHCI_DEV_SATA, h))"

definition start_cmd :: "'h hw \<Rightarrow> u64 \<Rightarrow> 'h \<Rightarrow> 'h option" where
  "start_cmd H port h = do {
     h \<leftarrow> poll H (port + port_cmd) (\<lambda>v. v AND HBA_CMD_CR \<noteq> 0) h;
     Some (mmio_upd H (port + port_cmd) (\<lambda>v. v OR HBA_CMD_ST)
       (mmio_upd H (port + port_cmd) (\<lambda>v. v OR HBA_CMD_FRE) h)) }"

text \<open>The second condition of the loop is read again when the first does not hold.\<close>

partial_function (option) wait_stopped :: "'h hw \<Rightarrow> u64 \<Rightarrow> 'h \<Rightarrow> 'h option" where
  "wait_stopped H port h =
     (case mmio_read H (port + port_cmd) h of (v, h) \<Rightarrow>
        if v AND HBA_CMD_CR \<noteq> 0 then wait_stopped H port h
        else (case mmio_read H (port + port_cmd) h of (v, h) \<Rightarrow>
          if v AND HBA_CMD_FR \<noteq> 0 then wait_stopped H port h else Some h))"

definition stop_cmd :: "'h hw \<Rightarrow> u64 \<Rightarrow> 'h \<Rightarrow> 'h option" where
  "stop_cmd H port h =
     wait_stopped H port
       (mmio_upd H (port + port_cmd) (\<lambda>v. v AND NOT HBA_CMD_FRE)
         (mmio_upd H (port + port_cmd) (\<lambda>v. v AND NOT HBA_CMD_ST) h))"

definition read64 :: "'h hw \<Rightarrow> u64 \<Rightarrow> u64 \<Rightarrow> 'h \<Rightarrow> u64 \<times> 'h" where
  "read64 H low high h =
     (let (l, h) = mmio_read H low h; (u, h) = mmio_read H high h in (ucast l OR push_bit 32 (ucast u), h))"

definition cmd_header :: "'h hw \<Rightarrow> u64 \<Rightarrow> u32 \<Rightarrow> 'h \<Rightarrow> u64 \<times> 'h" where
  "cmd_header H port slot h =
     (let (list, h) = read64 H (port + port_clb) (port + port_clbu) h in (list + ucast slot * 32, h))"

definition desc_size :: u64 where
  "desc_size = 144 + 16 * (MAX_PRDTS - 1)"

definition rebase_slot :: "'h hw \<Rightarrow> 'h ram \<Rightarrow> u64 \<Rightarrow> nat \<Rightarrow> mm \<times> 'h \<Rightarrow> mm \<times> 'h" where
  "rebase_slot H M port i = (\<lambda>(mm, h).
     let (hdr, h) = cmd_header H port (of_nat i) h;
         (desc_base, mm) = pmm_alloc ((desc_size - 1) div 4096 + 1) mm;
         h = on_mem M (zero_bytes desc_base (unat desc_size)) h;
         h = on_mem M (wr32 (hdr + 8) (ucast desc_base)) h
     in (mm, on_mem M (wr32 (hdr + 12) (ucast (drop_bit 32 desc_base))) h))"

definition rebase_port :: "'h hw \<Rightarrow> 'h ram \<Rightarrow> u64 \<Rightarrow> mm \<times> 'h \<Rightarrow> (mm \<times> 'h) option" where
  "rebase_port H M port = (\<lambda>(mm, h). do {
     h \<leftarrow> stop_cmd H port h;
     let (cmd_list_addr, mm) = pmm_alloc 1 mm;
     let h = on_mem M (zero_bytes cmd_list_addr 4096) h;
     let h = mmio_write H (port + port_clb) (ucast cmd_list_addr) h;
     let h = mmio_write H (port + port_clbu) (ucast (drop_bit 32 cmd_list_addr)) h;
     let (mm, h) = fold (rebase_slot H M port) [0..<AHCI_CMD_HEADERS] (mm, h);
     let (fib_addr, mm) = pmm_alloc 1 mm;
     let h = on_mem M (zero_bytes fib_addr 4096) h;
     let h = mmio_write H (port + port_fb) (ucast fib_addr) h;
     let h = mmio_write H (port + port_fbu) (ucast (drop_bit 32 fib_addr)) h;
     h \<leftarrow> start_cmd H port h;
     Some (mm, h) })"

definition send_cmd :: "'h hw \<Rightarrow> u64 \<Rightarrow> u32 \<Rightarrow> 'h \<Rightarrow> 'h option" where
  "send_cmd H port slot h = do {
     h \<leftarrow> poll H (port + port_tfd) (\<lambda>v. v AND 0x88 \<noteq> 0) h;
     let h = mmio_write H (port + port_ci) (push_bit (unat slot) 1) h;
     poll H (port + port_ci) (\<lambda>v. v AND push_bit (unat slot) 1 \<noteq> 0) h }"

definition bios_handoff :: "'h hw \<Rightarrow> u64 \<Rightarrow> 'h \<Rightarrow> (bool \<times> 'h) option" where
  "bios_handoff H regs h =
     (let (cap2, h) = mmio_read H (regs + hba_cap2) h
      in if cap2 AND 1 = 0 then Some (False, h)
         else do {
           let h = mmio_upd H (regs + hba_bohc) (\<lambda>v. v OR 2) h;
           h \<leftarrow> poll H (regs + hba_bohc) (\<lambda>v. v AND 1 = 0) h;
           let h = (io_wait H ^^ 25000) h;
           let (v, h) = mmio_read H (regs + hba_bohc) h;
           let h = (if v AND 0x10 \<noteq> 0 then (io_wait H ^^ 2000000) h else h);
           let (v, h) = mmio_read H (regs + hba_bohc) h;
           if v AND 11 \<noteq> 0 then Some (False, h)
           else let (v, h) = mmio_read H (regs + hba_bohc) h
                in Some (v AND 2 \<noteq> 0, h) })"

section \<open>Commands\<close>

text \<open>\<open>None\<close> stands for the result -1.\<close>

primrec find_cmd_slot_in :: "'h hw \<Rightarrow> nat list \<Rightarrow> u64 \<Rightarrow> 'h \<Rightarrow> u32 option \<times> 'h" where
  "find_cmd_slot_in H [] port h = (None, h)"
| "find_cmd_slot_in H (i # is) port h =
     (let (ci, h) = mmio_read H (port + port_ci) h;
          (sact, h) = mmio_read H (port + port_sact) h
      in if (ci OR sact) AND push_bit i 1 = 0 then (Some (of_nat i), h) else find_cmd_slot_in H is port h)"

definition find_cmd_slot :: "'h hw \<Rightarrow> u32 \<Rightarrow> u64 \<Rightarrow> 'h \<Rightarrow> u32 option \<times> 'h" where
  "find_cmd_slot H cmd_slots port h = find_cmd_slot_in H [0..<unat cmd_slots] port h"

text \<open>The bytes of a command, in the order the code writes them after it has cleared the 20 bytes.\<close>

definition identify_fis :: "u64 \<Rightarrow> memory \<Rightarrow> memory" where
  "identify_fis fis m =
     (let m = zero_bytes fis 20 m;
          m = m(fis + 2 := 0xec);
          m = m(fis + 1 := (m (fis + 1) AND 0x7f) OR 0x80)
      in m(fis := 0x27, fis + 7 := 0))"

definition rw_fis :: "u64 \<Rightarrow> bool \<Rightarrow> u64 \<Rightarrow> u64 \<Rightarrow> memory \<Rightarrow> memory" where
  "rw_fis fis write_cmd lba sector_count m =
     (let m = zero_bytes fis 20 m;
          m = m(fis + 2 := (if write_cmd then 0x35 else 0x25));
          m = m(fis + 1 := (m (fis + 1) AND 0x7f) OR 0x80)
      in m(fis := 0x27, fis + 7 := 0x40,
           fis + 4 := ucast (lba AND 0xff), fis + 5 := ucast (drop_bit 8 lba AND 0xff),
           fis + 6 := ucast (drop_bit 16 lba AND 0xff), fis + 8 := ucast (drop_bit 24 lba AND 0xff),
           fis + 9 := ucast (drop_bit 32 lba AND 0xff), fis + 10 := ucast (drop_bit 40 lba AND 0xff),
           fis + 12 := ucast (sector_count AND 0xff), fis + 13 := ucast (drop_bit 8 sector_count AND 0xff)))"

definition send_identify_cmd :: "'h hw \<Rightarrow> 'h ram \<Rightarrow> u64 \<Rightarrow> u32 \<Rightarrow> u64 \<Rightarrow> 'h \<Rightarrow> (bool \<times> 'h) option" where
  "send_identify_cmd H M ident cmd_slots port h =
     (case find_cmd_slot H cmd_slots port h of
        (None, h) \<Rightarrow> Some (False, h)
      | (Some slot, h) \<Rightarrow>
          (let (hdr, h) = cmd_header H port slot h;
               h = on_mem M (set_cfl 5 hdr) h;
               h = on_mem M (set_w False hdr) h;
               h = on_mem M (wr16 (hdr + 2) 1) h;
               (table, m) = set_prdts hdr ident (ucast AHCI_SECTOR_SIZE) True (mem_of M h);
               h = with_mem M m h;
               h = on_mem M (identify_fis table) h
           in map_option (Pair True) (send_cmd H port slot h)))"

definition prdt_sectors :: u64 where
  "prdt_sectors = MAX_PRDTS * BYTES_PER_PRDT div AHCI_SECTOR_SIZE"

text \<open>The preparation of a command in memory: sectors of this command, and the sectors left over.\<close>

definition prepare_rw :: "u64 \<Rightarrow> u64 \<Rightarrow> u64 \<Rightarrow> u64 \<Rightarrow> bool \<Rightarrow> memory \<Rightarrow> u32 \<times> memory" where
  "prepare_rw hdr lba sector_count buffer write_cmd m =
     (let m = set_cfl 5 hdr m;
          m = set_w write_cmd hdr m;
          m = wr16 (hdr + 2) (ucast ((sector_count - 1) * AHCI_SECTOR_SIZE div BYTES_PER_PRDT + 1)) m;
          (rest_sectors, sector_count, m) =
            (if sector_count > prdt_sectors
             then (ucast (sector_count - prdt_sectors), prdt_sectors, wr16 (hdr + 2) (ucast MAX_PRDTS) m)
             else (0, sector_count, m));
          (table, m) = set_prdts hdr buffer (ucast (sector_count * AHCI_SECTOR_SIZE)) True m
      in (rest_sectors, rw_fis table write_cmd lba sector_count m))"

definition send_rw_cmd ::
    "'h hw \<Rightarrow> 'h ram \<Rightarrow> u64 \<Rightarrow> u64 \<Rightarrow> u64 \<Rightarrow> bool \<Rightarrow> ahci_dev \<Rightarrow> 'h \<Rightarrow> (u64 \<times> 'h) option" where
  "send_rw_cmd H M lba sector_count buffer write_cmd dev h =
     (case find_cmd_slot H (dev_cmd_slots dev) (dev_port dev) h of
        (None, h) \<Rightarrow> Some (sector_count, h)
      | (Some slot, h) \<Rightarrow>
          (let (hdr, h) = cmd_header H (dev_port dev) slot h;
               (rest_sectors, m) = prepare_rw hdr lba sector_count buffer write_cmd (mem_of M h)
           in map_option (Pair (ucast rest_sectors)) (send_cmd H (dev_port dev) slot (with_mem M m h))))"

partial_function (option) send_rw_rest ::
    "'h hw \<Rightarrow> 'h ram \<Rightarrow> u64 \<Rightarrow> u64 \<Rightarrow> u64 \<Rightarrow> bool \<Rightarrow> ahci_dev \<Rightarrow> 'h \<Rightarrow> 'h option" where
  "send_rw_rest H M lba rest_sectors buffer write_cmd dev h =
     (if rest_sectors \<noteq> 0 then
        Option.bind
          (send_rw_cmd H M (lba + prdt_sectors) rest_sectors (buffer + MAX_PRDTS * BYTES_PER_PRDT) write_cmd dev h)
          (\<lambda>rh. send_rw_rest H M (lba + prdt_sectors) (fst rh) (buffer + MAX_PRDTS * BYTES_PER_PRDT)
             write_cmd dev (snd rh))
      else Some h)"

definition send_rw_cmds ::
    "'h hw \<Rightarrow> 'h ram \<Rightarrow> u64 \<Rightarrow> u64 \<Rightarrow> u64 \<Rightarrow> bool \<Rightarrow> ahci_dev \<Rightarrow> 'h \<Rightarrow> (bool \<times> 'h) option" where
  "send_rw_cmds H M lba sector_count buffer write_cmd dev h = do {
     (rest_sectors, h) \<leftarrow> send_rw_cmd H M lba sector_count buffer write_cmd dev h;
     h \<leftarrow> send_rw_rest H M lba rest_sectors buffer write_cmd dev h;
     Some (True, h) }"

section \<open>Devices\<close>

text \<open>The loops that copy words of the identification with their bytes swapped.\<close>

definition swap_words :: "u64 \<Rightarrow> u64 \<Rightarrow> nat \<Rightarrow> memory \<Rightarrow> memory" where
  "swap_words dst src n m =
     fold (\<lambda>i m.
       (let m = m(dst + of_nat (2 * i + 1) := ucast (rd16 m (src + of_nat (2 * i)) AND 0xff))
        in m(dst + of_nat (2 * i) := ucast (drop_bit 8 (rd16 m (src + of_nat (2 * i)))) AND 0xff))) [0..<n] m"

definition init_ahci_dev :: "'h hw \<Rightarrow> 'h ram \<Rightarrow> u32 \<Rightarrow> u64 \<Rightarrow> mm \<times> 'h \<Rightarrow> (ahci_dev \<times> mm \<times> 'h) option" where
  "init_ahci_dev H M cmd_slots port s = do {
     (mm, h) \<leftarrow> rebase_port H M port s;
     let (ident, mm) = pmm_alloc 1 mm;
     (sent, h) \<leftarrow> send_identify_cmd H M ident cmd_slots port h;
     if \<not> sent then Some (zero_dev, mm, h)
     else
       let sector_count = rd64 (mem_of M h) (ident + 200);
           (info, mm) = pmm_alloc 1 mm;
           h = on_mem M (swap_words info (ident + 20) 10) h;
           h = on_mem M (swap_words (info + 21) (ident + 46) 4) h;
           h = on_mem M (swap_words (info + 30) (ident + 54) 20) h;
           mm = pmm_free (to_frame ident) 1 mm
       in Some (\<lparr>dev_port = port, dev_cmd_slots = cmd_slots, dev_sector_count = sector_count, serial_num = info,
            firmware = info + 21, model_num = info + 30\<rparr>, mm, h) }"

section \<open>Controllers\<close>

definition port_base :: "u64 \<Rightarrow> nat \<Rightarrow> u64" where
  "port_base regs i = regs + 0x100 + of_nat i * 0x80"

primrec init_ports ::
    "'h hw \<Rightarrow> 'h ram \<Rightarrow> u64 \<Rightarrow> u32 \<Rightarrow> nat list \<Rightarrow> ahci_dev list \<times> mm \<times> 'h \<Rightarrow> (ahci_dev list \<times> mm \<times> 'h) option" where
  "init_ports H M regs cmd_slots [] s = Some s"
| "init_ports H M regs cmd_slots (i # is) s =
     (case s of (ds, mm, h) \<Rightarrow>
       (let (pi, h) = mmio_read H (regs + hba_pi) h
        in if pi AND push_bit i 1 \<noteq> 0 then
             (let (dev_type, h) = get_ahci_dev_type H (port_base regs i) h
              in if dev_type = AHCI_DEV_SATA then
                   Option.bind (init_ahci_dev H M cmd_slots (port_base regs i) (mm, h))
                     (\<lambda>(d, mm, h). init_ports H M regs cmd_slots is (ds @ [d], mm, h))
                 else init_ports H M regs cmd_slots is (ds, mm, h))
           else init_ports H M regs cmd_slots is (ds, mm, h)))"

definition enable_bus_master :: "'h hw \<Rightarrow> pci_dev \<Rightarrow> 'h \<Rightarrow> 'h" where
  "enable_bus_master H dev h =
     (let (cmd, h) = pci_readd H (dev_bus dev) (dev_slot dev) (dev_func dev) 0x4 h
      in if cmd AND 4 = 0 then pci_writed H (dev_bus dev) (dev_slot dev) (dev_func dev) 0x4 (cmd OR 4) h else h)"

definition init_ahci_controller :: "'h hw \<Rightarrow> 'h ram \<Rightarrow> pci_dev \<Rightarrow> 'h ahci \<Rightarrow> (fault + bool \<times> 'h ahci) option" where
  "init_ahci_controller H M dev s =
     (let h = enable_bus_master H dev (ah_hw s);
          (bar5, h) = is_bar_present H dev 5 h
      in if \<not> bar5 then Some (Inr (False, s\<lparr>ah_hw := h\<rparr>))
         else let (bar, h) = get_bar H dev 5 h
         in if bar_size bar = 0 then Some (Inr (False, s\<lparr>ah_hw := h\<rparr>))
         else let mm = map_bar bar (ah_mm s);
                  regs = bar_base bar;
                  (vs, h) = mmio_read H (regs + hba_vs) h;
                  maj = ucast (drop_bit 16 vs AND 0xffff);
                  (vs, h) = mmio_read H (regs + hba_vs) h;
                  min = ucast (vs AND 0xffff);
                  (cap, h) = mmio_read H (regs + hba_cap) h
         in if cap AND 0x80000000 = 0 then Some (Inr (False, s\<lparr>ah_hw := h, ah_mm := mm\<rparr>))
         else do {
           (handed_off, h) \<leftarrow> bios_handoff H regs h;
           let h = mmio_upd H (regs + hba_ghc) (\<lambda>v. v OR 0x80000000) h;
           let h = mmio_upd H (regs + hba_ghc) (\<lambda>v. v AND NOT 2) h;
           let (cap, h) = mmio_read H (regs + hba_cap) h;
           let ports_count = cap AND 0x1f;
           let (cap, h) = mmio_read H (regs + hba_cap) h;
           let cmd_slots = drop_bit 8 cap AND 0x1f;
           (ds, mm, h) \<leftarrow> init_ports H M regs cmd_slots [0..<unat ports_count] ([], mm, h);
           let c = \<lparr>c_pci_bar = bar, c_regs = regs, devs = ds, ports_count = ports_count, c_cmd_slots = cmd_slots,
             version_maj = maj, version_min = min\<rparr>;
           if length (controllers s) < MAX_AHCI_CONTROLLERS
           then Some (Inr (True, s\<lparr>ah_hw := h, ah_mm := mm, controllers := controllers s @ [c]\<rparr>))
           else Some (Inl OutOfBounds) })"

definition get_ahci_dev :: "u32 \<Rightarrow> u32 \<Rightarrow> 'h ahci \<Rightarrow> ahci_dev option" where
  "get_ahci_dev controller d s =
     (if unat controller < length (controllers s) then
        if unat d < length (devs (controllers s ! unat controller))
        then Some (devs (controllers s ! unat controller) ! unat d) else None
      else None)"

definition is_ahci :: "pci_dev \<Rightarrow> bool" where
  "is_ahci d \<longleftrightarrow> dev_class d = 1 \<and> dev_subclass d = 6 \<and> dev_prog_if d = 1"

primrec init_ahci_in :: "'h hw \<Rightarrow> 'h ram \<Rightarrow> pci_dev list \<Rightarrow> 'h ahci \<Rightarrow> (fault + 'h ahci) option" where
  "init_ahci_in H M [] s = Some (Inr s)"
| "init_ahci_in H M (d # ds) s =
     (if is_ahci d then
        (case init_ahci_controller H M d s of
           None \<Rightarrow> None
         | Some (Inl e) \<Rightarrow> Some (Inl e)
         | Some (Inr (_, s)) \<Rightarrow> init_ahci_in H M ds s)
      else init_ahci_in H M ds s)"

text \<open>Finding a RAID controller only changes the message.\<close>

definition init_ahci :: "'h hw \<Rightarrow> 'h ram \<Rightarrow> 'h pci \<Rightarrow> 'h ahci \<Rightarrow> (fault + 'h ahci) option" where
  "init_ahci H M p s = init_ahci_in H M (take (get_pci_devs_len p) (get_pci_devs p)) s"

section \<open>Reading and writing\<close>

definition clip_size :: "u64 \<Rightarrow> u64 \<Rightarrow> ahci_dev \<Rightarrow> u64" where
  "clip_size start sz dev =
     (if start + sz \<ge> dev_sector_count dev * AHCI_SECTOR_SIZE
      then dev_sector_count dev * AHCI_SECTOR_SIZE - start else sz)"

definition ahci_read ::
    "'h hw \<Rightarrow> 'h ram \<Rightarrow> u64 \<Rightarrow> u64 \<Rightarrow> u64 \<Rightarrow> ahci_dev \<Rightarrow> mm \<times> 'h \<Rightarrow> (u64 \<times> mm \<times> 'h) option" where
  "ahci_read H M start sz buffer dev = (\<lambda>(mm, h).
     let sz = clip_size start sz dev
     in if start mod AHCI_SECTOR_SIZE \<noteq> 0 \<or> sz mod AHCI_SECTOR_SIZE \<noteq> 0 then Some (0, mm, h)
        else let lba = start div AHCI_SECTOR_SIZE;
                 sector_count = sz div AHCI_SECTOR_SIZE;
                 aligned_buf_size = (sz + 4096 - 1) AND NOT (4096 - 1);
                 (aligned_buf, mm) = pmm_alloc (aligned_buf_size div 4096) mm
        in do {
          (ok, h) \<leftarrow> send_rw_cmds H M lba sector_count aligned_buf False dev h;
          if \<not> ok then Some (0, pmm_free (to_frame aligned_buf) (aligned_buf_size div 4096) mm, h)
          else Some (sz, pmm_free (to_frame aligned_buf) (aligned_buf_size div 4096) mm,
            on_mem M (copy_bytes buffer aligned_buf (unat sz)) h) })"

definition ahci_write ::
    "'h hw \<Rightarrow> 'h ram \<Rightarrow> u64 \<Rightarrow> u64 \<Rightarrow> u64 \<Rightarrow> ahci_dev \<Rightarrow> mm \<times> 'h \<Rightarrow> (u64 \<times> mm \<times> 'h) option" where
  "ahci_write H M start sz buffer dev = (\<lambda>(mm, h).
     let sz = clip_size start sz dev
     in if start mod AHCI_SECTOR_SIZE \<noteq> 0 \<or> sz mod AHCI_SECTOR_SIZE \<noteq> 0 then Some (0, mm, h)
        else let lba = start div AHCI_SECTOR_SIZE;
                 sector_count = sz div AHCI_SECTOR_SIZE;
                 aligned_buf_size = (sz + 4096 - 1) AND NOT (4096 - 1);
                 (aligned_buf, mm) = pmm_alloc aligned_buf_size mm;
                 h = on_mem M (copy_bytes aligned_buf buffer (unat sz)) h
        in do {
          (ok, h) \<leftarrow> send_rw_cmds H M lba sector_count aligned_buf True dev h;
          if \<not> ok then Some (0, pmm_free (to_frame aligned_buf) aligned_buf_size mm, h)
          else Some (sz, pmm_free (to_frame aligned_buf) aligned_buf_size mm, h) })"

section \<open>Physical regions\<close>

text \<open>What the controller reads in an entry: address, number of bytes, and the interrupt bit.\<close>

definition prdt_addr :: "memory \<Rightarrow> u64 \<Rightarrow> u64" where
  "prdt_addr m e = ucast (rd32 m e) OR push_bit 32 (ucast (rd32 m (e + 4)))"

definition prdt_count :: "memory \<Rightarrow> u64 \<Rightarrow> nat" where
  "prdt_count m e = unat (rd32 m (e + 12) AND 0x3fffff) + 1"

definition prdt_intr :: "memory \<Rightarrow> u64 \<Rightarrow> bool" where
  "prdt_intr m e = bit (rd32 m (e + 12)) 31"

lemma mask_22: "(0x3fffff :: u32) = mask 22" "(0xffc00000 :: u32) = NOT (mask 22)" "(0x7fffffff :: u32) = mask 31"
  "(0x80000000 :: u32) = push_bit 31 1"
  by (simp_all add: mask_eq_exp_minus_1)

lemma set_prdt_entry_read:
  "prdt_addr (set_prdt_entry e intr dbc buffer m) e = buffer"
  "prdt_count (set_prdt_entry e intr dbc buffer m) e = unat (dbc AND 0x3fffff) + 1"
  "prdt_intr (set_prdt_entry e intr dbc buffer m) e = intr"
proof -
  show "prdt_addr (set_prdt_entry e intr dbc buffer m) e = buffer"
    by (simp add: prdt_addr_def set_prdt_entry_def Let_def rd32_wr32_near join_64)
  let ?v = "(((rd32 m (e + 12) AND 0x7fffffff) OR (if intr then 0x80000000 else 0)) AND 0xffc00000) OR (dbc AND 0x3fffff)"
  have v: "rd32 (set_prdt_entry e intr dbc buffer m) (e + 12) = ?v"
    by (simp add: set_prdt_entry_def Let_def rd32_wr32_near)
  have "?v AND 0x3fffff = dbc AND 0x3fffff"
    unfolding mask_22 by (rule bit_word_eqI) (auto simp: bit_simps)
  then show "prdt_count (set_prdt_entry e intr dbc buffer m) e = unat (dbc AND 0x3fffff) + 1"
    by (simp only: prdt_count_def v)
  show "prdt_intr (set_prdt_entry e intr dbc buffer m) e = intr"
    unfolding prdt_intr_def v mask_22 by (auto simp: bit_simps)
qed

text \<open>An entry changes the 16 bytes from its address on.\<close>

lemma set_prdt_entry_other:
  assumes "16 \<le> unat (x - e)"
  shows "set_prdt_entry e intr dbc buffer m x = m x"
proof -
  have far: "4 \<le> unat (x - (e + of_nat k))" if "k \<le> 12" for k
  proof -
    have "(of_nat k :: u64) \<le> x - e" using assms that by (simp add: word_le_nat_alt unat_of_nat)
    then have "unat (x - e - of_nat k) = unat (x - e) - k"
      using that by (simp add: unat_sub unat_of_nat)
    then show ?thesis using assms that by (simp add: diff_diff_eq)
  qed
  show ?thesis
    using far [of 0] far [of 4] far [of 12] by (simp add: set_prdt_entry_def Let_def wr32_other)
qed

lemma entry_cong:
  assumes "\<And>k. k < 16 \<Longrightarrow> m (e + of_nat k) = m' (e + of_nat k)"
  shows "prdt_addr m e = prdt_addr m' e" "prdt_count m e = prdt_count m' e" "prdt_intr m e = prdt_intr m' e"
proof -
  have "rd32 m (e + of_nat j) = rd32 m' (e + of_nat j)" if "j \<le> 12" for j
    by (rule rd32_cong) (use assms that in \<open>simp add: add.assoc flip: of_nat_add\<close>)
  from this [of 0] this [of 4] this [of 12] show "prdt_addr m e = prdt_addr m' e" "prdt_count m e = prdt_count m' e"
    "prdt_intr m e = prdt_intr m' e" by (simp_all add: prdt_addr_def prdt_count_def prdt_intr_def)
qed

text \<open>The offset of an entry's byte from the start of the entries.\<close>

lemma entry_offset:
  assumes "i < 65536" "k < 16"
  shows "unat (prdt_entry table (int i) + of_nat k - (table + 128)) = 16 * i + k"
proof -
  have "prdt_entry table (int i) + of_nat k - (table + 128) = of_nat (16 * i + k)"
    by (simp add: prdt_entry_def)
  then show ?thesis using assms by (simp add: unat_of_nat del: of_nat_add of_nat_mult)
qed

text \<open>The bytes of the entries \<open>i\<close> to \<open>n - 1\<close>.\<close>

definition entry_bytes :: "u64 \<Rightarrow> nat \<Rightarrow> nat \<Rightarrow> u64 set" where
  "entry_bytes table i n = {x. 16 * i \<le> unat (x - (table + 128)) \<and> unat (x - (table + 128)) < 16 * n}"

lemma set_entry_frame:
  assumes "i < n" "n \<le> 65536" "x \<notin> entry_bytes table i n"
  shows "set_prdt_entry (prdt_entry table (int i)) intr dbc buffer m x = m x"
proof (rule set_prdt_entry_other, rule ccontr)
  let ?k = "unat (x - prdt_entry table (int i))"
  assume "\<not> 16 \<le> ?k"
  then have k: "?k < 16" by simp
  have "x = prdt_entry table (int i) + of_nat ?k" by simp
  then have "unat (x - (table + 128)) = 16 * i + ?k"
    using entry_offset [OF _ k, of i table] assms(1,2) by simp
  then show False using assms(1,3) k by (simp add: entry_bytes_def)
qed

lemma entry_kept:
  assumes "\<And>x. x \<notin> entry_bytes table (Suc i) n \<Longrightarrow> m' x = m x" "i < n" "n \<le> 65536"
  shows "prdt_addr m' (prdt_entry table (int i)) = prdt_addr m (prdt_entry table (int i))"
    "prdt_count m' (prdt_entry table (int i)) = prdt_count m (prdt_entry table (int i))"
    "prdt_intr m' (prdt_entry table (int i)) = prdt_intr m (prdt_entry table (int i))"
  by (rule entry_cong; use assms entry_offset [of i _ table] in \<open>simp add: entry_bytes_def\<close>)+

lemma set_prdts_from_result:
  assumes "unat (hdr_prdtl m hdr) = n" "i < n" "hdr + 2 \<notin> entry_bytes table 0 n" "hdr + 3 \<notin> entry_bytes table 0 n"
  shows "(\<forall>k. i \<le> k \<and> k < n \<longrightarrow>
        prdt_addr (set_prdts_from hdr table intr i buffer sz m) (prdt_entry table (int k)) =
          buffer + of_nat (k - i) * 0x200000 \<and>
        prdt_count (set_prdts_from hdr table intr i buffer sz m) (prdt_entry table (int k)) =
          (if Suc k < n then 0x200000 else unat ((sz - of_nat (k - i) * 0x200000 - 1) AND 0x3fffff) + 1) \<and>
        prdt_intr (set_prdts_from hdr table intr i buffer sz m) (prdt_entry table (int k)) = intr) \<and>
    (\<forall>x. x \<notin> entry_bytes table i n \<longrightarrow> set_prdts_from hdr table intr i buffer sz m x = m x)"
  using assms
proof (induction "n - Suc i" arbitrary: i buffer sz m)
  case 0
  have n: "n = Suc i" "n \<le> 65536" using 0 unat_lt2p [of "hdr_prdtl m hdr"] by simp_all
  have eq: "set_prdts_from hdr table intr i buffer sz m = set_prdt_entry (prdt_entry table (int i)) intr (sz - 1) buffer m"
    using 0 n by (subst set_prdts_from.simps) simp
  show ?case
    unfolding eq using n set_entry_frame [of i n _ table intr "sz - 1" buffer m]
    by (auto simp: set_prdt_entry_read dest: le_antisym)
next
  case (Suc d)
  have n: "Suc i < n" "n \<le> 65536" using Suc.hyps(2) Suc.prems unat_lt2p [of "hdr_prdtl m hdr"] by simp_all
  let ?m = "set_prdt_entry (prdt_entry table (int i)) intr (0x200000 - 1) buffer m"
  have eq: "set_prdts_from hdr table intr i buffer sz m =
      set_prdts_from hdr table intr (Suc i) (buffer + 0x200000) (sz - 0x200000) ?m"
    using Suc.prems n by (subst set_prdts_from.simps) simp
  have frame: "x \<notin> entry_bytes table i n \<Longrightarrow> ?m x = m x" for x
    using set_entry_frame [of i n x table] n by simp
  have sub: "entry_bytes table (Suc i) n \<subseteq> entry_bytes table i n" "entry_bytes table i n \<subseteq> entry_bytes table 0 n"
    by (auto simp: entry_bytes_def)
  have "?m (hdr + 2) = m (hdr + 2)" "?m (hdr + 3) = m (hdr + 3)" using frame Suc.prems(3,4) sub by blast+
  then have "hdr_prdtl ?m hdr = hdr_prdtl m hdr" by (simp add: hdr_prdtl_def rd16_def add.commute [of hdr])
  then have IH: "(\<forall>k. Suc i \<le> k \<and> k < n \<longrightarrow>
        prdt_addr (set_prdts_from hdr table intr i buffer sz m) (prdt_entry table (int k)) =
          buffer + 0x200000 + of_nat (k - Suc i) * 0x200000 \<and>
        prdt_count (set_prdts_from hdr table intr i buffer sz m) (prdt_entry table (int k)) =
          (if Suc k < n then 0x200000 else unat ((sz - 0x200000 - of_nat (k - Suc i) * 0x200000 - 1) AND 0x3fffff) + 1) \<and>
        prdt_intr (set_prdts_from hdr table intr i buffer sz m) (prdt_entry table (int k)) = intr)"
    "\<And>x. x \<notin> entry_bytes table (Suc i) n \<Longrightarrow> set_prdts_from hdr table intr i buffer sz m x = ?m x"
    unfolding eq using Suc.hyps(1) [of "Suc i" ?m "buffer + 0x200000" "sz - 0x200000"] Suc.hyps(2) Suc.prems n by auto
  have "i < n" using n by simp
  note here = entry_kept [OF IH(2) this n(2)]
  have one: "unat (0x200000 - 1 AND 0x3fffff :: u32) + 1 = 0x200000" by simp
  show ?case
  proof (rule conjI; intro allI impI)
    fix k assume k: "i \<le> k \<and> k < n"
    show "prdt_addr (set_prdts_from hdr table intr i buffer sz m) (prdt_entry table (int k)) =
          buffer + of_nat (k - i) * 0x200000 \<and>
        prdt_count (set_prdts_from hdr table intr i buffer sz m) (prdt_entry table (int k)) =
          (if Suc k < n then 0x200000 else unat ((sz - of_nat (k - i) * 0x200000 - 1) AND 0x3fffff) + 1) \<and>
        prdt_intr (set_prdts_from hdr table intr i buffer sz m) (prdt_entry table (int k)) = intr"
    proof (cases "k = i")
      case True
      then show ?thesis using here set_prdt_entry_read one n(1) by (simp only: True) (simp add: here)
    next
      case False
      then have k': "Suc i \<le> k" "k < n" using k by simp_all
      then have "k - i = Suc (k - Suc i)" by simp
      then have e: "of_nat (k - i) * 0x200000 = 0x200000 + (of_nat (k - Suc i) * 0x200000 :: u64)"
        "of_nat (k - i) * 0x200000 = 0x200000 + (of_nat (k - Suc i) * 0x200000 :: u32)"
        by (simp_all only: of_nat_Suc distrib_right mult_1)
      have "Suc i \<le> k \<and> k < n" using k' by simp
      from IH(1) [rule_format, OF this] show ?thesis
        unfolding e by (simp only: add.assoc diff_diff_eq)
    qed
  next
    fix x assume x: "x \<notin> entry_bytes table i n"
    then have "x \<notin> entry_bytes table (Suc i) n" using sub by blast
    from IH(2) [OF this] frame [OF x] show "set_prdts_from hdr table intr i buffer sz m x = m x" by simp
  qed
qed

end
