(* ===== verification/Ahci_Transfer.thy ===== *)
theory Ahci_Transfer
  imports Ahci
begin

text \<open>
  Correctness of the AHCI driver's transfers. \<open>ahci_port\<close> is the interface of a port that executes its commands, against a
  specification of what a command does; on it the driver's reads and writes move the right bytes. The last section has
  the cases in which they do not.
\<close>

section \<open>What a command transfers\<close>

text \<open>The addresses of the bytes that the first \<open>n\<close> entries describe, in the order the controller transfers them.\<close>

definition prdt_bytes :: "memory \<Rightarrow> u64 \<Rightarrow> nat \<Rightarrow> u64 list" where
  "prdt_bytes m table n =
     concat (map (\<lambda>k. map (\<lambda>j. prdt_addr m (prdt_entry table (int k)) + of_nat j)
       [0..<prdt_count m (prdt_entry table (int k))]) [0..<n])"

text \<open>\<open>n\<close> bytes from an address on.\<close>

definition region :: "u64 \<Rightarrow> nat \<Rightarrow> u64 list" where
  "region a n = map (\<lambda>j. a + of_nat j) [0..<n]"

lemma region_add: "region a (m + n) = region a m @ region (a + of_nat m) n"
  by (rule nth_equalityI) (auto simp: region_def nth_append add.assoc simp flip: of_nat_add)

lemma prdt_bytes_Suc:
  "prdt_bytes m table (Suc n) = prdt_bytes m table n @
     region (prdt_addr m (prdt_entry table (int n))) (prdt_count m (prdt_entry table (int n)))"
  by (simp add: prdt_bytes_def region_def)

lemma prdt_bytes_full:
  assumes "\<And>k. k < n \<Longrightarrow> prdt_addr m (prdt_entry table (int k)) = buffer + of_nat k * 0x200000 \<and>
    prdt_count m (prdt_entry table (int k)) = 0x200000"
  shows "prdt_bytes m table n = region buffer (n * 0x200000)"
  using assms
proof (induction n)
  case 0
  show ?case by (simp add: prdt_bytes_def region_def)
next
  case (Suc n)
  have "Suc n * 0x200000 = n * 0x200000 + 0x200000" by simp
  then show ?case using Suc by (simp only: prdt_bytes_Suc region_add) simp
qed

lemma prdt_bytes_cong:
  assumes "\<And>i k. i < n \<Longrightarrow> k < 16 \<Longrightarrow>
    m (prdt_entry table (int i) + of_nat k) = m' (prdt_entry table (int i) + of_nat k)"
  shows "prdt_bytes m table n = prdt_bytes m' table n"
  using entry_cong [of m _ m'] assms by (auto simp: prdt_bytes_def intro!: arg_cong [where f = concat] map_cong)

lemma last_count:
  fixes sz :: u32
  assumes "k * 0x200000 < unat sz" "unat sz \<le> Suc k * 0x200000"
  shows "unat ((sz - of_nat k * 0x200000 - 1) AND 0x3fffff) + 1 = unat sz - k * 0x200000"
proof -
  have "k * 0x200000 < 2 ^ 32" using assms(1) unat_lt2p [of sz] by simp
  then have k: "unat (of_nat (k * 0x200000) :: u32) = k * 0x200000" by (simp add: unat_of_nat del: of_nat_mult)
  then have "(of_nat (k * 0x200000) :: u32) \<le> sz" using assms(1) by (simp add: word_le_nat_alt del: of_nat_mult)
  then have d: "unat (sz - of_nat (k * 0x200000)) = unat sz - k * 0x200000" by (simp add: unat_sub k del: of_nat_mult)
  then have "sz - of_nat (k * 0x200000) \<noteq> 0" using assms(1) by (auto simp del: of_nat_mult)
  then have e: "unat (sz - of_nat (k * 0x200000) - 1) = unat sz - k * 0x200000 - 1"
    by (metis One_nat_def d unat_minus_one)
  have "unat ((sz - of_nat (k * 0x200000) - 1) AND 0x3fffff) = take_bit 22 (unat (sz - of_nat (k * 0x200000) - 1))"
    by (simp add: mask_22 unsigned_take_bit_eq flip: take_bit_eq_mask)
  also have "\<dots> = unat sz - k * 0x200000 - 1"
    unfolding e using assms(2) by (intro take_bit_nat_eq_self) simp
  finally show ?thesis using assms(1) by simp
qed

lemma set_prdts_core:
  assumes n: "unat (hdr_prdtl m hdr) = Suc l"
    and sz: "l * 0x200000 < unat sz" "unat sz \<le> Suc l * 0x200000"
    and hdr: "hdr + 2 \<notin> entry_bytes table 0 (Suc l)" "hdr + 3 \<notin> entry_bytes table 0 (Suc l)"
  shows "prdt_bytes (set_prdts_from hdr table intr 0 buffer sz m) table (Suc l) = region buffer (unat sz)"
proof -
  let ?m = "set_prdts_from hdr table intr 0 buffer sz m"
  note r = set_prdts_from_result [OF n zero_less_Suc hdr, of intr buffer sz, THEN conjunct1, rule_format, simplified]
  have full: "prdt_bytes ?m table l = region buffer (l * 0x200000)"
    by (rule prdt_bytes_full) (use r in simp)
  have "prdt_count ?m (prdt_entry table (int l)) = unat sz - l * 0x200000"
    using r [of l] last_count [OF sz] by simp
  moreover have "prdt_addr ?m (prdt_entry table (int l)) = buffer + of_nat (l * 0x200000)" using r [of l] by simp
  moreover have "unat sz = l * 0x200000 + (unat sz - l * 0x200000)" using sz(1) by simp
  ultimately show ?thesis by (simp only: prdt_bytes_Suc full region_add [symmetric])
qed

section \<open>The command itself\<close>

text \<open>The fields of a command as the device reads them.\<close>

record fis_h2d =
  fis_type :: u8
  fis_pmport :: u8
  fis_c :: bool
  fis_cmd :: u8
  fis_feature :: u16
  fis_lba :: u64
  fis_device :: u8
  fis_count :: u16
  fis_icc :: u8
  fis_control :: u8

definition fis_at :: "memory \<Rightarrow> u64 \<Rightarrow> fis_h2d" where
  "fis_at m a =
     \<lparr>fis_type = m a, fis_pmport = m (a + 1) AND 0xf, fis_c = bit (m (a + 1)) 7, fis_cmd = m (a + 2),
      fis_feature = ucast (m (a + 3)) OR push_bit 8 (ucast (m (a + 11))),
      fis_lba = ucast (m (a + 4)) OR push_bit 8 (ucast (m (a + 5))) OR push_bit 16 (ucast (m (a + 6))) OR
        push_bit 24 (ucast (m (a + 8))) OR push_bit 32 (ucast (m (a + 9))) OR push_bit 40 (ucast (m (a + 10))),
      fis_device = m (a + 7), fis_count = ucast (m (a + 12)) OR push_bit 8 (ucast (m (a + 13))),
      fis_icc = m (a + 14), fis_control = m (a + 15)\<rparr>"

definition rw_command :: "bool \<Rightarrow> u64 \<Rightarrow> u64 \<Rightarrow> fis_h2d" where
  "rw_command write_cmd lba sector_count =
     \<lparr>fis_type = 0x27, fis_pmport = 0, fis_c = True, fis_cmd = (if write_cmd then 0x35 else 0x25), fis_feature = 0,
      fis_lba = take_bit 48 lba, fis_device = 0x40, fis_count = ucast sector_count, fis_icc = 0, fis_control = 0\<rparr>"

lemma fis_cong:
  assumes "\<And>k. k < 16 \<Longrightarrow> m (a + of_nat k) = m' (a + of_nat k)"
  shows "fis_at m a = fis_at m' a"
  using assms [of 0] assms [of 1] assms [of 2] assms [of 3] assms [of 4] assms [of 5] assms [of 6] assms [of 7]
    assms [of 8] assms [of 9] assms [of 10] assms [of 11] assms [of 12] assms [of 13] assms [of 14] assms [of 15]
  by (simp add: fis_at_def)

lemma mask_byte: "x AND 0xff = take_bit 8 x" for x :: u64
  by (simp add: take_bit_eq_mask mask_eq_exp_minus_1)

lemma low_byte: "(ucast (ucast (x AND 0xff) :: u8) :: u64) = take_bit 8 x" for x :: u64
  unfolding mask_byte by (rule bit_word_eqI) (auto simp: bit_simps)

lemma join_bits: "take_bit n x OR push_bit n (take_bit k (drop_bit n x)) = take_bit (n + k) x" for x :: u64
  by (rule bit_word_eqI) (auto simp: bit_simps)

lemma split_48:
  "(ucast (ucast (lba AND 0xff) :: u8) OR push_bit 8 (ucast (ucast (drop_bit 8 lba AND 0xff) :: u8)) OR
    push_bit 16 (ucast (ucast (drop_bit 16 lba AND 0xff) :: u8)) OR push_bit 24 (ucast (ucast (drop_bit 24 lba AND 0xff) :: u8)) OR
    push_bit 32 (ucast (ucast (drop_bit 32 lba AND 0xff) :: u8)) OR push_bit 40 (ucast (ucast (drop_bit 40 lba AND 0xff) :: u8)) :: u64)
   = take_bit 48 lba" for lba :: u64
  using join_bits [of 8 lba 8] join_bits [of 16 lba 8] join_bits [of 24 lba 8] join_bits [of 32 lba 8] join_bits [of 40 lba 8]
  by (simp only: low_byte or.assoc [symmetric]) simp

lemma split_16:
  "(ucast (ucast (c AND 0xff) :: u8) OR push_bit 8 (ucast (ucast (drop_bit 8 c AND 0xff) :: u8)) :: u16) = ucast c" for c :: u64
  unfolding mask_byte by (rule bit_word_eqI) (auto simp: bit_simps)

lemma fis_at_rw_fis: "fis_at (rw_fis fis write_cmd lba sector_count m) fis = rw_command write_cmd lba sector_count"
  by (simp add: fis_at_def rw_command_def rw_fis_def Let_def zero_bytes_apply split_48 split_16)

lemma rw_fis_other:
  assumes "20 \<le> unat (x - fis)"
  shows "rw_fis fis write_cmd lba sector_count m x = m x"
proof -
  have "x \<noteq> fis + of_nat k" if "k < 20" for k using assms that by (auto simp: unat_of_nat)
  from this [of 0] this [of 1] this [of 2] this [of 4] this [of 5] this [of 6] this [of 7] this [of 8] this [of 9]
    this [of 10] this [of 12] this [of 13]
  show ?thesis using assms by (simp add: rw_fis_def Let_def zero_bytes_apply)
qed

section \<open>A prepared command\<close>

text \<open>The 16 used bytes of the header do not meet the table with its 1024 entries.\<close>

definition apart :: "u64 \<Rightarrow> u64 \<Rightarrow> bool" where
  "apart hdr table \<longleftrightarrow> 16512 \<le> unat (hdr - table) \<and> unat (hdr - table) < 2 ^ 64 - 16"

lemma apart_offset:
  assumes "apart hdr table" "k < 16"
  shows "unat (hdr + of_nat k - table) = unat (hdr - table) + k"
proof -
  have "unat ((hdr - table) + of_nat k) = unat (hdr - table) + k"
    using assms by (subst unat_add_lem [THEN iffD1]) (simp_all add: apart_def unat_of_nat)
  then show ?thesis by (simp add: algebra_simps)
qed

lemma apart_bytes:
  assumes "apart hdr table" "k < 16"
  shows "hdr + of_nat k \<notin> entry_bytes table 0 1024" "20 \<le> unat (hdr + of_nat k - table)"
proof -
  have u: "16512 \<le> unat (hdr + of_nat k - table)" using assms by (simp add: apart_offset) (simp add: apart_def)
  then show "20 \<le> unat (hdr + of_nat k - table)" by simp
  have "unat (hdr + of_nat k - (table + 128)) = unat (hdr + of_nat k - table) - 128"
    using u by (simp add: unat_sub word_le_nat_alt flip: diff_diff_eq)
  then show "hdr + of_nat k \<notin> entry_bytes table 0 1024" using u by (simp add: entry_bytes_def)
qed

text \<open>The header before the entries are written.\<close>

definition rw_header :: "u64 \<Rightarrow> bool \<Rightarrow> u16 \<Rightarrow> memory \<Rightarrow> memory" where
  "rw_header hdr write_cmd n m = wr16 (hdr + 2) n (set_w write_cmd hdr (set_cfl 5 hdr m))"

lemma rw_header_other:
  "x \<noteq> hdr \<Longrightarrow> x \<noteq> hdr + 2 \<Longrightarrow> x \<noteq> hdr + 3 \<Longrightarrow> rw_header hdr w n m x = m x"
  by (simp add: rw_header_def wr16_apply set_w_def set_cfl_def add.commute [of hdr])

lemma rw_header:
  "hdr_prdtl (rw_header hdr w n m) hdr = n" "hdr_table (rw_header hdr w n m) hdr = hdr_table m hdr"
  "rw_header hdr w n m hdr AND 0x1f = 5" "bit (rw_header hdr w n m hdr) 6 = w"
proof -
  show "hdr_prdtl (rw_header hdr w n m) hdr = n" by (simp add: hdr_prdtl_def rw_header_def)
  have "rd32 (rw_header hdr w n m) (hdr + 8) = rd32 m (hdr + 8)" "rd32 (rw_header hdr w n m) (hdr + 12) = rd32 m (hdr + 12)"
    by (simp_all add: rd32_def rd16_def rw_header_other add.commute [of hdr])
  then show "hdr_table (rw_header hdr w n m) hdr = hdr_table m hdr" by (simp add: hdr_table_def)
  have h: "rw_header hdr w n m hdr = (((m hdr AND 0xe0) OR 5) AND 0xbf) OR (if w then 0x40 else 0)"
    by (simp add: rw_header_def wr16_apply set_w_def set_cfl_def add.commute [of hdr])
  show "rw_header hdr w n m hdr AND 0x1f = 5"
    unfolding h by (simp add: bit.conj_disj_distrib2 and.assoc)
  show "bit (rw_header hdr w n m hdr) 6 = w" unfolding h by (simp add: bit_simps)
qed

text \<open>The sectors of one command.\<close>

definition command_sectors :: "u64 \<Rightarrow> u64" where
  "command_sectors sector_count = min sector_count prdt_sectors"

lemma prdt_sectors_value: "prdt_sectors = 0x400000"
  by (simp add: prdt_sectors_def)

lemma rw_header_twice: "wr16 (hdr + 2) n (rw_header hdr w k m) = rw_header hdr w n m"
  by (simp add: rw_header_def fun_eq_iff wr16_apply)

lemma prepare_rw_unfold:
  "prepare_rw hdr lba sc buffer w m =
     (let c = command_sectors sc;
          n = (if sc > prdt_sectors then 1024 else ucast ((sc - 1) * 0x200 div 0x200000 + 1));
          m1 = rw_header hdr w n m
      in (ucast (sc - c), rw_fis (hdr_table m1 hdr) w lba c
            (set_prdts_from hdr (hdr_table m1 hdr) True 0 buffer (ucast (c * 0x200)) m1)))"
proof (cases "sc > prdt_sectors")
  case True
  then have "command_sectors sc = prdt_sectors" by (simp add: command_sectors_def min_absorb2 less_imp_le)
  with True show ?thesis
    by (simp add: prepare_rw_def set_prdts_def Let_def
        rw_header_twice flip: rw_header_def)
next
  case False
  then have "command_sectors sc = sc" by (simp add: command_sectors_def min_absorb1)
  with False show ?thesis
    by (simp add: prepare_rw_def set_prdts_def Let_def flip: rw_header_def)
qed

lemma command_entries:
  assumes "1 \<le> sc"
  shows "unat ((if sc > prdt_sectors then 1024 else ucast ((sc - 1) * 0x200 div 0x200000 + 1)) :: u16) =
    Suc ((unat (command_sectors sc) - 1) div 4096)"
    "unat (command_sectors sc) \<le> 0x400000" "1 \<le> unat (command_sectors sc)"
    "unat (ucast (command_sectors sc * 0x200) :: u32) = unat (command_sectors sc) * 512"
proof -
  let ?c = "unat (command_sectors sc)"
  show le: "?c \<le> 0x400000" by (simp add: command_sectors_def prdt_sectors_value min_def word_le_nat_alt)
  show "1 \<le> ?c" using assms by (simp add: command_sectors_def prdt_sectors_value min_def word_le_nat_alt)
  have "unat (command_sectors sc * 0x200) = ?c * 512"
    using le by (subst unat_mult_lem [THEN iffD1]) simp_all
  then show "unat (ucast (command_sectors sc * 0x200) :: u32) = ?c * 512"
    using le by (simp add: unsigned_ucast_eq take_bit_nat_eq_self)
  show "unat ((if sc > prdt_sectors then 1024 else ucast ((sc - 1) * 0x200 div 0x200000 + 1)) :: u16) = Suc ((?c - 1) div 4096)"
  proof (cases "sc > prdt_sectors")
    case True
    then show ?thesis by (simp add: command_sectors_def prdt_sectors_value min_def)
  next
    case False
    then have sc: "unat sc \<le> 0x400000" "command_sectors sc = sc"
      by (auto simp add: command_sectors_def prdt_sectors_value min_def word_le_nat_alt not_less)
    have "unat (sc - 1) = unat sc - 1" using assms by (intro unat_minus_one) auto
    then have "unat ((sc - 1) * 0x200) = (unat sc - 1) * 512"
      using sc by (subst unat_mult_lem [THEN iffD1]) simp_all
    then have "unat ((sc - 1) * 0x200 div 0x200000) = (unat sc - 1) div 4096"
      by (simp add: unat_div)
    moreover from this have "unat ((sc - 1) * 0x200 div 0x200000 + 1) = Suc ((unat sc - 1) div 4096)"
      using sc by (subst unat_add_lem [THEN iffD1]) simp_all
    moreover have "(unat sc - 1) div 4096 < 1024" using sc assms by (simp add: word_le_nat_alt)
    ultimately show ?thesis using False sc by (simp add: unsigned_ucast_eq take_bit_nat_eq_self)
  qed
qed

lemma entry_bytes_mono: "n \<le> k \<Longrightarrow> entry_bytes table 0 n \<subseteq> entry_bytes table 0 k"
  by (auto simp: entry_bytes_def)

lemma prepare_rw_core:
  assumes table: "apart hdr (hdr_table m hdr)" and sc: "1 \<le> sc"
    and r: "prepare_rw hdr lba sc buffer w m = (rest, m')"
  shows "rest = ucast (sc - command_sectors sc) \<and> hdr_table m' hdr = hdr_table m hdr \<and>
    m' hdr AND 0x1f = 5 \<and> bit (m' hdr) 6 = w \<and>
    prdt_bytes m' (hdr_table m hdr) (unat (hdr_prdtl m' hdr)) = region buffer (unat (command_sectors sc) * 512) \<and>
    fis_at m' (hdr_table m hdr) = rw_command w lba (command_sectors sc)"
proof -
  define c where "c = unat (command_sectors sc)"
  define n :: u16 where "n = (if sc > prdt_sectors then 1024 else ucast ((sc - 1) * 0x200 div 0x200000 + 1))"
  define m1 where "m1 = rw_header hdr w n m"
  let ?t = "hdr_table m hdr"
  define m2 where "m2 = set_prdts_from hdr ?t True 0 buffer (ucast (command_sectors sc * 0x200)) m1"
  note e = command_entries [OF sc, folded c_def n_def]
  have t: "hdr_table m1 hdr = ?t" by (simp add: m1_def rw_header)
  have r': "rest = ucast (sc - command_sectors sc)" "m' = rw_fis ?t w lba (command_sectors sc) m2"
    using r by (simp_all add: prepare_rw_unfold Let_def m1_def [symmetric] n_def [symmetric] t m2_def [symmetric])
  have nl: "unat (hdr_prdtl m1 hdr) = Suc ((c - 1) div 4096)" using e(1) by (simp add: m1_def rw_header)
  have "Suc ((c - 1) div 4096) \<le> 1024" using e(2,3) by simp
  from entry_bytes_mono [OF this, of ?t]
  have out: "hdr + of_nat k \<notin> entry_bytes ?t 0 (Suc ((c - 1) div 4096))" if "k < 16" for k
    using apart_bytes(1) [OF table that] by blast
  have o2: "hdr + 2 \<notin> entry_bytes ?t 0 (Suc ((c - 1) div 4096))" "hdr + 3 \<notin> entry_bytes ?t 0 (Suc ((c - 1) div 4096))"
    using out [of 2] out [of 3] by simp_all
  have keep: "m' (hdr + of_nat k) = m1 (hdr + of_nat k)" if "k < 16" for k
    unfolding r' m2_def using apart_bytes(2) [OF table that] out [OF that]
      set_prdts_from_result [OF nl zero_less_Suc o2] by (simp add: rw_fis_other)
  have "hdr_prdtl m' hdr = hdr_prdtl m1 hdr"
    using keep [of 2] keep [of 3] by (simp add: hdr_prdtl_def rd16_def add.commute [of hdr])
  have "rd32 m' (hdr + of_nat j) = rd32 m1 (hdr + of_nat j)" if "j \<le> 12" for j
    by (rule rd32_cong) (use keep that in \<open>simp add: add.assoc flip: of_nat_add\<close>)
  from this [of 8] this [of 12] have "hdr_table m' hdr = hdr_table m1 hdr" by (simp add: hdr_table_def)
  then have "hdr_table m' hdr = ?t" using t by simp
  moreover have "m' hdr = m1 hdr" using keep [of 0] by simp
  moreover have "prdt_bytes m2 ?t (Suc ((c - 1) div 4096)) = region buffer (c * 512)"
    unfolding m2_def by (subst set_prdts_core [OF nl _ _ o2]) (use e in simp_all)
  moreover have "prdt_bytes m' ?t (Suc ((c - 1) div 4096)) = prdt_bytes m2 ?t (Suc ((c - 1) div 4096))"
  proof (rule prdt_bytes_cong)
    fix i k assume "i < Suc ((c - 1) div 4096)" "k < (16 :: nat)"
    moreover have "prdt_entry ?t (int i) + of_nat k - ?t = of_nat (128 + (16 * i + k))"
      by (simp add: prdt_entry_def)
    ultimately have "unat (prdt_entry ?t (int i) + of_nat k - ?t) = 128 + (16 * i + k)"
      using e(2,3) by (simp add: unat_of_nat del: of_nat_mult of_nat_add)
    then show "m' (prdt_entry ?t (int i) + of_nat k) = m2 (prdt_entry ?t (int i) + of_nat k)"
      unfolding r' by (intro rw_fis_other) simp
  qed
  ultimately show ?thesis
    using r' nl \<open>hdr_prdtl m' hdr = _\<close> by (simp add: m1_def rw_header fis_at_rw_fis c_def)
qed

section \<open>A port that executes commands\<close>

text \<open>
  What the controller does with the command in a header, as the specification of AHCI and the two ATA commands (read and
  write with direct memory access, 48-bit addresses) have it: as many sectors as the count says (0 stands for 65536) move
  between the disk and the bytes that the entries describe.
\<close>

definition store :: "u64 list \<Rightarrow> (nat \<Rightarrow> u8) \<Rightarrow> memory \<Rightarrow> memory" where
  "store as f m = fold (\<lambda>i m. m(as ! i := f i)) [0..<length as] m"

definition run_command :: "u64 \<Rightarrow> memory \<Rightarrow> (nat \<Rightarrow> u8) \<Rightarrow> memory \<times> (nat \<Rightarrow> u8)" where
  "run_command hdr m d =
     (let fis = fis_at m (hdr_table m hdr);
          n = 512 * (if fis_count fis = 0 then 65536 else unat (fis_count fis));
          off = 512 * unat (fis_lba fis);
          as = take n (prdt_bytes m (hdr_table m hdr) (unat (hdr_prdtl m hdr)))
      in if fis_cmd fis = 0x25 then (store as (\<lambda>i. d (off + i)) m, d)
         else if fis_cmd fis = 0x35 then (m, \<lambda>k. if off \<le> k \<and> k < off + length as then m (as ! (k - off)) else d k)
         else (m, d))"

lemma length_region [simp]: "length (region a n) = n"
  by (simp add: region_def)

lemma region_nth [simp]: "i < n \<Longrightarrow> region a n ! i = a + of_nat i"
  by (simp add: region_def)

lemma in_region: "n \<le> 2 ^ 64 \<Longrightarrow> x \<in> set (region a n) \<longleftrightarrow> unat (x - a) < n"
proof
  assume n: "n \<le> 2 ^ 64" and "x \<in> set (region a n)"
  then obtain i where "i < n" "x = a + of_nat i" by (auto simp: region_def)
  then show "unat (x - a) < n" using n by (simp add: unat_of_nat)
next
  assume less: "unat (x - a) < n"
  then have "region a n ! unat (x - a) = x" by simp
  with less show "x \<in> set (region a n)" by (metis length_region nth_mem)
qed

lemma regions_disjoint:
  assumes "unat a + n \<le> unat b" "unat b + k \<le> 2 ^ 64"
  shows "set (region a n) \<inter> set (region b k) = {}"
proof -
  have "a + of_nat i \<noteq> b + of_nat j" if "i < n" "j < k" for i j
  proof
    assume eq: "a + of_nat i = b + of_nat j"
    have "unat (a + of_nat i) = unat a + i" "unat (b + of_nat j) = unat b + j"
      using assms that by (simp_all add: unat_word_ariths unat_of_nat)
    then show False using eq assms that by simp
  qed
  then show ?thesis by (auto simp: region_def)
qed

lemma store_region:
  assumes "n \<le> 2 ^ 64"
  shows "store (region a n) f m x = (if unat (x - a) < n then f (unat (x - a)) else m x)"
proof -
  have "store (region a n) f m = fold (\<lambda>i m. m(a + of_nat i := f i)) [0..<n] m"
    unfolding store_def length_region by (rule fold_cong) simp_all
  then show ?thesis using fold_update_offset [OF assms, of a f m x] by simp
qed

lemma copy_bytes_apply:
  assumes "n \<le> 2 ^ 64" "set (region src n) \<inter> set (region dst n) = {}"
  shows "copy_bytes dst src n m x = (if unat (x - dst) < n then m (src + of_nat (unat (x - dst))) else m x)"
proof -
  have sep: "src + of_nat i \<noteq> dst + of_nat j" if "i < n" "j < n" for i j
  proof
    assume eq: "src + of_nat i = dst + of_nat j"
    have "src + of_nat i \<in> set (region src n)" using that by (metis length_region nth_mem region_nth)
    moreover have "src + of_nat i \<in> set (region dst n)" unfolding eq using that by (metis length_region nth_mem region_nth)
    ultimately show False using assms(2) by blast
  qed
  have "copy_bytes dst src k m = fold (\<lambda>i m'. m'(dst + of_nat i := m (src + of_nat i))) [0..<k] m \<and>
    (\<forall>j<n. copy_bytes dst src k m (src + of_nat j) = m (src + of_nat j))" if "k \<le> n" for k
    using that
  proof (induction k)
    case (Suc k)
    then show ?case using sep by (auto simp: copy_bytes_def)
  qed (simp add: copy_bytes_def)
  then show ?thesis using fold_update_offset [OF assms(1), of dst "\<lambda>i. m (src + of_nat i)" m x] by simp
qed

text \<open>
  The interface: memory that the processor and the controller share, registers of a port that are not busy, and
  execution of the command whose bit is written to the issue register before the register is read again.
\<close>

locale ahci_port = shared_memory +
  fixes H :: "'a hw" and port :: u64 and ready :: "'a \<Rightarrow> bool" and cmd_list :: "'a \<Rightarrow> u64"
    and disk :: "'a \<Rightarrow> nat \<Rightarrow> u8"
  assumes read_list: "ready h \<Longrightarrow> mmio_read H (port + 0x00) h = (ucast (cmd_list h), h)"
      "ready h \<Longrightarrow> mmio_read H (port + 0x04) h = (ucast (drop_bit 32 (cmd_list h)), h)"
    and read_idle: "ready h \<Longrightarrow> mmio_read H (port + 0x34) h = (0, h)" "ready h \<Longrightarrow> mmio_read H (port + 0x38) h = (0, h)"
      "ready h \<Longrightarrow> fst (mmio_read H (port + 0x20) h) AND 0x88 = 0" "ready h \<Longrightarrow> snd (mmio_read H (port + 0x20) h) = h"
    and with_mem_keeps: "ready (with_mem M m h) = ready h" "cmd_list (with_mem M m h) = cmd_list h"
      "disk (with_mem M m h) = disk h"
    and issue: "ready h \<Longrightarrow> slot < 32 \<Longrightarrow> ready (mmio_write H (port + 0x38) (push_bit slot 1) h) \<and>
      cmd_list (mmio_write H (port + 0x38) (push_bit slot 1) h) = cmd_list h \<and>
      (mem_of M (mmio_write H (port + 0x38) (push_bit slot 1) h), disk (mmio_write H (port + 0x38) (push_bit slot 1) h)) =
        run_command (cmd_list h + of_nat slot * 32) (mem_of M h) (disk h)"

section \<open>Transfers\<close>

text \<open>A driver's buffer lies outside the command header and its table.\<close>

definition clear_of :: "u64 \<Rightarrow> u64 \<Rightarrow> u64 list \<Rightarrow> bool" where
  "clear_of hdr table as \<longleftrightarrow> set as \<inter> (set (region hdr 16) \<union> set (region table 16512)) = {}"

lemma prepare_rw_frame:
  assumes sc: "1 \<le> sc" and table: "apart hdr (hdr_table m hdr)"
    and r: "prepare_rw hdr lba sc buffer w m = (rest, m')" and x: "clear_of hdr (hdr_table m hdr) as" "x \<in> set as"
  shows "m' x = m x"
proof -
  define n :: u16 where "n = (if sc > prdt_sectors then 1024 else ucast ((sc - 1) * 0x200 div 0x200000 + 1))"
  let ?t = "hdr_table m hdr" and ?m1 = "rw_header hdr w n m" and ?l = "(unat (command_sectors sc) - 1) div 4096"
  note e = command_entries [OF sc, folded n_def]
  have away: "16 \<le> unat (x - hdr)" "16512 \<le> unat (x - ?t)"
    using x by (auto simp: clear_of_def in_region disjoint_iff not_less)
  have m': "m' = rw_fis ?t w lba (command_sectors sc)
      (set_prdts_from hdr ?t True 0 buffer (ucast (command_sectors sc * 0x200)) ?m1)"
    using r by (simp add: prepare_rw_unfold Let_def n_def [symmetric] rw_header)
  have nl: "unat (hdr_prdtl ?m1 hdr) = Suc ?l" using e(1) by (simp add: rw_header)
  have l: "Suc ?l \<le> 1024" using e(2,3) by simp
  have o2: "hdr + 2 \<notin> entry_bytes ?t 0 (Suc ?l)" "hdr + 3 \<notin> entry_bytes ?t 0 (Suc ?l)"
    using apart_bytes(1) [OF table, of 2] apart_bytes(1) [OF table, of 3] entry_bytes_mono [OF l, of ?t] by auto
  have "unat (x - (?t + 128)) = unat (x - ?t) - 128"
    using away(2) by (simp add: unat_sub word_le_nat_alt flip: diff_diff_eq)
  then have "x \<notin> entry_bytes ?t 0 (Suc ?l)" using away(2) l by (simp add: entry_bytes_def)
  then have "m' x = ?m1 x"
    unfolding m' using away(2) set_prdts_from_result [OF nl zero_less_Suc o2] by (simp add: rw_fis_other)
  moreover have "x \<noteq> hdr" "x \<noteq> hdr + 2" "x \<noteq> hdr + 3" using away(1) by auto
  ultimately show ?thesis by (simp add: rw_header_other)
qed

lemma small_command:
  assumes "1 \<le> sc" "unat sc \<le> 65535"
  shows "command_sectors sc = sc" "(ucast sc :: u16) \<noteq> 0" "unat (ucast sc :: u16) = unat sc"
proof -
  show "command_sectors sc = sc"
    using assms by (simp add: command_sectors_def prdt_sectors_value min_def word_le_nat_alt)
  show u: "unat (ucast sc :: u16) = unat sc" using assms by (simp add: unsigned_ucast_eq take_bit_nat_eq_self)
  then show "(ucast sc :: u16) \<noteq> 0" using assms by (metis unat_0 word_le_nat_alt unat_1 not_one_le_zero)
qed

lemma run_prepared:
  assumes "apart hdr (hdr_table m hdr)" "1 \<le> sc" "unat sc \<le> 65535" "lba < 0x1000000000000"
    and "prepare_rw hdr lba sc buffer w m = (rest, m')"
  shows "rest = 0"
    "run_command hdr m' d =
       (if w then (m', \<lambda>k. if 512 * unat lba \<le> k \<and> k < 512 * unat lba + 512 * unat sc
                            then m' (buffer + of_nat (k - 512 * unat lba)) else d k)
        else (store (region buffer (512 * unat sc)) (\<lambda>i. d (512 * unat lba + i)) m', d))"
proof -
  note c = small_command [OF assms(2,3)]
  note p = prepare_rw_core [OF assms(1,2,5), unfolded c]
  show "rest = 0" using p by simp
  have "unat (take_bit 48 lba) = unat lba"
    using assms(4) by (simp add: unsigned_take_bit_eq take_bit_nat_eq_self word_less_nat_alt)
  then have "take_bit 48 lba = lba" by (rule unsigned_word_eqI)
  with p c have f: "fis_at m' (hdr_table m' hdr) = rw_command w lba sc" "fis_lba (rw_command w lba sc) = lba"
    "fis_count (rw_command w lba sc) \<noteq> 0" "unat (fis_count (rw_command w lba sc)) = unat sc"
    "fis_cmd (rw_command w lba sc) = (if w then 0x35 else 0x25)"
    "prdt_bytes m' (hdr_table m' hdr) (unat (hdr_prdtl m' hdr)) = region buffer (512 * unat sc)"
    by (simp_all add: rw_command_def mult.commute)
  show "run_command hdr m' d =
       (if w then (m', \<lambda>k. if 512 * unat lba \<le> k \<and> k < 512 * unat lba + 512 * unat sc
                            then m' (buffer + of_nat (k - 512 * unat lba)) else d k)
        else (store (region buffer (512 * unat sc)) (\<lambda>i. d (512 * unat lba + i)) m', d))"
    unfolding run_command_def Let_def f using f(3) by (auto simp: fun_eq_iff)
qed

context ahci_port
begin

lemma free_slot: "ready h \<Longrightarrow> k \<noteq> 0 \<Longrightarrow> find_cmd_slot H k port h = (Some 0, h)"
proof -
  assume "ready h" "k \<noteq> 0"
  then have "[0..<unat k] = 0 # [1..<unat k]" by (simp add: upt_conv_Cons unat_gt_0)
  with \<open>ready h\<close> show ?thesis by (simp add: find_cmd_slot_def read_idle)
qed

lemma header: "ready h \<Longrightarrow> cmd_header H port slot h = (cmd_list h + ucast slot * 32, h)"
  using read_list [of h] by (simp add: cmd_header_def read64_def join_64)

lemma not_busy:
  assumes "snd (mmio_read H a h) = h" "\<not> busy (fst (mmio_read H a h))"
  shows "poll H a busy h = Some h"
  using assms by (subst poll.simps) (simp add: prod.case_eq_if)

lemma sent:
  assumes "ready h" "unat slot < 32"
  shows "send_cmd H port slot h = Some (mmio_write H (port + 0x38) (push_bit (unat slot) 1) h)"
proof -
  have "ready (mmio_write H (port + 0x38) (push_bit (unat slot) 1) h)" using issue [OF assms] by simp
  from read_idle(2) [OF this] read_idle(3,4) [OF assms(1)] show ?thesis
    by (simp add: send_cmd_def not_busy)
qed

lemma one_command:
  assumes "ready h" "dev_port dev = port" "dev_cmd_slots dev \<noteq> 0"
    and "prepare_rw (cmd_list h) lba sc buffer w (mem_of M h) = (rest, m')"
  shows "\<exists>h'. send_rw_cmd H M lba sc buffer w dev h = Some (ucast rest, h') \<and> ready h' \<and> cmd_list h' = cmd_list h \<and>
    (mem_of M h', disk h') = run_command (cmd_list h) m' (disk h)"
proof -
  let ?h = "with_mem M m' h"
  have r: "ready ?h" using assms(1) with_mem_keeps(1) by simp
  have "unat (0 :: u32) < 32" by simp
  from issue [OF r this] sent [OF r this] show ?thesis
    using assms by (simp add: send_rw_cmd_def free_slot header with_mem_keeps mem_with)
qed

lemma transfer:
  assumes "ready h" "dev_port dev = port" "dev_cmd_slots dev \<noteq> 0"
    and "apart (cmd_list h) (hdr_table (mem_of M h) (cmd_list h))"
    and "1 \<le> sc" "unat sc \<le> 65535" "lba < 0x1000000000000"
    and "prepare_rw (cmd_list h) lba sc buffer w (mem_of M h) = (rest, m')"
  shows "\<exists>h'. send_rw_cmds H M lba sc buffer w dev h = Some (True, h') \<and> ready h' \<and> cmd_list h' = cmd_list h \<and>
    (mem_of M h', disk h') = run_command (cmd_list h) m' (disk h)"
proof -
  have "rest = 0" by (rule run_prepared(1) [OF assms(4-8)])
  then have "send_rw_rest H M lba (ucast rest) buffer w dev h' = Some h'" for h'
    by (subst send_rw_rest.simps) simp
  then show ?thesis using one_command [OF assms(1-3,8)] by (auto simp: send_rw_cmds_def)
qed

end

section \<open>A machine with one disk\<close>

record sata =
  sata_mem :: memory
  sata_list :: u64
  sata_disk :: "nat \<Rightarrow> u8"

definition sata_ram :: "sata ram" where
  "sata_ram = \<lparr>mem_of = sata_mem, with_mem = (\<lambda>m h. h\<lparr>sata_mem := m\<rparr>)\<rparr>"

definition sata_run :: "nat \<Rightarrow> sata \<Rightarrow> sata" where
  "sata_run slot h =
     (case run_command (sata_list h + of_nat slot * 32) (sata_mem h) (sata_disk h) of
        (m, d) \<Rightarrow> h\<lparr>sata_mem := m, sata_disk := d\<rparr>)"

definition sata_hw :: "u64 \<Rightarrow> sata hw" where
  "sata_hw p =
     \<lparr>mmio_read = (\<lambda>a h. (if a = p then ucast (sata_list h)
                          else if a = p + 0x04 then ucast (drop_bit 32 (sata_list h)) else 0, h)),
      mmio_write = (\<lambda>a v h. if a = p + 0x38 then fold sata_run (filter (bit v) [0..<32]) h else h),
      port_in = (\<lambda>port h. (0, h)), port_out = (\<lambda>port v h. h),
      port_in32 = (\<lambda>port h. (0, h)), port_out32 = (\<lambda>port v h. h),
      rdmsr = (\<lambda>msr h. ((0, 0), h)), wrmsr = (\<lambda>msr high low h. h), interrupt_flag = (\<lambda>b h. h)\<rparr>"

lemma filter_one: "filter ((=) k) [0..<n] = (if k < n then [k] else [])"
  by (induction n) auto

interpretation sata: ahci_port sata_ram "sata_hw p" p "\<lambda>_. True" sata_list sata_disk
proof unfold_locales
  fix h :: sata and slot :: nat
  assume "slot < 32"
  then have "filter (bit (push_bit slot 1 :: u32)) [0..<32] = filter ((=) slot) [0..<32]"
    by (intro filter_cong) (auto simp: bit_simps)
  then have "mmio_write (sata_hw p) (p + 0x38) (push_bit slot 1) h = sata_run slot h"
    using \<open>slot < 32\<close> by (simp add: sata_hw_def filter_one)
  then show "True \<and> sata_list (mmio_write (sata_hw p) (p + 0x38) (push_bit slot 1) h) = sata_list h \<and>
      (mem_of sata_ram (mmio_write (sata_hw p) (p + 0x38) (push_bit slot 1) h),
       sata_disk (mmio_write (sata_hw p) (p + 0x38) (push_bit slot 1) h)) =
        run_command (sata_list h + of_nat slot * 32) (mem_of sata_ram h) (sata_disk h)"
    by (simp add: sata_run_def sata_ram_def split: prod.splits)
qed (simp_all add: sata_hw_def sata_ram_def)

text \<open>The command list is at 0x1000, its first table at 0x2000; byte \<open>i\<close> of the disk is \<open>i\<close> modulo 251.\<close>

definition sata_sample :: sata where
  "sata_sample = \<lparr>sata_mem = (\<lambda>a. ucast (a * 7))(0x1008 := 0, 0x1009 := 0x20, 0x100a := 0, 0x100b := 0,
      0x100c := 0, 0x100d := 0, 0x100e := 0, 0x100f := 0),
     sata_list = 0x1000, sata_disk = (\<lambda>i. of_nat (i mod 251))\<rparr>"

definition sata_dev :: ahci_dev where
  "sata_dev = \<lparr>dev_port = 0xfe000100, dev_cmd_slots = 31, dev_sector_count = 100, serial_num = 0, firmware = 0, model_num = 0\<rparr>"

lemma sata_sample_apart: "hdr_table (sata_mem sata_sample) 0x1000 = 0x2000" "apart 0x1000 0x2000"
  by (simp_all add: sata_sample_def hdr_table_def rd32_def rd16_def apart_def)

lemma sata_clear:
  assumes "0x6080 \<le> unat a" "unat a + n \<le> 2 ^ 64"
  shows "clear_of 0x1000 0x2000 (region a n)"
  using regions_disjoint [of "0x1000" 16 a n] regions_disjoint [of "0x2000" 16512 a n] assms
  by (auto simp: clear_of_def)

section \<open>Correctness of commands\<close>

text \<open>C26:
  The command for a transfer of at most 2 GiB (4194304 sectors). The header asks for a command of five words in the
  right direction, the entries it counts describe exactly the bytes of the buffer in order, the command carries the
  address modulo 2^48 and the number of sectors modulo 2^16, and the sectors above 4194304 are left over.
\<close>

theorem prepare_rw_command:
  assumes "apart hdr (hdr_table m hdr)" "1 \<le> sector_count"
    and "prepare_rw hdr lba sector_count buffer write_cmd m = (rest, m')"
  shows "rest = ucast (sector_count - command_sectors sector_count) \<and>
    m' hdr AND 0x1f = 5 \<and> bit (m' hdr) 6 = write_cmd \<and> hdr_table m' hdr = hdr_table m hdr \<and>
    prdt_bytes m' (hdr_table m hdr) (unat (hdr_prdtl m' hdr)) =
      region buffer (unat (command_sectors sector_count) * 512) \<and>
    fis_at m' (hdr_table m hdr) = rw_command write_cmd lba (command_sectors sector_count)"
  using prepare_rw_core [OF assms] by simp

theorem prepare_rw_command_witness:
  "fis_at (snd (prepare_rw 0x1000 7 3 0x9000 True (sata_mem sata_sample))) 0x2000 = rw_command True 7 3"
proof -
  have "command_sectors 3 = 3" by (rule small_command) simp_all
  with prepare_rw_command [OF _ _ prod.collapse [symmetric], of "0x1000" "sata_mem sata_sample" 3 7 "0x9000" True]
  show ?thesis using sata_sample_apart by simp
qed

text \<open>C23:
  Sectors that are written are read back. On a port that executes its commands, writing up to 65535 sectors from one
  buffer and reading them into another delivers the bytes of the first; the disk holds them, and no other byte of
  the disk changes.
\<close>

theorem send_rw_roundtrip:
  assumes port: "ahci_port M H (dev_port dev) ready cmd_list disk"
    and h: "ready h" "dev_cmd_slots dev \<noteq> 0" "cmd_list h = hdr" "hdr_table (mem_of M h) hdr = table" "apart hdr table"
    and n: "1 \<le> n" "unat n \<le> 65535" "lba < 0x1000000000000"
    and src: "clear_of hdr table (region src (512 * unat n))"
    and dst: "clear_of hdr table (region dst (512 * unat n))"
  shows "\<exists>h1 h2. send_rw_cmds H M lba n src True dev h = Some (True, h1) \<and>
    send_rw_cmds H M lba n dst False dev h1 = Some (True, h2) \<and>
    (\<forall>i < 512 * unat n. mem_of M h2 (dst + of_nat i) = mem_of M h (src + of_nat i)) \<and>
    (\<forall>k. disk h2 k = (if 512 * unat lba \<le> k \<and> k < 512 * unat lba + 512 * unat n
                      then mem_of M h (src + of_nat (k - 512 * unat lba)) else disk h k))"
proof -
  obtain r m1 where w: "prepare_rw hdr lba n src True (mem_of M h) = (r, m1)" by (metis surj_pair)
  note p = prepare_rw_core [of hdr "mem_of M h", unfolded h, OF h(5) n(1) w]
  from ahci_port.transfer [OF port h(1) refl h(2) _ n, unfolded h, OF h(5) w]
  obtain h1 where h1: "send_rw_cmds H M lba n src True dev h = Some (True, h1)" "ready h1" "cmd_list h1 = hdr"
    "(mem_of M h1, disk h1) = run_command hdr m1 (disk h)" by auto
  then have h1': "mem_of M h1 = m1" "disk h1 = (\<lambda>k. if 512 * unat lba \<le> k \<and> k < 512 * unat lba + 512 * unat n
      then m1 (src + of_nat (k - 512 * unat lba)) else disk h k)"
    using run_prepared(2) [OF _ n w, unfolded h, OF h(5), of "disk h"] by simp_all
  have table: "hdr_table (mem_of M h1) hdr = table" using p h1' by simp
  obtain r2 m2 where w2: "prepare_rw hdr lba n dst False (mem_of M h1) = (r2, m2)" by (metis surj_pair)
  from ahci_port.transfer [OF port h1(2) refl h(2) _ n, unfolded h1(3) table, OF h(5) w2]
  obtain h2 where h2: "send_rw_cmds H M lba n dst False dev h1 = Some (True, h2)"
    "(mem_of M h2, disk h2) = run_command hdr m2 (disk h1)" by auto
  then have h2': "mem_of M h2 = store (region dst (512 * unat n)) (\<lambda>i. disk h1 (512 * unat lba + i)) m2" "disk h2 = disk h1"
    using run_prepared(2) [OF _ n w2, unfolded table, OF h(5), of "disk h1"] by simp_all
  have same: "m1 (src + of_nat i) = mem_of M h (src + of_nat i)" if "i < 512 * unat n" for i
    using prepare_rw_frame [OF n(1) _ w, unfolded h, OF h(5) src] that
    by (metis length_region nth_mem region_nth)
  have "mem_of M h2 (dst + of_nat i) = mem_of M h (src + of_nat i)" if "i < 512 * unat n" for i
    using n that same [OF that] by (simp add: h2' store_region unat_of_nat h1')
  moreover have "disk h2 k = (if 512 * unat lba \<le> k \<and> k < 512 * unat lba + 512 * unat n
      then mem_of M h (src + of_nat (k - 512 * unat lba)) else disk h k)" for k
    using same [of "k - 512 * unat lba"] unfolding h2'(2) h1'(2) by auto
  ultimately show ?thesis using h1(1) h2(1) by blast
qed

theorem send_rw_roundtrip_witness:
  "\<exists>h1 h2. send_rw_cmds (sata_hw 0xfe000100) sata_ram 5 2 0x9000 True sata_dev sata_sample = Some (True, h1) \<and>
     send_rw_cmds (sata_hw 0xfe000100) sata_ram 5 2 0xc000 False sata_dev h1 = Some (True, h2) \<and>
     sata_mem h2 0xc001 = 7 \<and> sata_disk h2 2561 = 7"
proof -
  have p: "ahci_port sata_ram (sata_hw 0xfe000100) (dev_port sata_dev) (\<lambda>_. True) sata_list sata_disk"
    using sata.ahci_port_axioms [of "0xfe000100"] by (simp add: sata_dev_def)
  have h: "dev_cmd_slots sata_dev \<noteq> 0" "sata_list sata_sample = 0x1000"
    "hdr_table (mem_of sata_ram sata_sample) 0x1000 = 0x2000"
    using sata_sample_apart by (simp_all add: sata_dev_def sata_sample_def sata_ram_def)
  have n: "1 \<le> (2 :: u64)" "unat (2 :: u64) \<le> 65535" "(5 :: u64) < 0x1000000000000" by simp_all
  have c: "clear_of 0x1000 0x2000 (region 0x9000 (512 * unat (2 :: u64)))"
    "clear_of 0x1000 0x2000 (region 0xc000 (512 * unat (2 :: u64)))" by (rule sata_clear; simp)+
  obtain h1 h2 where
    "send_rw_cmds (sata_hw 0xfe000100) sata_ram 5 2 0x9000 True sata_dev sata_sample = Some (True, h1)"
    "send_rw_cmds (sata_hw 0xfe000100) sata_ram 5 2 0xc000 False sata_dev h1 = Some (True, h2)"
    and b: "\<forall>i < 512 * unat (2 :: u64). mem_of sata_ram h2 (0xc000 + of_nat i) = mem_of sata_ram sata_sample (0x9000 + of_nat i)"
    and d: "\<forall>k. sata_disk h2 k = (if 512 * unat (5 :: u64) \<le> k \<and> k < 512 * unat (5 :: u64) + 512 * unat (2 :: u64)
        then mem_of sata_ram sata_sample (0x9000 + of_nat (k - 512 * unat (5 :: u64))) else sata_disk sata_sample k)"
    using send_rw_roundtrip [OF p TrueI h sata_sample_apart(2) n c] by auto
  moreover from b have "sata_mem h2 0xc001 = 7" by (auto simp: sata_ram_def sata_sample_def dest: spec [of _ 1])
  moreover from d have "sata_disk h2 2561 = 7" by (simp add: sata_ram_def sata_sample_def)
  ultimately show ?thesis by blast
qed

lemma frames_of_size: "(x AND NOT (4096 - 1)) div 4096 = x div (4096 :: u64)"
proof -
  have d: "y div 4096 = drop_bit 12 y" for y :: u64 by (simp add: drop_bit_eq_div)
  have m: "(4096 - 1 :: u64) = mask 12" by (simp add: mask_eq_exp_minus_1)
  show ?thesis unfolding d m by (rule bit_word_eqI) (auto simp: bit_simps dest: bit_imp_le_length)
qed

lemma clip_size_value:
  assumes "unat start + unat sz < 2 ^ 64" "dev_sector_count dev \<le> 0x1000000000000"
    and "unat start < unat (dev_sector_count dev) * 512"
  shows "unat (clip_size start sz dev) = min (unat sz) (unat (dev_sector_count dev) * 512 - unat start)"
proof -
  have t: "unat (dev_sector_count dev * 0x200) = unat (dev_sector_count dev) * 512"
    using assms(2) by (subst unat_mult_lem [THEN iffD1]) (simp_all add: word_le_nat_alt)
  have a: "unat (start + sz) = unat start + unat sz"
    using assms(1) by (subst unat_add_lem [THEN iffD1]) simp_all
  have "unat (dev_sector_count dev * 0x200 - start) = unat (dev_sector_count dev) * 512 - unat start"
    using assms(3) by (subst unat_sub) (simp_all add: word_le_nat_alt t)
  then show ?thesis using assms(3) by (auto simp: clip_size_def word_le_nat_alt t a)
qed

text \<open>C22:
  Reading delivers the disk's bytes. On a port that executes its commands, a read of up to 65535 sectors copies the
  disk's bytes from \<open>start\<close> on into the buffer, as many as requested and the disk has, returns their number, leaves the
  disk unchanged and frees the frames it took for the transfer.
\<close>

theorem ahci_read_sound:
  assumes port: "ahci_port M H (dev_port dev) ready cmd_list disk"
    and h: "ready h" "dev_cmd_slots dev \<noteq> 0" "cmd_list h = hdr" "hdr_table (mem_of M h) hdr = table" "apart hdr table"
    and sz: "unat start + unat sz < 2 ^ 64" "dev_sector_count dev \<le> 0x1000000000000"
      "unat start < unat (dev_sector_count dev) * 512"
    and n: "n = min (unat sz) (unat (dev_sector_count dev) * 512 - unat start)"
      "unat start mod 512 = 0" "n mod 512 = 0" "0 < n" "n \<le> 65535 * 512"
    and frames: "pmm_alloc (of_nat ((n + 4095) div 4096)) mm = (buf, mm')"
    and buf: "clear_of hdr table (region buf n)" "set (region buf n) \<inter> set (region buffer n) = {}"
  shows "\<exists>h'. ahci_read H M start sz buffer dev (mm, h) =
      Some (of_nat n, pmm_free (to_frame buf) (of_nat ((n + 4095) div 4096)) mm', h') \<and>
    (\<forall>i<n. mem_of M h' (buffer + of_nat i) = disk h (unat start + i)) \<and> disk h' = disk h"
proof -
  let ?lba = "start div 0x200" and ?c = "clip_size start sz dev"
  have c: "unat ?c = n" using clip_size_value [OF sz] n(1) by simp
  then have c': "?c = of_nat n" by (simp flip: c)
  have l: "unat ?lba * 512 = unat start" using n(2) div_mult_mod_eq [of "unat start" 512] by (simp add: unat_div)
  have k: "unat (?c div 0x200) = n div 512" "512 * (n div 512) = n" using n(3) c by (simp_all add: unat_div) auto
  have start: "start mod 0x200 = 0" "?c mod 0x200 = 0"
    using n(2,3) c by (simp_all add: word_unat_eq_iff unat_mod)
  have "unat (?c + 4095) = n + 4095" using n(5) c by (subst unat_add_lem [THEN iffD1]) simp_all
  moreover have "?c + 4096 - 1 = ?c + 4095" "unat (4096 :: u64) = 4096" by simp_all
  ultimately have u: "unat ((?c + 4096 - 1) div 4096) = (n + 4095) div 4096" by (simp only: unat_div)
  then have f: "((?c + 4096 - 1) AND NOT (4096 - 1)) div 4096 = of_nat ((n + 4095) div 4096)"
    unfolding frames_of_size by (simp flip: u)
  have s: "1 \<le> ?c div 0x200" "unat (?c div 0x200) \<le> 65535" "?lba < 0x1000000000000"
    using n(4,5) k l sz(2,3) by (auto simp: word_le_nat_alt word_less_nat_alt)
  obtain r m1 where w: "prepare_rw hdr ?lba (?c div 0x200) buf False (mem_of M h) = (r, m1)" by (metis surj_pair)
  from ahci_port.transfer [OF port h(1) refl h(2) _ s, unfolded h, OF h(5) w]
  obtain h1 where h1: "send_rw_cmds H M ?lba (?c div 0x200) buf False dev h = Some (True, h1)"
    "(mem_of M h1, disk h1) = run_command hdr m1 (disk h)" by auto
  then have m: "mem_of M h1 = store (region buf n) (\<lambda>i. disk h (unat start + i)) m1" "disk h1 = disk h"
    using run_prepared(2) [OF _ s w, unfolded h, OF h(5), of "disk h"] l k by (simp_all add: mult.commute)
  let ?h = "on_mem M (copy_bytes buffer buf n) h1"
  have "ahci_read H M start sz buffer dev (mm, h) =
      Some (of_nat n, pmm_free (to_frame buf) (of_nat ((n + 4095) div 4096)) mm', ?h)"
    unfolding ahci_read_def prod.case Let_def f using start frames h1(1) c by (simp add: c')
  moreover have "mem_of M ?h (buffer + of_nat i) = disk h (unat start + i)" if "i < n" for i
    using n(5) that buf(2) shared_memory.mem_with [OF ahci_port.axioms(1) [OF port]]
    by (simp add: on_mem_def copy_bytes_apply m store_region unat_of_nat)
  moreover have "disk ?h = disk h" using ahci_port.with_mem_keeps(3) [OF port] m(2) by (simp add: on_mem_def)
  ultimately show ?thesis by blast
qed

theorem ahci_read_sound_witness:
  "\<exists>h' mm'. ahci_read (sata_hw 0xfe000100) sata_ram 1024 512 0x9000 sata_dev (sample, sata_sample) = Some (512, mm', h') \<and>
     sata_mem h' 0x9003 = 23"
proof -
  have p: "ahci_port sata_ram (sata_hw 0xfe000100) (dev_port sata_dev) (\<lambda>_. True) sata_list sata_disk"
    using sata.ahci_port_axioms [of "0xfe000100"] by (simp add: sata_dev_def)
  have h: "dev_cmd_slots sata_dev \<noteq> 0" "sata_list sata_sample = 0x1000"
    "hdr_table (mem_of sata_ram sata_sample) 0x1000 = 0x2000"
    using sata_sample_apart by (simp_all add: sata_dev_def sata_sample_def sata_ram_def)
  have sz: "unat (1024 :: u64) + unat (512 :: u64) < 2 ^ 64" "dev_sector_count sata_dev \<le> 0x1000000000000"
    "unat (1024 :: u64) < unat (dev_sector_count sata_dev) * 512" by (simp_all add: sata_dev_def)
  have n: "512 = min (unat (512 :: u64)) (unat (dev_sector_count sata_dev) * 512 - unat (1024 :: u64))"
    "unat (1024 :: u64) mod 512 = 0" "512 mod 512 = (0 :: nat)" "0 < (512 :: nat)" "512 \<le> 65535 * (512 :: nat)"
    by (simp_all add: sata_dev_def)
  have "fst (pmm_alloc 1 sample) = 0x210000" by code_simp
  then have f: "pmm_alloc (of_nat ((512 + 4095) div 4096)) sample = (0x210000, snd (pmm_alloc 1 sample))"
    by (simp add: prod_eq_iff)
  have c: "clear_of 0x1000 0x2000 (region 0x210000 512)" by (rule sata_clear) simp_all
  have d: "set (region 0x210000 512) \<inter> set (region 0x9000 512) = {}"
    using regions_disjoint [of "0x9000" 512 "0x210000" 512] by auto
  obtain h' where "ahci_read (sata_hw 0xfe000100) sata_ram 1024 512 0x9000 sata_dev (sample, sata_sample) =
      Some (of_nat 512, pmm_free (to_frame 0x210000) (of_nat ((512 + 4095) div 4096)) (snd (pmm_alloc 1 sample)), h')"
    and b: "\<forall>i<512. mem_of sata_ram h' (0x9000 + of_nat i) = sata_disk sata_sample (unat (1024 :: u64) + i)"
    using ahci_read_sound [OF p TrueI h sata_sample_apart(2) sz n f c d] by blast
  moreover from b have "sata_mem h' 0x9003 = 23"
    by (auto simp: sata_ram_def sata_sample_def dest: spec [of _ 3])
  ultimately show ?thesis by (intro exI conjI) simp_all
qed

section \<open>What goes wrong\<close>

text \<open>
  Of a command for up to 4194304 sectors the device executes only as many as its 16-bit count says: the number of sectors
  modulo 65536, and 65536 if that is 0.
\<close>

definition counted_sectors :: "u64 \<Rightarrow> nat" where
  "counted_sectors n = (if (ucast n :: u16) = 0 then 65536 else unat (ucast n :: u16))"

lemma counted_le: "1 \<le> n \<Longrightarrow> counted_sectors n \<le> unat n"
proof -
  assume n: "1 \<le> n"
  have u: "unat (ucast n :: u16) = unat n mod 65536" by (simp add: unsigned_ucast_eq take_bit_eq_mod)
  show ?thesis
  proof (cases "(ucast n :: u16) = 0")
    case True
    then have "65536 dvd unat n" using u by (simp add: dvd_eq_mod_eq_0)
    moreover have "0 < unat n" using n by (simp add: word_le_nat_alt)
    ultimately show ?thesis using True dvd_imp_le by (simp add: counted_sectors_def)
  next
    case False
    then show ?thesis using u by (simp add: counted_sectors_def)
  qed
qed

lemma take_region: "k \<le> n \<Longrightarrow> take k (region a n) = region a k"
  by (simp add: region_def take_map)

lemma run_long_read:
  assumes "apart hdr (hdr_table m hdr)" "1 \<le> n" "n \<le> prdt_sectors" "lba < 0x1000000000000"
    and "prepare_rw hdr lba n buffer False m = (rest, m')"
  shows "rest = 0" "run_command hdr m' d = (store (region buffer (512 * counted_sectors n)) (\<lambda>i. d (512 * unat lba + i)) m', d)"
proof -
  have c: "command_sectors n = n" using assms(3) by (simp add: command_sectors_def min_def)
  note p = prepare_rw_core [OF assms(1,2,5), unfolded c]
  show "rest = 0" using p by simp
  have "unat (take_bit 48 lba) = unat lba"
    using assms(4) by (simp add: unsigned_take_bit_eq take_bit_nat_eq_self word_less_nat_alt)
  moreover have "take (512 * counted_sectors n) (region buffer (unat n * 512)) = region buffer (512 * counted_sectors n)"
    using counted_le [OF assms(2)] by (intro take_region) simp
  ultimately show "run_command hdr m' d = (store (region buffer (512 * counted_sectors n)) (\<lambda>i. d (512 * unat lba + i)) m', d)"
    using p by (cases "(ucast n :: u16) = 0") (simp_all add: run_command_def Let_def rw_command_def counted_sectors_def)
qed

text \<open>C39:
  A read of more than 65536 sectors (and up to 4194304) reports success but is incomplete: only the bytes of the first
  sectors, as many as the 16-bit count of the one command says, arrive in the buffer; the others stay as they were.
\<close>

theorem long_read_incomplete:
  assumes port: "ahci_port M H (dev_port dev) ready cmd_list disk"
    and h: "ready h" "dev_cmd_slots dev \<noteq> 0" "cmd_list h = hdr" "hdr_table (mem_of M h) hdr = table" "apart hdr table"
    and n: "65536 < unat n" "unat n \<le> 4194304" "lba < 0x1000000000000"
    and buf: "clear_of hdr table (region buf (512 * unat n))"
  shows "\<exists>h'. send_rw_cmds H M lba n buf False dev h = Some (True, h') \<and> counted_sectors n < unat n \<and>
    (\<forall>i < 512 * unat n. mem_of M h' (buf + of_nat i) =
       (if i < 512 * counted_sectors n then disk h (512 * unat lba + i) else mem_of M h (buf + of_nat i)))"
proof -
  have n1: "1 \<le> n" "n \<le> prdt_sectors" using n(1,2) by (simp_all add: prdt_sectors_value word_le_nat_alt)
  obtain r m1 where w: "prepare_rw hdr lba n buf False (mem_of M h) = (r, m1)" by (metis surj_pair)
  note run = run_long_read [OF _ n1 n(3) w, unfolded h, OF h(5)]
  from ahci_port.one_command [OF port h(1) refl h(2), unfolded h, OF w]
  obtain h1 where h1: "send_rw_cmd H M lba n buf False dev h = Some (0, h1)"
    "(mem_of M h1, disk h1) = run_command hdr m1 (disk h)" by (auto simp: run(1))
  then have m: "mem_of M h1 = store (region buf (512 * counted_sectors n)) (\<lambda>i. disk h (512 * unat lba + i)) m1"
    using run(2) by simp
  have "send_rw_rest H M lba 0 buf False dev h1 = Some h1" by (subst send_rw_rest.simps) simp
  then have "send_rw_cmds H M lba n buf False dev h = Some (True, h1)" by (simp add: send_rw_cmds_def h1(1))
  moreover have c: "counted_sectors n \<le> 65536" using unat_lt2p [of "ucast n :: u16"] by (simp add: counted_sectors_def)
  moreover have "mem_of M h1 (buf + of_nat i) =
      (if i < 512 * counted_sectors n then disk h (512 * unat lba + i) else mem_of M h (buf + of_nat i))"
    if i: "i < 512 * unat n" for i
  proof -
    have u: "unat (of_nat i :: u64) = i" using i n(2) by (simp add: unat_of_nat)
    have "m1 (buf + of_nat i) = mem_of M h (buf + of_nat i)"
      using prepare_rw_frame [OF n1(1) _ w, unfolded h, OF h(5) buf] i by (metis length_region nth_mem region_nth)
    then show ?thesis using c by (simp add: m store_region u)
  qed
  ultimately show ?thesis using n(1) by (intro exI [of _ h1]) simp
qed

theorem long_read_incomplete_witness:
  "\<exists>h. send_rw_cmds (sata_hw 0xfe000100) sata_ram 5 65537 0x9000 False sata_dev sata_sample = Some (True, h) \<and>
     sata_mem h 0x9003 = 53 \<and> sata_mem h 0x9204 = sata_mem sata_sample 0x9204 \<and> sata_mem h 0x9204 \<noteq> sata_disk sata_sample 3076"
proof -
  have p: "ahci_port sata_ram (sata_hw 0xfe000100) (dev_port sata_dev) (\<lambda>_. True) sata_list sata_disk"
    using sata.ahci_port_axioms [of "0xfe000100"] by (simp add: sata_dev_def)
  have h: "dev_cmd_slots sata_dev \<noteq> 0" "sata_list sata_sample = 0x1000"
    "hdr_table (mem_of sata_ram sata_sample) 0x1000 = 0x2000"
    using sata_sample_apart by (simp_all add: sata_dev_def sata_sample_def sata_ram_def)
  have n: "65536 < unat (65537 :: u64)" "unat (65537 :: u64) \<le> 4194304" "(5 :: u64) < 0x1000000000000" by simp_all
  have c: "clear_of 0x1000 0x2000 (region 0x9000 (512 * unat (65537 :: u64)))" by (rule sata_clear) simp_all
  have k: "counted_sectors 65537 = 1" by (simp add: counted_sectors_def)
  obtain h1 where r: "send_rw_cmds (sata_hw 0xfe000100) sata_ram 5 65537 0x9000 False sata_dev sata_sample = Some (True, h1)"
    "\<forall>i < 512 * unat (65537 :: u64). mem_of sata_ram h1 (0x9000 + of_nat i) =
       (if i < 512 * counted_sectors 65537 then sata_disk sata_sample (512 * unat (5 :: u64) + i)
        else mem_of sata_ram sata_sample (0x9000 + of_nat i))"
    using long_read_incomplete [OF p TrueI h sata_sample_apart(2) n c] by blast
  have "sata_mem h1 0x9003 = 53" using r(2) [rule_format, of 3] by (simp add: k sata_ram_def) (simp add: sata_sample_def)
  moreover have "sata_mem h1 0x9204 = sata_mem sata_sample 0x9204"
    using r(2) [rule_format, of "0x204"] by (simp add: k sata_ram_def)
  moreover have "sata_mem sata_sample 0x9204 \<noteq> sata_disk sata_sample 3076" by (simp add: sata_sample_def)
  ultimately show ?thesis using r(1) by auto
qed

text \<open>
  The hand-over from the firmware is never reported as successful: when the register delivers the same value
  twice, either the wait does not end or the check fails, because it requires bit 1 both clear and set.
\<close>

theorem bios_handoff_never_succeeds:
  assumes "\<And>h. fst (mmio_read H (regs + hba_bohc) (snd (mmio_read H (regs + hba_bohc) h))) =
    fst (mmio_read H (regs + hba_bohc) h)"
  shows "\<not> (\<exists>h'. bios_handoff H regs h = Some (True, h'))"
proof
  assume "\<exists>h'. bios_handoff H regs h = Some (True, h')"
  then obtain h1 where "fst (mmio_read H (regs + hba_bohc) h1) AND 11 = 0"
    "fst (mmio_read H (regs + hba_bohc) (snd (mmio_read H (regs + hba_bohc) h1))) AND 2 \<noteq> 0"
    by (auto simp: bios_handoff_def Let_def prod.case_eq_if bind_eq_Some_conv split: if_splits)
  then have last: "fst (mmio_read H (regs + hba_bohc) h1) AND 11 = 0" "fst (mmio_read H (regs + hba_bohc) h1) AND 2 \<noteq> 0"
    using assms [of h1] by simp_all
  let ?v = "fst (mmio_read H (regs + hba_bohc) h1)"
  have "?v AND 2 = (?v AND 11) AND 2" by (simp add: and.assoc)
  then show False using last by simp
qed

theorem bios_handoff_never_succeeds_witness:
  "\<not> (\<exists>h'. bios_handoff (sata_hw 0xfe000100) 0xfe000000 sata_sample = Some (True, h'))"
  by (rule bios_handoff_never_succeeds) (simp add: sata_hw_def)

text \<open>When the firmware does not own the controller, the wait does not end.\<close>

theorem bios_handoff_hangs:
  assumes "\<And>h. snd (mmio_read H (regs + hba_bohc) h) = h"
    and "\<And>h. fst (mmio_read H (regs + hba_cap2) h) AND 1 = 1"
    and "\<And>h v. fst (mmio_read H (regs + hba_bohc) (mmio_write H (regs + hba_bohc) v h)) = v"
    and "fst (mmio_read H (regs + hba_bohc) (snd (mmio_read H (regs + hba_cap2) h))) AND 1 = 0"
  shows "bios_handoff H regs h = None"
proof -
  let ?h = "mmio_upd H (regs + hba_bohc) (\<lambda>v. v OR 2) (snd (mmio_read H (regs + hba_cap2) h))"
  have "fst (mmio_read H (regs + hba_bohc) ?h) AND 1 = 0"
    using assms(3,4) by (simp add: mmio_upd_def prod.case_eq_if bit.conj_disj_distrib2)
  then have "poll H (regs + hba_bohc) (\<lambda>v. v AND 1 = 0) ?h = None"
    using assms(1) by (intro poll_stuck [where P = "\<lambda>h. h = ?h"]) simp_all
  then show ?thesis using assms(2) [of h] by (simp add: bios_handoff_def prod.case_eq_if Let_def)
qed

lemma send_rw_rest_stuck:
  assumes "\<And>lba n buffer h. n \<noteq> 0 \<Longrightarrow> \<exists>h'. send_rw_cmd H M lba n buffer w dev h = Some (n, h')" and "rest \<noteq> 0"
  shows "send_rw_rest H M lba rest buffer w dev h = None"
proof (rule ccontr)
  assume "send_rw_rest H M lba rest buffer w dev h \<noteq> None"
  then obtain r where r: "send_rw_rest H M lba rest buffer w dev h = Some r" by blast
  let ?Q = "\<lambda>H' M' l n b w' d h r. H' = H \<and> M' = M \<and> w' = w \<and> d = dev \<and> n \<noteq> 0 \<longrightarrow> False"
  have "?Q H M lba rest buffer w dev h r"
  proof (rule send_rw_rest.raw_induct [where P = ?Q, OF _ r])
    fix F H' M' l n b w' d h r
    assume IH: "\<And>H M l n b w d h r. F H M l n b w d h = Some r \<Longrightarrow> ?Q H M l n b w d h r"
      and eq: "(if n \<noteq> 0 then Option.bind (send_rw_cmd H' M' (l + prdt_sectors) n (b + 1024 * 0x200000) w' d h)
          (\<lambda>rh. F H' M' (l + prdt_sectors) (fst rh) (b + 1024 * 0x200000) w' d (snd rh)) else Some h) = Some r"
    show "?Q H' M' l n b w' d h r"
    proof
      assume *: "H' = H \<and> M' = M \<and> w' = w \<and> d = dev \<and> n \<noteq> 0"
      then obtain h' where "send_rw_cmd H M (l + prdt_sectors) n (b + 1024 * 0x200000) w dev h = Some (n, h')"
        using assms(1) by blast
      with eq * have "F H M (l + prdt_sectors) n (b + 1024 * 0x200000) w dev h' = Some r" by simp
      from IH [OF this] * show False by simp
    qed
  qed
  then show False using assms(2) by simp
qed

lemma no_slots_stuck:
  assumes "dev_cmd_slots dev = 0" "sector_count \<noteq> 0"
  shows "send_rw_cmds H M lba sector_count buffer write_cmd dev h = None"
proof -
  have one: "send_rw_cmd H M lba n buffer write_cmd dev h = Some (n, h)" for lba n buffer h
    using assms(1) by (simp add: send_rw_cmd_def find_cmd_slot_def)
  then have "send_rw_rest H M lba sector_count buffer write_cmd dev h = None"
    using assms(2) by (intro send_rw_rest_stuck) auto
  then show ?thesis by (simp add: send_rw_cmds_def one)
qed

text \<open>The number of command slots, as the specification of the capability register has it: the field counts from 0.\<close>

definition slots_of_cap :: "u32 \<Rightarrow> nat" where
  "slots_of_cap cap = unat (drop_bit 8 cap AND 0x1f) + 1"

lemma no_slots_dev: "init_ahci_dev H M 0 port s = Some (d, s') \<Longrightarrow> d = zero_dev"
  by (auto simp: init_ahci_dev_def send_identify_cmd_def find_cmd_slot_def bind_eq_Some_conv Let_def prod.case_eq_if)

lemma no_slots_ports:
  "init_ports H M regs 0 is (ds, mm, h) = Some (ds', s') \<Longrightarrow> \<forall>d\<in>set ds. d = zero_dev \<Longrightarrow> \<forall>d\<in>set ds'. d = zero_dev"
proof (induction "is" arbitrary: ds mm h)
  case Nil
  then show ?case by simp
next
  case (Cons i "is")
  obtain ds1 mm1 h1 where "init_ports H M regs 0 is (ds1, mm1, h1) = Some (ds', s')" "\<forall>d\<in>set ds1. d = zero_dev"
    using Cons.prems no_slots_dev [of H M]
    by (fastforce simp: bind_eq_Some_conv Let_def split: prod.splits if_splits)
  then show ?case by (rule Cons.IH)
qed

lemma controller_added:
  assumes "init_ahci_controller H M dev s = Some (Inr (True, s'))"
  shows "\<exists>c h h1 h2 mm mm1. controllers s' = controllers s @ [c] \<and> length (controllers s) < 32 \<and>
    c_cmd_slots c = drop_bit 8 (fst (mmio_read H (c_regs c + hba_cap) h)) AND 0x1f \<and>
    init_ports H M (c_regs c) (c_cmd_slots c) [0..<unat (ports_count c)] ([], mm, h1) = Some (devs c, mm1, h2)"
  using assms unfolding init_ahci_controller_def Let_def
  apply (clarsimp split: prod.split_asm if_split_asm simp: bind_eq_Some_conv)
  apply (drule spec, drule spec, drule mp, rule surjective_pairing, drule spec, drule spec, drule mp, rule surjective_pairing)
  by (auto, rule exI, rule refl, blast)


text \<open>
  A controller whose registers answer always the same: one port with a disk, one command slot (the capability register is
  0x80000001), at the address in the last base address register.
\<close>

definition one_slot_hw :: "sata hw" where
  "one_slot_hw =
     \<lparr>mmio_read = (\<lambda>a h. (if a = 0xfffff000 then 0x80000001 else if a = 0xfffff00c then 1
                          else if a = 0xfffff128 then 0x103 else 0, h)),
      mmio_write = (\<lambda>a v h. h), port_in = (\<lambda>port h. (0, h)), port_out = (\<lambda>port v h. h),
      port_in32 = (\<lambda>port h. (0xfffff000, h)), port_out32 = (\<lambda>port v h. h),
      rdmsr = (\<lambda>msr h. ((0, 0), h)), wrmsr = (\<lambda>msr high low h. h), interrupt_flag = (\<lambda>b h. h)\<rparr>"

definition storage_dev :: pci_dev where
  "storage_dev = \<lparr>dev_bus = 0, dev_slot = 0x1f, dev_func = 2, dev_class = 1, dev_subclass = 6, dev_prog_if = 1\<rparr>"

lemma one_slot_port: "\<exists>mm' h'. rebase_port one_slot_hw sata_ram 0xfffff100 (mm, h) = Some (mm', h')"
proof -
  have w: "wait_stopped one_slot_hw 0xfffff100 h = Some h" for h
    by (subst wait_stopped.simps) (simp add: one_slot_hw_def)
  have p: "poll one_slot_hw 0xfffff118 (\<lambda>v. v AND HBA_CMD_CR \<noteq> 0) h = Some h" for h
    by (subst poll.simps) (simp add: one_slot_hw_def)
  show ?thesis
    by (simp add: rebase_port_def stop_cmd_def start_cmd_def w p Let_def prod.case_eq_if)
qed

lemma one_slot_dev: "\<exists>mm' h'. init_ahci_dev one_slot_hw sata_ram 0 0xfffff100 (mm, h) = Some (zero_dev, mm', h')"
  using one_slot_port [of mm h]
  by (auto simp: init_ahci_dev_def send_identify_cmd_def find_cmd_slot_def Let_def prod.case_eq_if)

lemma one_slot_reads:
  "enable_bus_master one_slot_hw dev h = h" "is_bar_present one_slot_hw dev 5 h = (True, h)"
  "get_bar one_slot_hw dev 5 h =
     (\<lparr>bar_base = 0xfffff000, bar_size = 0x1000, is_64bits = False, is_prefetchable = False, is_mmio = True\<rparr>, h)"
  "bios_handoff one_slot_hw 0xfffff000 h = Some (False, h)"
  "get_ahci_dev_type one_slot_hw 0xfffff100 h = (AHCI_DEV_SATA, h)"
  by (simp_all add: enable_bus_master_def is_bar_present_def get_bar_def bios_handoff_def get_ahci_dev_type_def pci_readd_def
      pci_writed_def ind_def outd_def bar_offset_def one_slot_hw_def Let_def unsigned_minus_1_eq_mask mask_eq_exp_minus_1)

lemma one_slot_init:
  "\<exists>s' d. init_ahci_controller one_slot_hw sata_ram storage_dev \<lparr>ah_hw = h, ah_mm = mm, controllers = []\<rparr> =
       Some (Inr (True, s')) \<and>
     c_regs (last (controllers s')) = 0xfffff000 \<and> get_ahci_dev 0 0 s' = Some d"
proof -
  have r: "mmio_read one_slot_hw 0xfffff000 h = (0x80000001, h)" "mmio_read one_slot_hw 0xfffff010 h = (0, h)"
    "mmio_read one_slot_hw 0xfffff00c h = (1, h)" "mmio_read one_slot_hw 0xfffff004 h = (0, h)"
    "mmio_write one_slot_hw a v h = h" for a v h
    by (simp_all add: one_slot_hw_def)
  obtain mm' h' where "init_ahci_dev one_slot_hw sata_ram 0 0xfffff100
      (map_bar \<lparr>bar_base = 0xfffff000, bar_size = 0x1000, is_64bits = False, is_prefetchable = False, is_mmio = True\<rparr> mm, h) =
      Some (zero_dev, mm', h')"
    using one_slot_dev by blast
  then show ?thesis
    by (simp add: init_ahci_controller_def one_slot_reads r mmio_upd_def port_base_def get_ahci_dev_def Let_def)
qed


text \<open>A read or write that starts behind the last sector is not refused: its size wraps around.\<close>

theorem clip_size_wraps:
  assumes "unat start + unat sz < 2 ^ 64" "dev_sector_count dev \<le> 0x1000000000000"
    and "unat (dev_sector_count dev) * 512 < unat start"
  shows "unat (clip_size start sz dev) = 2 ^ 64 - (unat start - unat (dev_sector_count dev) * 512)"
proof -
  have t: "unat (dev_sector_count dev * 0x200) = unat (dev_sector_count dev) * 512"
    using assms(2) by (subst unat_mult_lem [THEN iffD1]) (simp_all add: word_le_nat_alt)
  have a: "unat (start + sz) = unat start + unat sz"
    using assms(1) by (subst unat_add_lem [THEN iffD1]) simp_all
  have "clip_size start sz dev = dev_sector_count dev * 0x200 - start"
    using assms(3) by (simp add: clip_size_def word_le_nat_alt t a)
  then show ?thesis using assms(3) by (simp add: unat_sub_if' t)
qed

end
