(* ===== verification/Xhci.thy ===== *)
theory Xhci
  imports Ram "HOL-Library.Monad_Syntax"
begin

text \<open>
  The XHCI driver: \<open>src/src/driver/xhci/xhci.c\<close> and \<open>xhci.h\<close>. The registers of a controller are a part of the hardware; its
  command ring, event ring and segment table are in the memory shared with it. A result \<open>None\<close> is a loop that does not end.
  The messages are left out, and so are the delays between two reads of a register in a bounded wait.
\<close>

section \<open>Constants\<close>

abbreviation (input) MAX_XHCI_CONTROLLER :: nat where "MAX_XHCI_CONTROLLER \<equiv> 32"
abbreviation (input) XHCI_MAX_EVENTS :: u32 where "XHCI_MAX_EVENTS \<equiv> 16 * 2"
abbreviation (input) XHCI_MAX_COMMANDS :: u32 where "XHCI_MAX_COMMANDS \<equiv> 16 * 2"
abbreviation (input) XHCI_MAX_SLOTS :: nat where "XHCI_MAX_SLOTS \<equiv> 255"

definition HCC_XECP :: "u32 \<Rightarrow> u32" where "HCC_XECP p = drop_bit 16 p AND 0xffff"
definition HCS_MAX_PORTS :: "u32 \<Rightarrow> u32" where "HCS_MAX_PORTS p = drop_bit 24 p AND 0xff"
definition HCS_MAX_DEV_SLOTS :: "u32 \<Rightarrow> u32" where "HCS_MAX_DEV_SLOTS p = p AND 0xff"
definition HCS2_ERST_MAX :: "u32 \<Rightarrow> u32" where "HCS2_ERST_MAX p = push_bit (unat (drop_bit 4 p AND 0xf)) 2"

definition HCS2_MAX_SCRATCHPAD_BUFS :: "u32 \<Rightarrow> u32" where
  "HCS2_MAX_SCRATCHPAD_BUFS p = (drop_bit 21 p AND push_bit 5 0x1f) OR (drop_bit 27 p AND 0x1f)"

abbreviation (input) HCC_CSZ :: u32 where "HCC_CSZ \<equiv> 0x4"

abbreviation (input) XECP_LEGSUP_ID :: u8 where "XECP_LEGSUP_ID \<equiv> 0x1"
abbreviation (input) XECP_LEGSUP_BIOS_OWNED :: u32 where "XECP_LEGSUP_BIOS_OWNED \<equiv> 0x10000"
abbreviation (input) XECP_LEGSUP_OS_OWNED :: u32 where "XECP_LEGSUP_OS_OWNED \<equiv> 0x1000000"
abbreviation (input) XECP_LEGCTLSTS :: u64 where "XECP_LEGCTLSTS \<equiv> 0x4"

definition XECP_LEGCTLSTS_DISABLE_SMI :: u32 where
  "XECP_LEGCTLSTS_DISABLE_SMI = push_bit 1 0x7 + push_bit 5 0xff + push_bit 17 0x7"

definition XECP_LEGCTLSTS_EVENTS_SMI :: u32 where
  "XECP_LEGCTLSTS_EVENTS_SMI = push_bit 29 0x7"

abbreviation (input) RUNTIME_REG_IMAN :: "u32 \<Rightarrow> u32" where "RUNTIME_REG_IMAN interrupter \<equiv> 0x20 + interrupter * 32"
abbreviation (input) RUNTIME_REG_IMOD :: "u32 \<Rightarrow> u32" where "RUNTIME_REG_IMOD interrupter \<equiv> 0x24 + interrupter * 32"
abbreviation (input) RUNTIME_REG_ERSTSZ :: "u32 \<Rightarrow> u32" where "RUNTIME_REG_ERSTSZ interrupter \<equiv> 0x28 + interrupter * 32"
abbreviation (input) RUNTIME_REG_ERSTBA :: "u32 \<Rightarrow> u32" where "RUNTIME_REG_ERSTBA interrupter \<equiv> 0x30 + interrupter * 32"
abbreviation (input) RUNTIME_REG_ERDP :: "u32 \<Rightarrow> u32" where "RUNTIME_REG_ERDP interrupter \<equiv> 0x38 + interrupter * 32"

abbreviation (input) OP_REG_USBCMD :: u64 where "OP_REG_USBCMD \<equiv> 0x0"
abbreviation (input) OP_REG_USBSTS :: u64 where "OP_REG_USBSTS \<equiv> 0x4"
abbreviation (input) OP_REG_PAGESIZE :: u64 where "OP_REG_PAGESIZE \<equiv> 0x8"
abbreviation (input) OP_REG_DNCTRL :: u64 where "OP_REG_DNCTRL \<equiv> 0x14"
abbreviation (input) OP_REG_CRCR :: u64 where "OP_REG_CRCR \<equiv> 0x18"
abbreviation (input) OP_REG_DCBAAP :: u64 where "OP_REG_DCBAAP \<equiv> 0x30"
abbreviation (input) OP_REG_CONFIG :: u64 where "OP_REG_CONFIG \<equiv> 0x38"

abbreviation (input) CRCR_HCS :: u32 where "CRCR_HCS \<equiv> 0x1"
abbreviation (input) USBCMD_RUN :: u32 where "USBCMD_RUN \<equiv> 0x1"
abbreviation (input) USBCMD_HCRST :: u32 where "USBCMD_HCRST \<equiv> 0x2"
abbreviation (input) USBCMD_INTE :: u32 where "USBCMD_INTE \<equiv> 0x4"
abbreviation (input) USBSTS_HCH :: u32 where "USBSTS_HCH \<equiv> 0x1"
abbreviation (input) USBSTS_CNR :: u32 where "USBSTS_CNR \<equiv> 0x800"

abbreviation (input) TRB_CYCLE_BIT :: u32 where "TRB_CYCLE_BIT \<equiv> 0x1"
abbreviation (input) TRB_TC_BIT :: u32 where "TRB_TC_BIT \<equiv> 0x2"

definition TRB_TYPE_LINK :: u32 where "TRB_TYPE_LINK = push_bit 10 6"
definition TRB_TYPE_ENABLE_SLOT_CMD :: u32 where "TRB_TYPE_ENABLE_SLOT_CMD = push_bit 10 9"
definition TRB_TYPE_NO_OP_CMD :: u32 where "TRB_TYPE_NO_OP_CMD = push_bit 10 23"

section \<open>Data\<close>

record xhci_trb =
  trb_addr :: u64
  trb_status :: u32
  trb_flags :: u32

definition zero_trb :: xhci_trb where
  "zero_trb = \<lparr>trb_addr = 0, trb_status = 0, trb_flags = 0\<rparr>"

definition read_trb :: "memory \<Rightarrow> u64 \<Rightarrow> xhci_trb" where
  "read_trb m a = \<lparr>trb_addr = rd64 m a, trb_status = rd32 m (a + 8), trb_flags = rd32 m (a + 12)\<rparr>"

definition write_trb :: "u64 \<Rightarrow> xhci_trb \<Rightarrow> memory \<Rightarrow> memory" where
  "write_trb a t m = wr32 (a + 12) (trb_flags t) (wr32 (a + 8) (trb_status t) (wr64 a (trb_addr t) m))"

text \<open>The element of a ring, and a change of its flags.\<close>

definition trb_at :: "u64 \<Rightarrow> u32 \<Rightarrow> u64" where
  "trb_at base_addr i = base_addr + ucast i * 16"

definition upd_flags :: "u64 \<Rightarrow> (u32 \<Rightarrow> u32) \<Rightarrow> memory \<Rightarrow> memory" where
  "upd_flags a f m = wr32 (a + 12) (f (rd32 m (a + 12))) m"

record xhci_erst_entry =
  erst_base_addr :: u64
  erst_size :: u16

definition write_erst_entry :: "u64 \<Rightarrow> xhci_erst_entry \<Rightarrow> memory \<Rightarrow> memory" where
  "write_erst_entry a e m = wr32 (a + 12) 0 (wr16 (a + 10) 0 (wr16 (a + 8) (erst_size e) (wr64 a (erst_base_addr e) m)))"

record xhci_controller =
  x_bar :: pci_bar
  cap_len :: u8
  max_ports :: u8
  max_dev_slots :: u8
  erst_max :: u16
  cap_regs :: u64
  op_regs :: u64
  runtime_regs :: u64
  doorbell_array :: u64
  dev_ctxs :: u64
  erst :: u64
  cmd_ring :: u64
  cmd_ring_idx :: u32
  cmd_pcs :: u8
  event_idx :: u32
  event_ccs :: u8
  context_size_64 :: bool

text \<open>\<open>xhci_controllers\<close> holds the first \<open>controllers_count\<close> entries of the array.\<close>

record 'h xhci =
  xh_hw :: 'h
  xh_mm :: mm
  xhci_controllers :: "xhci_controller list"

section \<open>Registers\<close>

definition read_op_reg :: "'h hw \<Rightarrow> xhci_controller \<Rightarrow> u64 \<Rightarrow> 'h \<Rightarrow> u32 \<times> 'h" where
  "read_op_reg H c reg_off h = mmio_read H (op_regs c + reg_off) h"

definition write_op_reg :: "'h hw \<Rightarrow> xhci_controller \<Rightarrow> u64 \<Rightarrow> u32 \<Rightarrow> 'h \<Rightarrow> 'h" where
  "write_op_reg H c reg_off v h = mmio_write H (op_regs c + reg_off) v h"

definition write_doorbell :: "'h hw \<Rightarrow> xhci_controller \<Rightarrow> u64 \<Rightarrow> u16 \<Rightarrow> u8 \<Rightarrow> 'h \<Rightarrow> 'h" where
  "write_doorbell H c reg_off task_id target h =
     mmio_write H (doorbell_array c + reg_off) (push_bit 16 (ucast task_id) OR ucast target) h"

definition ring :: "'h hw \<Rightarrow> xhci_controller \<Rightarrow> u16 \<Rightarrow> u8 \<Rightarrow> 'h \<Rightarrow> 'h" where
  "ring H c task_id target h = write_doorbell H c 0 task_id target h"

definition read_runtime :: "'h hw \<Rightarrow> xhci_controller \<Rightarrow> u32 \<Rightarrow> 'h \<Rightarrow> u32 \<times> 'h" where
  "read_runtime H c reg_off h = mmio_read H (runtime_regs c + ucast reg_off) h"

definition write_runtime :: "'h hw \<Rightarrow> xhci_controller \<Rightarrow> u32 \<Rightarrow> u32 \<Rightarrow> 'h \<Rightarrow> 'h" where
  "write_runtime H c reg_off v h = mmio_write H (runtime_regs c + ucast reg_off) v h"

text \<open>The result is 0 or -1.\<close>

primrec wait_op_bits_in :: "nat \<Rightarrow> 'h hw \<Rightarrow> xhci_controller \<Rightarrow> u64 \<Rightarrow> u32 \<Rightarrow> u32 \<Rightarrow> 'h \<Rightarrow> u32 \<times> 'h" where
  "wait_op_bits_in 0 H c reg_off bitmask expected h = (- 1, h)"
| "wait_op_bits_in (Suc n) H c reg_off bitmask expected h =
     (let (v, h) = read_op_reg H c reg_off h
      in if v AND bitmask = expected then (0, h) else wait_op_bits_in n H c reg_off bitmask expected h)"

definition wait_op_bits :: "'h hw \<Rightarrow> xhci_controller \<Rightarrow> u64 \<Rightarrow> u32 \<Rightarrow> u32 \<Rightarrow> 'h \<Rightarrow> u32 \<times> 'h" where
  "wait_op_bits H c reg_off bitmask expected h = wait_op_bits_in 1000 H c reg_off bitmask expected h"

definition halt_controller :: "'h hw \<Rightarrow> xhci_controller \<Rightarrow> 'h \<Rightarrow> bool \<times> 'h" where
  "halt_controller H c h =
     (let (v, h) = read_op_reg H c OP_REG_USBCMD h;
          h = write_op_reg H c OP_REG_USBCMD (v AND NOT USBCMD_RUN) h;
          (r, h) = wait_op_bits H c OP_REG_USBSTS USBSTS_HCH USBSTS_HCH h
      in (r = 0, h))"

definition reset_controller :: "'h hw \<Rightarrow> xhci_controller \<Rightarrow> 'h \<Rightarrow> bool \<times> 'h" where
  "reset_controller H c h =
     (let (v, h) = read_op_reg H c OP_REG_USBCMD h;
          h = write_op_reg H c OP_REG_USBCMD (v OR USBCMD_HCRST) h;
          (r, h) = wait_op_bits H c OP_REG_USBCMD USBCMD_HCRST 0 h
      in if r \<noteq> 0 then (False, h)
         else let (r, h) = wait_op_bits H c OP_REG_USBSTS USBSTS_CNR 0 h
              in (r = 0, h))"

section \<open>Hand-over from the firmware\<close>

text \<open>The walk over the extended capabilities; the address of the legacy support capability, if there is one.\<close>

partial_function (option) find_legsup :: "'h hw \<Rightarrow> u64 \<Rightarrow> u8 \<Rightarrow> 'h \<Rightarrow> (u64 option \<times> 'h) option" where
  "find_legsup H xecp cap_id h =
     (if cap_id \<noteq> XECP_LEGSUP_ID then
        case mmio_read H xecp h of (v, h) \<Rightarrow>
          if drop_bit 8 v AND 0xff = 0 then Some (None, h)
          else case mmio_read H xecp h of (v, h) \<Rightarrow>
            case mmio_read H (xecp + ucast (drop_bit 8 v AND 0xff) * 4) h of (w, h) \<Rightarrow>
              find_legsup H (xecp + ucast (drop_bit 8 v AND 0xff) * 4) (ucast (w AND 0xff)) h
      else Some (Some xecp, h))"

primrec wait_bios :: "nat \<Rightarrow> 'h hw \<Rightarrow> u64 \<Rightarrow> 'h \<Rightarrow> 'h" where
  "wait_bios 0 H xecp h = h"
| "wait_bios (Suc n) H xecp h =
     (let (v, h) = mmio_read H xecp h
      in if v AND XECP_LEGSUP_BIOS_OWNED = 0 then h else wait_bios n H xecp ((io_wait H ^^ 100000) h))"

definition take_over :: "'h hw \<Rightarrow> u64 \<Rightarrow> 'h \<Rightarrow> 'h" where
  "take_over H xecp h =
     (let (v, h) = mmio_read H xecp h
      in if v AND XECP_LEGSUP_BIOS_OWNED \<noteq> 0 then
           (let h = mmio_upd H xecp (\<lambda>v. v OR XECP_LEGSUP_OS_OWNED) h;
                h = wait_bios 20 H xecp h;
                h = mmio_upd H xecp (\<lambda>v. v AND NOT XECP_LEGSUP_BIOS_OWNED) h
            in mmio_upd H (xecp + XECP_LEGCTLSTS)
                 (\<lambda>v. (v AND NOT XECP_LEGCTLSTS_DISABLE_SMI) OR XECP_LEGCTLSTS_EVENTS_SMI) h)
         else h)"

text \<open>The parameter \<open>base\<close> of \<open>bios_handoff\<close> has 32 bits.\<close>

definition xhci_bios_handoff :: "'h hw \<Rightarrow> u32 \<Rightarrow> u32 \<Rightarrow> 'h \<Rightarrow> 'h option" where
  "xhci_bios_handoff H base_addr cap_params h =
     (let xecp = ucast base_addr + ucast (push_bit 2 (HCC_XECP cap_params));
          (v, h) = mmio_read H xecp h
      in do {
        (found, h) \<leftarrow> find_legsup H xecp (ucast (v AND 0xff)) h;
        case found of None \<Rightarrow> Some h | Some xecp \<Rightarrow> Some (take_over H xecp h) })"

section \<open>Rings\<close>

text \<open>A context of a device has 32 bytes for the slot and 32 for each of the 31 endpoints.\<close>

definition dev_context_size :: u64 where
  "dev_context_size = 32 + 31 * 32"

definition init_dcbaa :: "'h hw \<Rightarrow> 'h ram \<Rightarrow> xhci_controller \<Rightarrow> mm \<times> 'h \<Rightarrow> xhci_controller \<times> mm \<times> 'h" where
  "init_dcbaa H M c = (\<lambda>(mm, h).
     let sz = of_nat XHCI_MAX_SLOTS * dev_context_size;
         (dcbaa_addr, mm) = pmm_alloc ((sz - 1) div 4096 + 1) mm;
         c = c\<lparr>dev_ctxs := dcbaa_addr\<rparr>;
         h = fold (\<lambda>i. on_mem M (zero_bytes (dev_ctxs c + of_nat i * dev_context_size) (unat dev_context_size)))
               [0..<XHCI_MAX_SLOTS] h;
         h = write_op_reg H c OP_REG_DCBAAP (ucast dcbaa_addr) h
     in (c, mm, write_op_reg H c (OP_REG_DCBAAP + 4) (ucast (drop_bit 32 dcbaa_addr)) h))"

definition clear_ring :: "u64 \<Rightarrow> u32 \<Rightarrow> memory \<Rightarrow> memory" where
  "clear_ring ring_addr n m = fold (\<lambda>i. write_trb (trb_at ring_addr (of_nat i)) zero_trb) [0..<unat n] m"

definition init_cmd_ring :: "'h hw \<Rightarrow> 'h ram \<Rightarrow> xhci_controller \<Rightarrow> mm \<times> 'h \<Rightarrow> xhci_controller \<times> mm \<times> 'h" where
  "init_cmd_ring H M c = (\<lambda>(mm, h).
     let sz = ucast XHCI_MAX_COMMANDS * 16;
         (cmd_ring_addr, mm) = pmm_alloc_custom ((sz - 1) div 4096 + 1) (Present OR Writeable OR DisableCache) mm;
         c = c\<lparr>cmd_ring := cmd_ring_addr\<rparr>;
         h = on_mem M (clear_ring (cmd_ring c) XHCI_MAX_COMMANDS) h;
         h = on_mem M (wr64 (trb_at (cmd_ring c) (XHCI_MAX_COMMANDS - 1)) cmd_ring_addr) h;
         h = on_mem M (wr32 (trb_at (cmd_ring c) (XHCI_MAX_COMMANDS - 1) + 8) 0) h;
         h = on_mem M (wr32 (trb_at (cmd_ring c) (XHCI_MAX_COMMANDS - 1) + 12) TRB_TYPE_LINK) h;
         h = write_op_reg H c OP_REG_CRCR (ucast cmd_ring_addr OR CRCR_HCS) h
     in (c, mm, write_op_reg H c (OP_REG_CRCR + 4) (ucast (drop_bit 32 cmd_ring_addr)) h))"

definition create_event_ring_seg :: "'h ram \<Rightarrow> mm \<times> 'h \<Rightarrow> xhci_erst_entry \<times> mm \<times> 'h" where
  "create_event_ring_seg M = (\<lambda>(mm, h).
     let sz = XHCI_MAX_EVENTS * 16;
         (event_ring, mm) = pmm_alloc_custom (ucast ((sz - 1) div 4096 + 1)) (Present OR Writeable OR DisableCache) mm;
         h = on_mem M (clear_ring event_ring XHCI_MAX_EVENTS) h
     in (\<lparr>erst_base_addr = event_ring, erst_size = ucast XHCI_MAX_EVENTS\<rparr>, mm, h))"

definition init_event_ring_seg_table ::
    "'h hw \<Rightarrow> 'h ram \<Rightarrow> xhci_controller \<Rightarrow> mm \<times> 'h \<Rightarrow> xhci_controller \<times> mm \<times> 'h" where
  "init_event_ring_seg_table H M c = (\<lambda>(mm, h).
     let c = c\<lparr>erst_max := 1\<rparr>;
         sz = ucast (erst_max c) * 16 :: u32;
         (addr, mm) = pmm_alloc_custom (ucast ((sz - 1) div 4096 + 1)) (Present OR Writeable OR DisableCache) mm;
         c = c\<lparr>erst := addr\<rparr>;
         (mm, h) = fold (\<lambda>i (mm, h).
             let (entry, mm, h) = create_event_ring_seg M (mm, h)
             in (mm, on_mem M (write_erst_entry (erst c + of_nat i * 16) entry) h)) [0..<unat (erst_max c)] (mm, h);
         erdp = rd64 (mem_of M h) (erst c);
         h = write_runtime H c (RUNTIME_REG_ERSTSZ 0) (ucast (erst_max c)) h;
         h = write_runtime H c (RUNTIME_REG_ERDP 0) (ucast erdp) h;
         h = write_runtime H c (RUNTIME_REG_ERDP 0 + 4) (ucast (drop_bit 32 erdp)) h;
         h = write_runtime H c (RUNTIME_REG_ERSTBA 0) (ucast addr) h
     in (c, mm, write_runtime H c (RUNTIME_REG_ERSTBA 0 + 4) (ucast (drop_bit 32 addr)) h))"

definition enable_slots :: "'h hw \<Rightarrow> xhci_controller \<Rightarrow> 'h \<Rightarrow> 'h" where
  "enable_slots H c h =
     (let (v, h) = read_op_reg H c OP_REG_CONFIG h;
          h = write_op_reg H c OP_REG_CONFIG ((v AND NOT 0xff) OR ucast (max_dev_slots c)) h
      in snd (read_op_reg H c OP_REG_CONFIG h))"

definition start_controller :: "'h hw \<Rightarrow> xhci_controller \<Rightarrow> 'h \<Rightarrow> 'h" where
  "start_controller H c h =
     snd (wait_op_bits H c OP_REG_USBSTS USBSTS_HCH 0 (write_op_reg H c OP_REG_USBCMD USBCMD_RUN h))"

section \<open>Commands and events\<close>

definition queue_cmd :: "xhci_controller \<Rightarrow> xhci_trb \<Rightarrow> memory \<Rightarrow> xhci_controller \<times> memory" where
  "queue_cmd c trb m =
     (let trb = (if cmd_pcs c \<noteq> 0 then trb\<lparr>trb_flags := trb_flags trb OR TRB_CYCLE_BIT\<rparr>
                 else trb\<lparr>trb_flags := trb_flags trb AND NOT TRB_CYCLE_BIT\<rparr>);
          m = write_trb (trb_at (cmd_ring c) (cmd_ring_idx c)) trb m;
          c = c\<lparr>cmd_ring_idx := cmd_ring_idx c + 1\<rparr>
      in if cmd_ring_idx c \<ge> XHCI_MAX_COMMANDS then
           (let m = upd_flags (trb_at (cmd_ring c) (XHCI_MAX_COMMANDS - 1)) (\<lambda>f. f OR TRB_TC_BIT) m;
                m = (if cmd_pcs c \<noteq> 0
                     then upd_flags (trb_at (cmd_ring c) (XHCI_MAX_COMMANDS - 1)) (\<lambda>f. f OR TRB_CYCLE_BIT) m else m)
            in (c\<lparr>cmd_ring_idx := 0, cmd_pcs := cmd_pcs c XOR 1\<rparr>, m))
         else (c, m))"

text \<open>
  One turn of the loop of \<open>process_event\<close>; \<open>erdp\<close> is the address it reads before the loop. The result is the event it
  reports, if the next one has arrived. The flags are read twice.
\<close>

definition next_event :: "xhci_controller \<Rightarrow> xhci_controller" where
  "next_event c =
     (let c = c\<lparr>event_idx := event_idx c + 1\<rparr>
      in if event_idx c = XHCI_MAX_EVENTS then c\<lparr>event_idx := 0, event_ccs := event_ccs c XOR 1\<rparr> else c)"

definition event_turn ::
    "'h hw \<Rightarrow> 'h ram \<Rightarrow> u64 \<Rightarrow> xhci_controller \<Rightarrow> 'h \<Rightarrow> xhci_trb option \<times> xhci_controller \<times> 'h" where
  "event_turn H M erdp c h =
     (let cycle_bit = (if rd32 (mem_of M h) (trb_at erdp (event_idx c) + 12) AND TRB_CYCLE_BIT \<noteq> 0 then 1 else 0)
      in if cycle_bit \<noteq> event_ccs c then (None, c, h)
         else let trb = read_trb (mem_of M h) (trb_at erdp (event_idx c));
                  c = next_event c;
                  h = write_runtime H c (RUNTIME_REG_ERDP 0) (ucast (trb_at erdp (event_idx c))) h
              in (Some trb, c, write_runtime H c (RUNTIME_REG_ERDP 0 + 4) (ucast (drop_bit 32 (trb_at erdp (event_idx c)))) h))"

text \<open>The first \<open>n\<close> turns and the events they report, in order. \<open>process_event\<close> itself does not return.\<close>

primrec event_turns ::
    "'h hw \<Rightarrow> 'h ram \<Rightarrow> u64 \<Rightarrow> nat \<Rightarrow> xhci_controller \<Rightarrow> 'h \<Rightarrow> xhci_trb list \<times> xhci_controller \<times> 'h" where
  "event_turns H M erdp 0 c h = ([], c, h)"
| "event_turns H M erdp (Suc n) c h =
     (let (e, c, h) = event_turn H M erdp c h; (es, c, h) = event_turns H M erdp n c h
      in ((case e of None \<Rightarrow> es | Some trb \<Rightarrow> trb # es), c, h))"

definition process_event :: "'h hw \<Rightarrow> 'h ram \<Rightarrow> nat \<Rightarrow> xhci_controller \<Rightarrow> 'h \<Rightarrow> xhci_trb list \<times> xhci_controller \<times> 'h" where
  "process_event H M n c h = event_turns H M (rd64 (mem_of M h) (erst c)) n c h"

definition send_xhci_cmd :: "'h hw \<Rightarrow> 'h ram \<Rightarrow> u32 \<Rightarrow> xhci_controller \<Rightarrow> 'h \<Rightarrow> xhci_controller \<times> 'h" where
  "send_xhci_cmd H M trb_type c h =
     (let trb = \<lparr>trb_addr = 0, trb_status = 0, trb_flags = 0\<rparr>;
          trb = trb\<lparr>trb_flags := trb_flags trb OR trb_type\<rparr>;
          (c, m) = queue_cmd c trb (mem_of M h)
      in (c, ring H c 0 0 (with_mem M m h)))"

definition no_op_cmd :: "'h hw \<Rightarrow> 'h ram \<Rightarrow> xhci_controller \<Rightarrow> 'h \<Rightarrow> xhci_controller \<times> 'h" where
  "no_op_cmd H M c h = send_xhci_cmd H M TRB_TYPE_NO_OP_CMD c h"

definition enable_slot_cmd :: "'h hw \<Rightarrow> 'h ram \<Rightarrow> xhci_controller \<Rightarrow> 'h \<Rightarrow> xhci_controller \<times> 'h" where
  "enable_slot_cmd H M c h = send_xhci_cmd H M TRB_TYPE_ENABLE_SLOT_CMD c h"

section \<open>Initialisation\<close>

text \<open>
  The initialisation of a controller fails, or ends in the event loop with the state that the loop starts from.
  A register of 8 or 16 bits is a part of the double word that contains it.
\<close>

datatype 'h xhci_outcome =
    Returned "'h xhci"
  | Looping xhci_controller "'h xhci"

definition enable_device :: "'h hw \<Rightarrow> pci_dev \<Rightarrow> 'h \<Rightarrow> 'h" where
  "enable_device H dev h =
     (let (cmd, h) = pci_readd H (dev_bus dev) (dev_slot dev) (dev_func dev) 0x4 h
      in pci_writed H (dev_bus dev) (dev_slot dev) (dev_func dev) 0x4 ((cmd OR (4 OR 2)) AND NOT (1 OR 0x400)) h)"

definition read_capabilities :: "'h hw \<Rightarrow> pci_bar \<Rightarrow> 'h \<Rightarrow> xhci_controller \<times> u32 \<times> 'h" where
  "read_capabilities H bar h =
     (let (hcsparams1, h) = mmio_read H (bar_base bar + 0x4) h;
          (hcsparams2, h) = mmio_read H (bar_base bar + 0x8) h;
          (hccparams1, h) = mmio_read H (bar_base bar + 0x10) h;
          (len_version, h) = mmio_read H (bar_base bar) h;
          (rtsoff, h) = mmio_read H (bar_base bar + 0x18) h;
          (dboff, h) = mmio_read H (bar_base bar + 0x14) h;
          (version, h) = mmio_read H (bar_base bar) h;
          len = ucast (len_version AND 0xff) :: u8
      in (\<lparr>x_bar = bar, cap_len = len, max_ports = ucast (HCS_MAX_PORTS hcsparams1),
           max_dev_slots = ucast (HCS_MAX_DEV_SLOTS hcsparams1),
           erst_max = ucast (ucast (HCS2_ERST_MAX hcsparams2) :: u8), cap_regs = bar_base bar,
           op_regs = bar_base bar + ucast len, runtime_regs = bar_base bar + ucast rtsoff,
           doorbell_array = bar_base bar + ucast dboff, dev_ctxs = 0, erst = 0, cmd_ring = 0, cmd_ring_idx = 0,
           cmd_pcs = 1, event_idx = 0, event_ccs = 1, context_size_64 = (hccparams1 AND HCC_CSZ \<noteq> 0)\<rparr>, hccparams1, h))"

definition init_xhci_rings :: "'h hw \<Rightarrow> 'h ram \<Rightarrow> xhci_controller \<Rightarrow> mm \<times> 'h \<Rightarrow> xhci_controller \<times> mm \<times> 'h" where
  "init_xhci_rings H M c = (\<lambda>(mm, h).
     let (c, mm, h) = init_dcbaa H M c (mm, h);
         (c, mm, h) = init_cmd_ring H M c (mm, h)
     in init_event_ring_seg_table H M c (mm, h))"

definition init_xhci_controller :: "'h hw \<Rightarrow> 'h ram \<Rightarrow> pci_dev \<Rightarrow> 'h xhci \<Rightarrow> (fault + 'h xhci_outcome) option" where
  "init_xhci_controller H M dev s =
     (let h = enable_device H dev (xh_hw s);
          (bar0, h) = is_bar_present H dev 0 h
      in if \<not> bar0 then Some (Inr (Returned (s\<lparr>xh_hw := h\<rparr>)))
         else let (bar, h) = get_bar H dev 0 h
         in if bar_size bar = 0 then Some (Inr (Returned (s\<lparr>xh_hw := h\<rparr>)))
         else let mm = map_bar bar (xh_mm s);
                  (c, hccparams1, h) = read_capabilities H bar h
         in if \<not> length (xhci_controllers s) < MAX_XHCI_CONTROLLER then Some (Inl OutOfBounds)
         else let cs = xhci_controllers s @ [c]
         in do {
           h \<leftarrow> xhci_bios_handoff H (ucast (bar_base bar)) hccparams1 h;
           let (halted, h) = halt_controller H c h;
           let (was_reset, h) = reset_controller H c h;
           let (v, h) = read_op_reg H c OP_REG_PAGESIZE h;
           if v AND 1 = 0 then Some (Inr (Returned (s\<lparr>xh_hw := h, xh_mm := mm, xhci_controllers := cs\<rparr>)))
           else let (v, h) = read_op_reg H c OP_REG_USBSTS h;
                    h = write_op_reg H c OP_REG_USBSTS v h;
                    h = write_op_reg H c OP_REG_DNCTRL 0 h;
                    h = enable_slots H c h;
                    (c, mm, h) = init_xhci_rings H M c (mm, h);
                    h = write_runtime H c (RUNTIME_REG_IMOD 0) 0 h;
                    h = write_runtime H c (RUNTIME_REG_IMAN 0) 0 h;
                    (v, h) = read_op_reg H c OP_REG_USBCMD h;
                    h = write_op_reg H c OP_REG_USBCMD (v AND NOT USBCMD_INTE) h;
                    h = start_controller H c h;
                    (c, h) = no_op_cmd H M c h;
                    (c, h) = enable_slot_cmd H M c h
                in Some (Inr (Looping c (s\<lparr>xh_hw := h, xh_mm := mm, xhci_controllers := cs\<rparr>))) })"

definition is_xhci :: "pci_dev \<Rightarrow> bool" where
  "is_xhci d \<longleftrightarrow> dev_class d = 0xc \<and> dev_subclass d = 0x3 \<and> dev_prog_if d = 0x30"

primrec init_xhci_in :: "'h hw \<Rightarrow> 'h ram \<Rightarrow> pci_dev list \<Rightarrow> 'h xhci \<Rightarrow> (fault + 'h xhci_outcome) option" where
  "init_xhci_in H M [] s = Some (Inr (Returned s))"
| "init_xhci_in H M (d # ds) s =
     (if is_xhci d then
        (case init_xhci_controller H M d s of
           Some (Inr (Returned s)) \<Rightarrow> init_xhci_in H M ds s
         | r \<Rightarrow> r)
      else init_xhci_in H M ds s)"

definition init_xhci :: "'h hw \<Rightarrow> 'h ram \<Rightarrow> 'h pci \<Rightarrow> 'h xhci \<Rightarrow> (fault + 'h xhci_outcome) option" where
  "init_xhci H M p s = init_xhci_in H M (take (get_pci_devs_len p) (get_pci_devs p)) s"

end
