(* ===== verification/Xhci_Rings.thy ===== *)
theory Xhci_Rings
  imports Xhci
begin

text \<open>
  Correctness of the rings that the XHCI driver shares with its controller: the event ring delivers what the controller
  posts, the command ring delivers what the driver queues (up to its last element), the controller's registers hold the
  addresses of both rings after the initialisation, and waits for registers are bounded.
\<close>

section \<open>Elements of a ring\<close>

lemma write_trb_other:
  assumes "16 \<le> unat (x - a)"
  shows "write_trb a t m x = m x"
proof -
  have "4 \<le> unat (x - (a + of_nat k))" if "k \<le> 12" for k
  proof -
    have "(of_nat k :: u64) \<le> x - a" using assms that by (simp add: word_le_nat_alt unat_of_nat)
    then have "unat (x - a - of_nat k) = unat (x - a) - k" using that by (simp add: unat_sub unat_of_nat)
    then show ?thesis using assms that by (simp add: diff_diff_eq)
  qed
  from this [of 8] this [of 12] show ?thesis using assms by (simp add: write_trb_def wr32_other wr64_other)
qed

lemma read_trb_cong:
  assumes "\<And>k. k < 16 \<Longrightarrow> m (a + of_nat k) = m' (a + of_nat k)"
  shows "read_trb m a = read_trb m' a"
proof -
  have "rd32 m (a + of_nat j) = rd32 m' (a + of_nat j)" if "j \<le> 12" for j
    by (rule rd32_cong) (use assms that in \<open>simp add: add.assoc flip: of_nat_add\<close>)
  from this [of 0] this [of 4] this [of 8] this [of 12] show ?thesis by (simp add: read_trb_def rd64_def)
qed

lemma rd32_wr32_far:
  "rd32 (wr32 (a + 12) v m) (a + 8) = rd32 m (a + 8)" "rd32 (wr32 (a + 8) v m) a = rd32 m a"
  "rd32 (wr32 (a + 8) v m) (a + 4) = rd32 m (a + 4)" "rd32 (wr32 (a + 8) v m) (a + 12) = rd32 m (a + 12)"
  for a :: u64
  by (simp_all add: rd32_def rd16_def wr32_def wr16_apply add.commute [of a])

lemma read_write_trb [simp]: "read_trb (write_trb a t m) a = t"
  by (simp add: read_trb_def write_trb_def rd64_def rd32_wr32_near rd32_wr32_far wr64_def join_64)

lemma read_trb_flags [simp]: "trb_flags (read_trb m a) = rd32 m (a + 12)"
  by (simp add: read_trb_def)

lemma read_upd_flags: "read_trb (upd_flags a f m) a = (read_trb m a)\<lparr>trb_flags := f (rd32 m (a + 12))\<rparr>"
  by (simp add: read_trb_def upd_flags_def rd64_def rd32_wr32_near rd32_wr32_far)

lemma upd_flags_other: "16 \<le> unat (x - a) \<Longrightarrow> upd_flags a f m x = m x"
proof -
  assume x: "16 \<le> unat (x - a)"
  then have "unat (x - a - 12) = unat (x - a) - 12" by (simp add: unat_sub word_le_nat_alt)
  then have "4 \<le> unat (x - (a + 12))" using x by (simp add: diff_diff_eq)
  then show ?thesis by (simp add: upd_flags_def wr32_other)
qed

text \<open>Different elements do not overlap.\<close>

lemma trb_at_apart:
  assumes "i \<noteq> j" "k < 16"
  shows "16 \<le> unat (trb_at b i + of_nat k - trb_at b j)"
proof -
  let ?x = "of_nat (16 * unat i + k) :: u64" and ?y = "of_nat (16 * unat j) :: u64"
  have ij: "unat i < 2 ^ 32" "unat j < 2 ^ 32" using unat_lt2p [of i] unat_lt2p [of j] by simp_all
  have "unat i \<noteq> unat j" using assms(1) unsigned_word_eqI by blast
  have "trb_at b i + of_nat k - trb_at b j = ?x - ?y"
    by (simp add: trb_at_def)
  moreover have "unat ?x = 16 * unat i + k" "unat ?y = 16 * unat j"
    using ij assms(2) by (simp_all add: unat_of_nat del: of_nat_add of_nat_mult)
  ultimately show ?thesis using ij \<open>unat i \<noteq> unat j\<close> assms(2) by (simp only: unat_sub_if') auto
qed

lemma read_write_other [simp]: "i \<noteq> j \<Longrightarrow> read_trb (write_trb (trb_at b j) t m) (trb_at b i) = read_trb m (trb_at b i)"
  by (rule read_trb_cong, rule write_trb_other, rule trb_at_apart)

lemma read_upd_other [simp]: "i \<noteq> j \<Longrightarrow> read_trb (upd_flags (trb_at b j) f m) (trb_at b i) = read_trb m (trb_at b i)"
  by (rule read_trb_cong, rule upd_flags_other, rule trb_at_apart)

lemma clear_ring_read:
  assumes "i < n"
  shows "read_trb (clear_ring b n m) (trb_at b i) = zero_trb"
proof -
  have "k \<le> unat n \<Longrightarrow> read_trb (fold (\<lambda>i. write_trb (trb_at b (of_nat i)) zero_trb) [0..<k] m) (trb_at b i) =
      (if unat i < k then zero_trb else read_trb m (trb_at b i))" for k
  proof (induction k)
    case (Suc k)
    have "i = of_nat k \<longleftrightarrow> unat i = k"
      using Suc.prems unat_lt2p [of n] by (auto simp: unat_of_nat)
    with Suc show ?case by (cases "i = of_nat k") auto
  qed simp
  from this [of "unat n"] show ?thesis using assms by (simp add: clear_ring_def word_less_nat_alt)
qed

section \<open>The event ring is a queue\<close>

text \<open>
  The interface: writes to the \<open>quiet\<close> registers do not change the shared memory, and \<open>reg\<close> is what the controller holds in
  its registers: a quiet one keeps what was written last. The controller's side of the ring, as
  its specification has it: the events go to the elements 0 to 31 in turn, the cycle bit is set in the first pass and
  changes with every pass, and there are never more than 32 events that were not taken.
\<close>

locale quiet_registers = shared_memory +
  fixes H :: "'a hw" and quiet :: "u64 \<Rightarrow> bool" and reg :: "'a \<Rightarrow> u64 \<Rightarrow> u32"
  assumes quiet_write: "quiet a \<Longrightarrow> mem_of M (mmio_write H a v h) = mem_of M h"
    and reg_write: "quiet a \<Longrightarrow> reg (mmio_write H a v h) = (reg h)(a := v)"
    and reg_mem: "reg (with_mem M m h) = reg h"

definition cycle :: "xhci_trb \<Rightarrow> bool" where
  "cycle t \<longleftrightarrow> trb_flags t AND TRB_CYCLE_BIT \<noteq> 0"

inductive ring_run :: "'h hw \<Rightarrow> 'h ram \<Rightarrow> u64 \<Rightarrow> u64 \<Rightarrow> xhci_controller \<Rightarrow> 'h \<Rightarrow> xhci_trb list \<Rightarrow> xhci_trb list \<Rightarrow> bool"
  for H M erdp regs where
  start: "ring_run H M erdp regs c h [] []"
    if "runtime_regs c = regs" "event_idx c = 0" "event_ccs c = 1"
      "\<forall>i<32. read_trb (mem_of M h) (trb_at erdp i) = zero_trb"
| post: "ring_run H M erdp regs c h' (posted @ [t]) seen"
    if "ring_run H M erdp regs c h posted seen" "length posted < length seen + 32"
      "cycle t = even (length posted div 32)"
      "\<forall>i<32. read_trb (mem_of M h') (trb_at erdp i) =
         (if i = of_nat (length posted mod 32) then t else read_trb (mem_of M h) (trb_at erdp i))"
| turn: "ring_run H M erdp regs c' h' posted (seen @ (case e of None \<Rightarrow> [] | Some t \<Rightarrow> [t]))"
    if "ring_run H M erdp regs c h posted seen" "event_turn H M erdp c h = (e, c', h')"

definition ring_holds :: "memory \<Rightarrow> u64 \<Rightarrow> xhci_trb list \<Rightarrow> bool" where
  "ring_holds m erdp posted \<longleftrightarrow>
     (\<forall>j<length posted. cycle (posted ! j) = even (j div 32)) \<and>
     (\<forall>j<length posted. length posted \<le> j + 32 \<longrightarrow> read_trb m (trb_at erdp (of_nat (j mod 32))) = posted ! j) \<and>
     (\<forall>i<32. length posted \<le> i \<longrightarrow> read_trb m (trb_at erdp (of_nat i)) = zero_trb)"

definition consumer_at :: "xhci_controller \<Rightarrow> nat \<Rightarrow> bool" where
  "consumer_at c k \<longleftrightarrow> event_idx c = of_nat (k mod 32) \<and> event_ccs c = (if even (k div 32) then 1 else 0)"

lemma slot_eq: "(of_nat (i mod 32) :: u32) = of_nat (j mod 32) \<longleftrightarrow> i mod 32 = j mod 32"
proof -
  have "unat (of_nat (n mod 32) :: u32) = n mod 32" for n by (simp add: unat_of_nat) 
  then show ?thesis by (metis of_nat_eq_iff)
qed

lemma slots_differ: "j < p \<Longrightarrow> p < j + 32 \<Longrightarrow> j mod 32 \<noteq> p mod (32 :: nat)"
proof
  assume j: "j < p" "p < j + 32" and "j mod 32 = p mod 32"
  then have "32 dvd p - j" using mod_eq_dvd_iff_nat [of j p 32] by simp
  then show False using j dvd_imp_le [of 32 "p - j"] by simp
qed

lemma ring_holds_post:
  assumes "ring_holds m erdp ps" "cycle t = even (length ps div 32)"
    and "\<forall>i<32. read_trb m' (trb_at erdp i) = (if i = of_nat (length ps mod 32) then t else read_trb m (trb_at erdp i))"
  shows "ring_holds m' erdp (ps @ [t])"
proof -
  have "(of_nat (j mod 32) :: u32) < 32" for j by (simp add: word_less_nat_alt unat_of_nat)
  with assms(3) have r: "read_trb m' (trb_at erdp (of_nat (j mod 32))) =
      (if j mod 32 = length ps mod 32 then t else read_trb m (trb_at erdp (of_nat (j mod 32))))" for j
    using slot_eq [of j "length ps"] by simp
  have "read_trb m' (trb_at erdp (of_nat (j mod 32))) = (ps @ [t]) ! j" if "j < Suc (length ps)" "Suc (length ps) \<le> j + 32" for j
  proof (cases "j = length ps")
    case False
    then have "j mod 32 \<noteq> length ps mod 32" using that by (intro slots_differ) simp_all
    then show ?thesis using assms(1) that False by (simp add: r ring_holds_def nth_append)
  qed (simp add: r)
  moreover have "read_trb m' (trb_at erdp (of_nat i)) = zero_trb" if "i < 32" "Suc (length ps) \<le> i" for i
  proof -
    have "i mod 32 = i" "length ps mod 32 \<noteq> i" using that by simp_all
    then show ?thesis using r [of i] assms(1) that by (auto simp: ring_holds_def)
  qed
  ultimately show ?thesis using assms(1,2) by (auto simp: ring_holds_def nth_append less_Suc_eq)
qed

lemma next_event_at: "consumer_at c k \<Longrightarrow> consumer_at (next_event c) (Suc k)"
proof -
  assume c: "consumer_at c k"
  have k: "k mod 32 < 32" by simp
  have i: "(of_nat (k mod 32) + 1 :: u32) = 32 \<longleftrightarrow> k mod 32 = 31"
  proof -
    have "unat (of_nat (k mod 32) + 1 :: u32) = k mod 32 + 1"
      using k by (simp add: unat_word_ariths unat_of_nat)
    then show ?thesis by (auto simp: word_unat_eq_iff)
  qed
  show ?thesis
  proof (cases "k mod 32 = 31")
    case True
    then have "Suc k mod 32 = 0" "Suc k div 32 = Suc (k div 32)" by (simp_all add: mod_Suc div_Suc)
    then show ?thesis using c i True by (simp add: next_event_def consumer_at_def Let_def)
  next
    case False
    then have "Suc k mod 32 = Suc (k mod 32)" "Suc k div 32 = k div 32" using k by (simp_all add: mod_Suc div_Suc)
    then show ?thesis using c i False by (simp add: next_event_def consumer_at_def Let_def add.commute)
  qed
qed

text \<open>What one turn reports.\<close>

lemma turn_reports:
  assumes "ring_holds (mem_of M h) erdp ps" "consumer_at c k" "k \<le> length ps" "length ps \<le> k + 32"
  shows "fst (event_turn H M erdp c h) = (if k < length ps then Some (ps ! k) else None)"
proof -
  let ?t = "read_trb (mem_of M h) (trb_at erdp (event_idx c))"
  have i: "event_idx c = of_nat (k mod 32)" and ccs: "event_ccs c = (if even (k div 32) then 1 else 0)"
    using assms(2) by (simp_all add: consumer_at_def)
  have turn: "fst (event_turn H M erdp c h) = (if cycle ?t = even (k div 32) then Some ?t else None)"
    by (auto simp: event_turn_def cycle_def ccs Let_def)
  show ?thesis
  proof (cases "k < length ps")
    case True
    then have "?t = ps ! k" "cycle (ps ! k) = even (k div 32)" using assms(1,4) by (simp_all add: ring_holds_def i)
    then show ?thesis using True by (simp add: turn)
  next
    case False
    then have k: "k = length ps" using assms(3) by simp
    have "cycle ?t \<noteq> even (k div 32)"
    proof (cases "k < 32")
      case True
      then have "?t = zero_trb" using assms(1) by (simp add: ring_holds_def i k)
      then show ?thesis using True by (simp add: cycle_def zero_trb_def)
    next
      case False
      then have "k mod 32 = (k - 32) mod 32" "k div 32 = Suc ((k - 32) div 32)"
        by (simp_all add: le_mod_geq le_div_geq)
      moreover have "read_trb (mem_of M h) (trb_at erdp (of_nat ((k - 32) mod 32))) = ps ! (k - 32)"
        "cycle (ps ! (k - 32)) = even ((k - 32) div 32)"
        using assms(1) False k by (simp_all add: ring_holds_def)
      ultimately show ?thesis by (simp add: i)
    qed
    then show ?thesis using False by (simp add: turn)
  qed
qed

context quiet_registers
begin

lemma run_invariant:
  assumes "ring_run H M erdp regs c h posted seen" "quiet (regs + 0x38)" "quiet (regs + 0x3c)"
  shows "runtime_regs c = regs \<and> ring_holds (mem_of M h) erdp posted \<and> consumer_at c (length seen) \<and>
    length seen \<le> length posted \<and> length posted \<le> length seen + 32 \<and> seen = take (length seen) posted"
  using assms
proof (induction rule: ring_run.induct)
  case (start c h)
  have "(of_nat i :: u32) < 32" if "i < 32" for i using that by (simp add: word_less_nat_alt unat_of_nat)
  then show ?case using start by (auto simp: ring_holds_def consumer_at_def)
next
  case (post c h posted seen t h')
  then show ?case using ring_holds_post [of "mem_of M h" erdp posted t "mem_of M h'"] by auto
next
  case (turn c h posted seen e c' h')
  then have inv: "runtime_regs c = regs" "ring_holds (mem_of M h) erdp posted" "consumer_at c (length seen)"
    "length seen \<le> length posted" "length posted \<le> length seen + 32" "seen = take (length seen) posted" by simp_all
  have e: "e = (if length seen < length posted then Some (posted ! length seen) else None)"
    using turn_reports [OF inv(2-5), of H] turn.hyps(2) by simp
  show ?case
  proof (cases e)
    case None
    then have "c' = c \<and> h' = h" using turn.hyps(2) by (auto simp: event_turn_def Let_def split: if_splits)
    then show ?thesis using None inv by simp
  next
    case (Some t)
    then have s: "length seen < length posted" "t = posted ! length seen" using e by (simp_all split: if_splits)
    have "c' = next_event c" "mem_of M h' = mem_of M h"
      using Some turn.hyps(2) turn.prems inv(1) quiet_write
      by (auto simp: event_turn_def Let_def write_runtime_def next_event_def split: if_splits)
    moreover have "runtime_regs (next_event c) = regs" using inv(1) by (simp add: next_event_def Let_def)
    moreover have "seen @ [t] = take (Suc (length seen)) posted"
      using inv(6) s by (simp add: take_Suc_conv_app_nth)
    ultimately show ?thesis using Some inv s next_event_at [OF inv(3)] by simp
  qed
qed

end

section \<open>A machine with registers and memory\<close>

record box =
  box_mem :: memory
  box_regs :: "u64 \<Rightarrow> u32"

definition box_ram :: "box ram" where
  "box_ram = \<lparr>mem_of = box_mem, with_mem = (\<lambda>m h. h\<lparr>box_mem := m\<rparr>)\<rparr>"

definition box_hw :: "box hw" where
  "box_hw =
     \<lparr>mmio_read = (\<lambda>a h. (box_regs h a, h)), mmio_write = (\<lambda>a v h. h\<lparr>box_regs := (box_regs h)(a := v)\<rparr>),
      port_in = (\<lambda>port h. (0, h)), port_out = (\<lambda>port v h. h), port_in32 = (\<lambda>port h. (0, h)), port_out32 = (\<lambda>port v h. h),
      rdmsr = (\<lambda>msr h. ((0, 0), h)), wrmsr = (\<lambda>msr high low h. h), interrupt_flag = (\<lambda>b h. h)\<rparr>"

interpretation box: quiet_registers box_ram box_hw "\<lambda>_. True" box_regs
  by unfold_locales (simp_all add: box_ram_def box_hw_def)

definition box_sample :: box where
  "box_sample = \<lparr>box_mem = (\<lambda>a. 0), box_regs = (\<lambda>a. 1)\<rparr>"

definition box_controller :: xhci_controller where
  "box_controller = \<lparr>x_bar = \<lparr>bar_base = 0xfe000000, bar_size = 0x4000, is_64bits = False, is_prefetchable = False, is_mmio = True\<rparr>,
     cap_len = 0x40, max_ports = 4, max_dev_slots = 32, erst_max = 1, cap_regs = 0xfe000000, op_regs = 0xfe000040,
     runtime_regs = 0xfe001000, doorbell_array = 0xfe002000, dev_ctxs = 0, erst = 0x4000, cmd_ring = 0x6000, cmd_ring_idx = 0,
     cmd_pcs = 1, event_idx = 0, event_ccs = 1, context_size_64 = False\<rparr>"

lemma zero_memory: "read_trb (\<lambda>a. 0) a = zero_trb"
  by (simp add: read_trb_def zero_trb_def rd64_def rd32_def rd16_def)

text \<open>C24:
  The event ring is a queue. However posting by the controller and turns of the loop follow each other, the events
  reported so far are the first of those posted, in order, none twice and none lost, the next turn reports the next
  event or nothing if all are reported, and the index stays inside the ring.
\<close>

theorem event_ring_fifo:
  assumes "quiet_registers M H quiet reg" "quiet (regs + 0x38)" "quiet (regs + 0x3c)"
    and "ring_run H M erdp regs c h posted seen"
  shows "seen = take (length seen) posted \<and> event_idx c < 32 \<and>
    fst (event_turn H M erdp c h) = (if length seen < length posted then Some (posted ! length seen) else None)"
proof -
  note inv = quiet_registers.run_invariant [OF assms(1,4,2,3)]
  then have "event_idx c = of_nat (length seen mod 32)" by (simp add: consumer_at_def)
  then have "event_idx c < 32" by (simp add: word_less_nat_alt unat_of_nat)
  then show ?thesis using inv turn_reports [of M h erdp posted c "length seen" H] by simp
qed

theorem event_ring_fifo_witness:
  "fst (event_turn box_hw box_ram 0x5000 box_controller
     (box_sample\<lparr>box_mem := write_trb (trb_at 0x5000 0) \<lparr>trb_addr = 7, trb_status = 0, trb_flags = 0x8401\<rparr> (box_mem box_sample)\<rparr>)) =
   Some \<lparr>trb_addr = 7, trb_status = 0, trb_flags = 0x8401\<rparr>"
proof -
  let ?t = "\<lparr>trb_addr = 7, trb_status = 0, trb_flags = 0x8401\<rparr> :: xhci_trb"
  let ?h = "box_sample\<lparr>box_mem := write_trb (trb_at 0x5000 0) ?t (box_mem box_sample)\<rparr>"
  have "ring_run box_hw box_ram 0x5000 0xfe001000 box_controller box_sample [] []"
    by (rule ring_run.start) (simp_all add: box_controller_def box_ram_def box_sample_def zero_memory)
  then have "ring_run box_hw box_ram 0x5000 0xfe001000 box_controller ?h ([] @ [?t]) []"
  proof (rule ring_run.post)
    show "\<forall>i<32. read_trb (mem_of box_ram ?h) (trb_at 0x5000 i) =
        (if i = of_nat (length ([] :: xhci_trb list) mod 32) then ?t else read_trb (mem_of box_ram box_sample) (trb_at 0x5000 i))"
      by (auto simp: box_ram_def)
  qed (simp_all add: cycle_def)
  from event_ring_fifo [OF box.quiet_registers_axioms TrueI TrueI this] show ?thesis by simp
qed

section \<open>The ring after initialisation\<close>

lemma erst_entry_read:
  "rd64 (write_erst_entry a e m) a = erst_base_addr e" "rd16 (write_erst_entry a e m) (a + 8) = erst_size e" "16 \<le> unat (x - a) \<Longrightarrow> write_erst_entry a e m x = m x"
proof -
  have far: "rd32 (wr16 (b + k) v m') b = rd32 m' b" if "k = 8 \<or> k = 10" for b k :: u64 and v m'
    using that by (auto simp: rd32_def rd16_def wr16_apply add.commute [of b])
  have far4: "rd32 (wr16 (b + k) v m') (b + 4) = rd32 m' (b + 4)" if "k = 8 \<or> k = 10" for b k :: u64 and v m'
    using that by (auto simp: rd32_def rd16_def wr16_apply add.commute [of b])
  show "rd64 (write_erst_entry a e m) a = erst_base_addr e"
    by (simp add: write_erst_entry_def rd64_def rd32_wr32_near far far4 wr64_def join_64)
  show "rd16 (write_erst_entry a e m) (a + 8) = erst_size e"
    by (simp add: write_erst_entry_def rd16_def wr64_def wr32_def wr16_apply add.commute [of a])
      (rule bit_word_eqI, auto simp: bit_simps)
  assume x: "16 \<le> unat (x - a)"
  have "x \<noteq> a + 8" "x \<noteq> a + 8 + 1" "x \<noteq> a + 10" "x \<noteq> a + 10 + 1" using x by (auto simp: add.assoc)
  moreover have "unat (x - a - 12) = unat (x - a) - 12" using x by (simp add: unat_sub word_le_nat_alt)
  then have "4 \<le> unat (x - (a + 12))" using x by (simp add: diff_diff_eq)
  ultimately show "write_erst_entry a e m x = m x"
    using x by (simp add: write_erst_entry_def wr32_other wr16_apply wr64_other)
qed

text \<open>The two 32-bit halves of an address.\<close>

definition join_words :: "u32 \<Rightarrow> u32 \<Rightarrow> u64" where
  "join_words low_half high_half = push_bit 32 (ucast high_half) OR ucast low_half"

text \<open>The event ring does not meet the segment table.\<close>

definition ring_apart :: "u64 \<Rightarrow> u64 \<Rightarrow> bool" where
  "ring_apart table erdp \<longleftrightarrow> 16 \<le> unat (erdp - table) \<and> unat (erdp - table) \<le> 2 ^ 64 - 512"

lemma ring_apart_bytes:
  assumes "ring_apart table erdp" "i < 32" "k < 16"
  shows "16 \<le> unat (trb_at erdp i + of_nat k - table)"
proof -
  have i: "16 * unat i + k < 512" using assms(2,3) by (simp add: word_less_nat_alt)
  have eq: "trb_at erdp i + of_nat k - table = (erdp - table) + of_nat (16 * unat i + k)"
    by (simp add: trb_at_def)
  have "unat (of_nat (16 * unat i + k) :: u64) = 16 * unat i + k"
    using i by (simp add: unat_of_nat del: of_nat_add of_nat_mult)
  then have "unat ((erdp - table) + of_nat (16 * unat i + k)) = unat (erdp - table) + (16 * unat i + k)"
    using assms(1) i by (subst unat_add_lem [THEN iffD1]) (simp_all add: ring_apart_def del: of_nat_add of_nat_mult)
  then show ?thesis unfolding eq using assms(1) by (simp add: ring_apart_def)
qed

context quiet_registers
begin

lemma init_event_ring:
  assumes "\<forall>off \<in> {0x28, 0x30, 0x34, 0x38, 0x3c}. quiet (runtime_regs c + off)"
    and a: "pmm_alloc_custom 1 0x13 mm = (a, mm1)" and b: "pmm_alloc_custom 1 0x13 mm1 = (b, mm2)"
    and init: "init_event_ring_seg_table H M c (mm, h) = (c', mm', h')"
  shows "c' = c\<lparr>erst_max := 1, erst := a\<rparr>"
    "mem_of M h' = write_erst_entry a \<lparr>erst_base_addr = b, erst_size = 32\<rparr> (clear_ring b 32 (mem_of M h))"
    "reg h' = (reg h)(runtime_regs c + 0x28 := 1, runtime_regs c + 0x38 := ucast b, runtime_regs c + 0x3c := ucast (drop_bit 32 b),
       runtime_regs c + 0x30 := ucast a, runtime_regs c + 0x34 := ucast (drop_bit 32 a))"
proof -
  have w: "mem_of M (write_runtime H c'' off v h) = mem_of M h"
    if "runtime_regs c'' = runtime_regs c" "off \<in> {0x28, 0x30, 0x34, 0x38, 0x3c}" for c'' off v h
    using quiet_write assms(1) that by (auto simp: write_runtime_def)
  show "c' = c\<lparr>erst_max := 1, erst := a\<rparr>"
    "mem_of M h' = write_erst_entry a \<lparr>erst_base_addr = b, erst_size = 32\<rparr> (clear_ring b 32 (mem_of M h))"
    using init by (auto simp: init_event_ring_seg_table_def create_event_ring_seg_def Let_def a b w mem_with on_mem_def)
  have r: "reg (write_runtime H c'' off v h) = (reg h)(runtime_regs c + ucast off := v)"
    if "runtime_regs c'' = runtime_regs c" "off \<in> {0x28, 0x30, 0x34, 0x38, 0x3c}" for c'' off v h
    using reg_write assms(1) that by (auto simp: write_runtime_def)
  show "reg h' = (reg h)(runtime_regs c + 0x28 := 1, runtime_regs c + 0x38 := ucast b, runtime_regs c + 0x3c := ucast (drop_bit 32 b),
       runtime_regs c + 0x30 := ucast a, runtime_regs c + 0x34 := ucast (drop_bit 32 a))"
    using init by (auto simp: init_event_ring_seg_table_def create_event_ring_seg_def Let_def a b r mem_with on_mem_def reg_mem
        erst_entry_read)
qed

end

text \<open>C28:
  Initialisation leaves an empty queue that the controller finds: the segment table has one entry, and the controller holds
  that number, the address of the table and, as the position of the driver, the address of the ring; the entry is the
  ring's address and its 32 elements; and the ring is clear, so every event posted from then on is reported.
\<close>

theorem event_ring_initialised:
  assumes quiet: "quiet_registers M H quiet reg" "\<forall>off \<in> {0x28, 0x30, 0x34, 0x38, 0x3c}. quiet (runtime_regs c + off)"
    and c: "event_idx c = 0" "event_ccs c = 1"
    and init: "init_event_ring_seg_table H M c (mm, h) = (c', mm', h')"
    and erdp: "erdp = rd64 (mem_of M h') (erst c')" "ring_apart (erst c') erdp"
  shows "ring_run H M erdp (runtime_regs c) c' h' [] [] \<and> rd16 (mem_of M h') (erst c' + 8) = 32 \<and>
    reg h' (runtime_regs c + 0x28) = 1 \<and>
    join_words (reg h' (runtime_regs c + 0x30)) (reg h' (runtime_regs c + 0x34)) = erst c' \<and>
    join_words (reg h' (runtime_regs c + 0x38)) (reg h' (runtime_regs c + 0x3c)) = erdp"
proof -
  obtain a mm1 where a: "pmm_alloc_custom 1 0x13 mm = (a, mm1)" by (metis surj_pair)
  obtain b mm2 where b: "pmm_alloc_custom 1 0x13 mm1 = (b, mm2)" by (metis surj_pair)
  let ?e = "\<lparr>erst_base_addr = b, erst_size = 32\<rparr>" and ?m = "clear_ring b 32 (mem_of M h)"
  note r = quiet_registers.init_event_ring [OF quiet a b init]
  have e: "erdp = b" "erst c' = a" using erdp(1) r by (simp_all add: erst_entry_read)
  have "read_trb (mem_of M h') (trb_at erdp i) = zero_trb" if "i < 32" for i
  proof -
    have "read_trb (write_erst_entry a ?e ?m) (trb_at b i) = read_trb ?m (trb_at b i)"
      by (rule read_trb_cong, rule erst_entry_read(3), rule ring_apart_bytes) (use that erdp(2) e in simp_all)
    then show ?thesis using that by (simp add: e r clear_ring_read)
  qed
  then have "ring_run H M erdp (runtime_regs c) c' h' [] []" using c by (intro ring_run.start) (simp_all add: r)
  moreover have "rd16 (mem_of M h') (erst c' + 8) = 32" by (simp add: r(1,2) erst_entry_read(2))
  moreover have "reg h' (runtime_regs c + 0x28) = 1"
    "join_words (reg h' (runtime_regs c + 0x30)) (reg h' (runtime_regs c + 0x34)) = erst c'"
    "join_words (reg h' (runtime_regs c + 0x38)) (reg h' (runtime_regs c + 0x3c)) = erdp"
    by (simp_all add: r(3) e join_words_def join_halves)
  ultimately show ?thesis by blast
qed

lemma sample_frames:
  "fst (pmm_alloc_custom 1 0x13 sample) = 0x210000"
  "fst (pmm_alloc_custom 1 0x13 (snd (pmm_alloc_custom 1 0x13 sample))) = 0x211000"
  by code_simp+

theorem event_ring_initialised_witness:
  "ring_run box_hw box_ram 0x211000 0xfe001000
     (fst (init_event_ring_seg_table box_hw box_ram box_controller (sample, box_sample)))
     (snd (snd (init_event_ring_seg_table box_hw box_ram box_controller (sample, box_sample)))) [] [] \<and>
   box_regs (snd (snd (init_event_ring_seg_table box_hw box_ram box_controller (sample, box_sample)))) 0xfe001028 = 1 \<and>
   join_words (box_regs (snd (snd (init_event_ring_seg_table box_hw box_ram box_controller (sample, box_sample)))) 0xfe001038)
     (box_regs (snd (snd (init_event_ring_seg_table box_hw box_ram box_controller (sample, box_sample)))) 0xfe00103c) = 0x211000"
proof -
  obtain c mm h where r: "init_event_ring_seg_table box_hw box_ram box_controller (sample, box_sample) = (c, mm, h)"
    by (metis prod_cases3)
  have c: "event_idx box_controller = 0" "event_ccs box_controller = 1" "runtime_regs box_controller = 0xfe001000"
    by (simp_all add: box_controller_def)
  have f: "pmm_alloc_custom 1 0x13 sample = (0x210000, snd (pmm_alloc_custom 1 0x13 sample))"
    "pmm_alloc_custom 1 0x13 (snd (pmm_alloc_custom 1 0x13 sample)) =
       (0x211000, snd (pmm_alloc_custom 1 0x13 (snd (pmm_alloc_custom 1 0x13 sample))))"
    by (simp_all only: sample_frames [symmetric] prod.collapse)
  have "erst c = 0x210000" "mem_of box_ram h =
      write_erst_entry 0x210000 \<lparr>erst_base_addr = 0x211000, erst_size = 32\<rparr> (clear_ring 0x211000 32 (mem_of box_ram box_sample))"
    using box.init_event_ring [OF _ f r] by simp_all
  moreover from this have "rd64 (mem_of box_ram h) (erst c) = 0x211000" by (simp add: erst_entry_read)
  moreover from calculation have "ring_apart (erst c) (rd64 (mem_of box_ram h) (erst c))" by (simp add: ring_apart_def)
  ultimately show ?thesis
    using event_ring_initialised [OF box.quiet_registers_axioms _ c(1,2) r refl] c(3) by (simp add: r)
qed

section \<open>The command ring\<close>

text \<open>
  What the controller takes from the ring, as its specification has it: from its position on, elements whose cycle bit is
  its own; a link leads to another address and changes the cycle bit if it says so.
\<close>

definition is_link :: "xhci_trb \<Rightarrow> bool" where
  "is_link t \<longleftrightarrow> trb_flags t AND 0xfc00 = 0x1800"

primrec fetch :: "nat \<Rightarrow> memory \<Rightarrow> u64 \<Rightarrow> bool \<Rightarrow> xhci_trb list" where
  "fetch 0 m a pcs = []"
| "fetch (Suc n) m a pcs =
     (let t = read_trb m a
      in if cycle t \<noteq> pcs then []
         else if is_link t then fetch n m (trb_addr t) (pcs \<noteq> (trb_flags t AND TRB_TC_BIT \<noteq> 0))
         else t # fetch n m (a + 16) pcs)"

definition with_cycle :: "xhci_trb \<Rightarrow> xhci_trb" where
  "with_cycle t = t\<lparr>trb_flags := trb_flags t OR TRB_CYCLE_BIT\<rparr>"

definition queue_cmds :: "xhci_trb list \<Rightarrow> xhci_controller \<times> memory \<Rightarrow> xhci_controller \<times> memory" where
  "queue_cmds cs = fold (\<lambda>t (c, m). queue_cmd c t m) cs"

text \<open>The ring after its initialisation, and after \<open>cs\<close> were queued.\<close>

definition cmd_ring_state :: "xhci_controller \<Rightarrow> memory \<Rightarrow> u64 \<Rightarrow> xhci_trb list \<Rightarrow> bool" where
  "cmd_ring_state c m a cs \<longleftrightarrow> cmd_ring c = a \<and> cmd_ring_idx c = of_nat (length cs) \<and> cmd_pcs c = 1 \<and>
     (\<forall>i<31. read_trb m (trb_at a (of_nat i)) = (if i < length cs then with_cycle (cs ! i) else zero_trb)) \<and>
     read_trb m (trb_at a 31) = \<lparr>trb_addr = a, trb_status = 0, trb_flags = TRB_TYPE_LINK\<rparr>"

lemma join_words_or: "join_words (ucast a OR f) (ucast (drop_bit 32 a)) = a OR ucast f"
  unfolding join_words_def by (rule bit_word_eqI) (auto simp: bit_simps)

lemma queue_cmd_state:
  assumes "cmd_ring_state c m a cs" "length cs < 31" "queue_cmd c t m = (c', m')"
  shows "cmd_ring_state c' m' a (cs @ [t])"
proof -
  have l: "unat (of_nat (length cs) :: u32) = length cs" using assms(2) by (simp add: unat_of_nat)
  have "unat (of_nat (length cs) + 1 :: u32) = length cs + 1"
    using assms(2) l by (simp add: unat_word_ariths)
  then have "\<not> 32 \<le> (of_nat (length cs) + 1 :: u32)" using assms(2) by (simp add: word_le_nat_alt)
  then have r: "c' = c\<lparr>cmd_ring_idx := of_nat (length cs) + 1\<rparr>" "m' = write_trb (trb_at a (of_nat (length cs))) (with_cycle t) m"
    using assms(1,3) by (auto simp: queue_cmd_def cmd_ring_state_def with_cycle_def Let_def)
  have e: "(of_nat i :: u32) = of_nat (length cs) \<longleftrightarrow> i = length cs" if "i < 32" for i
  proof -
    have "unat (of_nat i :: u32) = i" using that by (simp add: unat_of_nat)
    then show ?thesis using l by metis
  qed
  have "(31 :: u32) \<noteq> of_nat (length cs)" using e [of 31] assms(2) by simp
  then show ?thesis using assms(1) e
    by (auto simp: cmd_ring_state_def r nth_append add.commute less_Suc_eq)
qed

lemma queue_cmds_state:
  assumes "cmd_ring_state c m a cs" "length cs + length ds \<le> 31"
  shows "case queue_cmds ds (c, m) of (c', m') \<Rightarrow> cmd_ring_state c' m' a (cs @ ds)"
  using assms
proof (induction ds arbitrary: c m cs)
  case (Cons t ds)
  obtain c1 m1 where q: "queue_cmd c t m = (c1, m1)" by (metis surj_pair)
  then have "cmd_ring_state c1 m1 a (cs @ [t])" using queue_cmd_state [OF Cons.prems(1) _ q] Cons.prems(2) by simp
  from Cons.IH [OF this] Cons.prems(2) show ?case by (simp add: queue_cmds_def q)
qed (simp add: queue_cmds_def)

lemma ucast_index: "i < 32 \<Longrightarrow> (ucast (of_nat i :: u32) :: u64) = of_nat i"
proof -
  assume "i < 32"
  then have "unat (ucast (of_nat i :: u32) :: u64) = unat (of_nat i :: u64)"
    by (simp add: unsigned_ucast_eq unat_of_nat take_bit_nat_eq_self)
  then show ?thesis by (rule unsigned_word_eqI)
qed

lemma trb_at_next: "i < 31 \<Longrightarrow> trb_at a (of_nat i) + 16 = trb_at a (of_nat (Suc i))"
  using ucast_index [of i] ucast_index [of "Suc i"] by (simp add: trb_at_def algebra_simps)

lemma cycle_with_cycle: "cycle (with_cycle t)" "is_link (with_cycle t) = is_link t"
proof -
  have "(trb_flags t OR 1) AND 1 = 1" "(trb_flags t OR 1) AND 0xfc00 = trb_flags t AND 0xfc00"
    by (simp_all add: bit.conj_disj_distrib2)
  then show "cycle (with_cycle t)" "is_link (with_cycle t) = is_link t"
    by (simp_all add: cycle_def is_link_def with_cycle_def)
qed

lemma fetch_ring:
  assumes "cmd_ring_state c m a cs" "length cs \<le> 31" "\<forall>t\<in>set cs. \<not> is_link t" "i \<le> length cs"
  shows "fetch (Suc (length cs - i)) m (trb_at a (of_nat i)) True = map with_cycle (drop i cs)"
  using assms(4)
proof (induction "length cs - i" arbitrary: i)
  case 0
  then have i: "i = length cs" by simp
  have "\<not> cycle (read_trb m (trb_at a (of_nat i)))"
  proof (cases "i < 31")
    case True
    then show ?thesis using assms(1) i by (simp add: cmd_ring_state_def cycle_def zero_trb_def)
  next
    case False
    then have "i = 31" using assms(2) i by simp
    then show ?thesis using assms(1) by (simp add: cmd_ring_state_def cycle_def TRB_TYPE_LINK_def)
  qed
  then show ?case using i by simp
next
  case (Suc d)
  then have i: "i < length cs" by simp
  then have t: "read_trb m (trb_at a (of_nat i)) = with_cycle (cs ! i)" using assms(1,2) by (simp add: cmd_ring_state_def)
  have "d = length cs - Suc i" "Suc i \<le> length cs" using Suc.hyps(2) i by simp_all
  from Suc.hyps(1) [OF this] have "fetch (Suc d) m (trb_at a (of_nat i) + 16) True = map with_cycle (drop (Suc i) cs)"
    using trb_at_next [of i a] i assms(2) \<open>d = _\<close> by simp
  moreover have "length cs - i = Suc d" using Suc.hyps(2) by simp
  moreover have "\<not> is_link (cs ! i)" using assms(3) i by simp
  ultimately show ?case using i
    by (simp only: fetch.simps(2) [of "Suc d"] t Let_def cycle_with_cycle if_False if_True not_True_eq_False
        simp_thms Cons_nth_drop_Suc [OF i, symmetric] list.map)
qed

context quiet_registers
begin

lemma init_cmd_ring_state:
  assumes "quiet (op_regs c + 0x18)" "quiet (op_regs c + 0x1c)" "cmd_ring_idx c = 0" "cmd_pcs c = 1"
    and "init_cmd_ring H M c (mm, h) = (c', mm', h')"
  shows "cmd_ring_state c' (mem_of M h') (cmd_ring c') []"
    and "join_words (reg h' (op_regs c + 0x18)) (reg h' (op_regs c + 0x1c)) = cmd_ring c' OR ucast CRCR_HCS"
proof -
  obtain a mm1 where a: "pmm_alloc_custom 1 0x13 mm = (a, mm1)" by (metis surj_pair)
  have c': "c' = c\<lparr>cmd_ring := a\<rparr>" and h': "mem_of M h' =
      write_trb (trb_at a 31) \<lparr>trb_addr = a, trb_status = 0, trb_flags = TRB_TYPE_LINK\<rparr> (clear_ring a 32 (mem_of M h))"
    using assms(5)
    by (auto simp: init_cmd_ring_def Let_def a write_op_reg_def quiet_write [OF assms(1)] quiet_write [OF assms(2)]
        mem_with on_mem_def write_trb_def)
  have "(of_nat i :: u32) \<noteq> 31 \<and> (of_nat i :: u32) < 32" if "i < 31" for i
  proof -
    have "unat (of_nat i :: u32) = i" using that by (simp add: unat_of_nat)
    then show ?thesis using that by (auto simp: word_less_nat_alt)
  qed
  then show "cmd_ring_state c' (mem_of M h') (cmd_ring c') []"
    using assms(3,4) by (simp add: cmd_ring_state_def clear_ring_read c' h')
  have "reg h' = (reg h)(op_regs c + 0x18 := ucast a OR CRCR_HCS, op_regs c + 0x1c := ucast (drop_bit 32 a))"
    using assms(5)
    by (auto simp: init_cmd_ring_def Let_def a write_op_reg_def reg_write [OF assms(1)] reg_write [OF assms(2)] on_mem_def reg_mem)
  then show "join_words (reg h' (op_regs c + 0x18)) (reg h' (op_regs c + 0x1c)) = cmd_ring c' OR ucast CRCR_HCS"
    by (simp add: c' join_words_or)
qed

end

text \<open>C27:
  Commands reach the controller. After the initialisation of the ring, up to 31 commands that are queued are what
  the controller then takes, in order and with the cycle bit set, and nothing behind them; and the register that tells the
  controller where to start holds the address of the ring, with the flags \<open>CRCR_HCS\<close>.
\<close>

theorem queued_commands_fetched:
  assumes "quiet_registers M H quiet reg" "quiet (op_regs c + 0x18)" "quiet (op_regs c + 0x1c)"
    and "cmd_ring_idx c = 0" "cmd_pcs c = 1" "init_cmd_ring H M c (mm, h) = (c1, mm1, h1)"
    and "length cs \<le> 31" "\<forall>t\<in>set cs. \<not> is_link t" "queue_cmds cs (c1, mem_of M h1) = (c2, m2)"
  shows "fetch (Suc (length cs)) m2 (cmd_ring c1) True = map with_cycle cs \<and> cmd_ring_idx c2 = of_nat (length cs) \<and>
    join_words (reg h1 (op_regs c + 0x18)) (reg h1 (op_regs c + 0x1c)) = cmd_ring c1 OR ucast CRCR_HCS"
proof -
  note i = quiet_registers.init_cmd_ring_state [OF assms(1-6)]
  have s: "cmd_ring_state c2 m2 (cmd_ring c1) cs" using queue_cmds_state [OF i(1), of cs] assms(7,9) by simp
  then have "fetch (Suc (length cs)) m2 (cmd_ring c1) True = map with_cycle cs"
    using fetch_ring [OF s assms(7,8), of 0] by (simp add: trb_at_def)
  then show ?thesis using s i(2) by (simp add: cmd_ring_state_def)
qed

definition no_op :: xhci_trb where
  "no_op = \<lparr>trb_addr = 0, trb_status = 0, trb_flags = TRB_TYPE_NO_OP_CMD\<rparr>"

lemma no_op_kind: "\<not> is_link no_op"
  by (simp add: is_link_def no_op_def TRB_TYPE_NO_OP_CMD_def)

theorem queued_commands_fetched_witness:
  "fetch 3 (snd (queue_cmds [no_op, no_op] (fst (init_cmd_ring box_hw box_ram box_controller (sample, box_sample)),
       box_mem (snd (snd (init_cmd_ring box_hw box_ram box_controller (sample, box_sample)))))))
     (cmd_ring (fst (init_cmd_ring box_hw box_ram box_controller (sample, box_sample)))) True =
   [with_cycle no_op, with_cycle no_op]"
proof -
  obtain c mm h where r: "init_cmd_ring box_hw box_ram box_controller (sample, box_sample) = (c, mm, h)"
    by (metis prod_cases3)
  obtain c2 m2 where q: "queue_cmds [no_op, no_op] (c, mem_of box_ram h) = (c2, m2)" by (metis surj_pair)
  have m: "mem_of box_ram h = box_mem h" by (simp add: box_ram_def)
  have s: "length [no_op, no_op] \<le> 31" "\<forall>t\<in>set [no_op, no_op]. \<not> is_link t" by (simp_all add: no_op_kind)
  have c: "cmd_ring_idx box_controller = 0" "cmd_pcs box_controller = 1" by (simp_all add: box_controller_def)
  have "fetch (Suc (length [no_op, no_op])) m2 (cmd_ring c) True = map with_cycle [no_op, no_op]"
    using queued_commands_fetched [OF box.quiet_registers_axioms TrueI TrueI c r s q] by blast
  moreover have "Suc (length [no_op, no_op]) = 3" by simp
  ultimately show ?thesis by (simp only: r m [symmetric] q fst_conv snd_conv list.map)
qed

text \<open>
  The command in the last element overwrites the link. The code moves to the start of the ring after element 31
  instead of before it, so the controller does not find its way back.
\<close>

theorem link_overwritten:
  assumes "cmd_ring_state c m a cs" "length cs = 31" "queue_cmd c t m = (c', m')"
  shows "read_trb m' (trb_at a 31) = (with_cycle t)\<lparr>trb_flags := trb_flags t OR 3\<rparr> \<and> cmd_ring_idx c' = 0 \<and> cmd_pcs c' = 0"
proof -
  have "(trb_flags t OR 1 OR 2) OR 1 = trb_flags t OR 3" "((trb_flags t OR 1) OR 2) OR 1 = trb_flags t OR 3"
    by (simp_all add: or.assoc)
  moreover have "cmd_ring_idx c = 31" using assms(1,2) by (simp add: cmd_ring_state_def)
  ultimately show ?thesis using assms(1,3)
    by (auto simp: queue_cmd_def cmd_ring_state_def with_cycle_def Let_def read_upd_flags simp flip: read_trb_flags)
qed

theorem link_overwritten_witness:
  "\<exists>c m. cmd_ring_idx c = 31 \<and> read_trb m (trb_at 0x6000 31) = \<lparr>trb_addr = 0x6000, trb_status = 0, trb_flags = TRB_TYPE_LINK\<rparr> \<and>
     \<not> is_link (read_trb (snd (queue_cmd c no_op m)) (trb_at 0x6000 31))"
proof -
  let ?l = "\<lparr>trb_addr = 0x6000, trb_status = 0, trb_flags = TRB_TYPE_LINK\<rparr> :: xhci_trb"
  let ?m = "write_trb (trb_at 0x6000 31) ?l (\<lambda>a. 0)"
  have "(of_nat i :: u32) \<noteq> 31" if "i < 31" for i
  proof -
    have "unat (of_nat i :: u32) = i" using that by (simp add: unat_of_nat)
    then show ?thesis using that by auto
  qed
  then have "cmd_ring_state box_controller ?m 0x6000 []"
    by (simp add: cmd_ring_state_def box_controller_def zero_memory)
  from queue_cmds_state [OF this, of "replicate 31 no_op"]
  obtain c m where s: "cmd_ring_state c m 0x6000 (replicate 31 no_op)" by (auto split: prod.splits)
  from link_overwritten [OF s _ prod.collapse [symmetric], of no_op]
  have "read_trb (snd (queue_cmd c no_op m)) (trb_at 0x6000 31) = (with_cycle no_op)\<lparr>trb_flags := trb_flags no_op OR 3\<rparr>" by simp
  moreover have "\<not> is_link ((with_cycle no_op)\<lparr>trb_flags := trb_flags no_op OR 3\<rparr>)"
    by (simp add: is_link_def no_op_def TRB_TYPE_NO_OP_CMD_def)
  ultimately show ?thesis using s by (intro exI [of _ c] exI [of _ m]) (simp add: cmd_ring_state_def)
qed

section \<open>Waiting for a register\<close>

text \<open>The value that the \<open>n\<close>th read of a register delivers.\<close>

definition op_value :: "'h hw \<Rightarrow> xhci_controller \<Rightarrow> u64 \<Rightarrow> nat \<Rightarrow> 'h \<Rightarrow> u32" where
  "op_value H c reg_off n h = fst (read_op_reg H c reg_off (((\<lambda>h. snd (read_op_reg H c reg_off h)) ^^ n) h))"

lemma wait_op_bits_in_result:
  "fst (wait_op_bits_in n H c off bits expected h) = (if \<exists>k<n. op_value H c off k h AND bits = expected then 0 else - 1)"
proof (induction n arbitrary: h)
  case (Suc n)
  have next_read: "op_value H c off (Suc k) h = op_value H c off k (snd (read_op_reg H c off h))" for k
    by (simp only: op_value_def funpow_Suc_right o_apply)
  have "(\<exists>k<Suc n. op_value H c off k h AND bits = expected) \<longleftrightarrow> fst (read_op_reg H c off h) AND bits = expected \<or>
      (\<exists>k<n. op_value H c off k (snd (read_op_reg H c off h)) AND bits = expected)"
    unfolding Ex_less_Suc2 next_read by (simp add: op_value_def)
  then show ?case using Suc.IH by (simp add: prod.case_eq_if Let_def)
qed simp

text \<open>
  A wait ends after at most 1000 reads, and succeeds exactly if one of them shows the expected bits.
\<close>

theorem wait_op_bits_result:
  "fst (wait_op_bits H c reg_off bitmask expected h) =
     (if \<exists>n<1000. op_value H c reg_off n h AND bitmask = expected then 0 else - 1)"
  by (simp add: wait_op_bits_def wait_op_bits_in_result)

section \<open>Number of scratchpad buffers\<close>

text \<open>The shift binds tighter than the conjunction: the upper five bits of the number are lost.\<close>

lemma scratchpad_bufs_lost: "HCS2_MAX_SCRATCHPAD_BUFS 0x03e00000 = 0"
  by (simp add: HCS2_MAX_SCRATCHPAD_BUFS_def)

end
