(* ===== verification/Memory_Test.thy ===== *)
theory Memory_Test
  imports Memory
begin

text \<open>
  The functions of \<open>src/src/memory/paging.c\<close> that show and exercise the page tables: \<open>show_entries\<close> and \<open>test_mapping\<close>, which
  \<open>kernel_main\<close> calls at start. What they do to the screen and to memory is a list of actions: the format and the arguments
  of each message, and the stores. And the allocator's invariant through allocations and lookups.
\<close>

section \<open>The allocator's invariant through allocations\<close>

lemma pmm_ok_alloc_count:
  assumes "pmm_ok s" "0 < unat count"
  shows "pmm_ok (snd (pmm_alloc_unmapped count s))"
proof -
  obtain a s' where r: "pmm_alloc_unmapped count s = (a, s')" by (metis surj_pair)
  from pmm_alloc_unmapped_cases [OF assms r] have "pmm_ok s'"
  proof (elim disjE exE conjE)
    fix q t
    assume t: "pmm_ok t" "frame_used t = frame_used s" "bitmap_size t = bitmap_size s"
      "free_run (frame_used s) q (unat count)" "q + unat count \<le> pmm_frames s"
      "take_run (unat count) (Some q) t t = (a, s')"
    then have "free_run (frame_used t) q (unat count)" "q + unat count \<le> pmm_frames t"
      by (simp_all add: pmm_frames_def)
    from take_run_Some(3) [OF t(1) assms(2) this t(6)] show "pmm_ok s'" .
  next
    assume "s' = s\<lparr>last_idx := 0, last_idx_bit := 7\<rparr>"
    then show "pmm_ok s'" using assms(1) by (simp add: pmm_ok_hint hint_ok_def frame_used_def rd_bm_def)
  qed
  then show ?thesis using r by simp
qed

lemma pmm_ok_alloc_custom: "pmm_ok s \<Longrightarrow> 0 < unat count \<Longrightarrow> pmm_ok (snd (pmm_alloc_custom count flags s))"
  using pmm_ok_alloc_count [of s count] by (simp add: pmm_alloc_custom_def split_def Let_def pmm_ok_map_frames)

lemma pmm_ok_pmm_alloc: "pmm_ok s \<Longrightarrow> 0 < unat count \<Longrightarrow> pmm_ok (snd (pmm_alloc count s))"
  by (simp add: pmm_alloc_def pmm_ok_alloc_custom)

lemma pmm_ok_lookup:
  assumes "pmm_ok s"
  shows "pmm_ok (snd (is_addr_present a s))" "pmm_ok (snd (to_phys a s))" "pmm_ok (snd (lookup_entry_by_index r i4 i3 i2 i1 s))"
  using assms pmm_ok_get_entry [OF assms]
  by (simp_all add: is_addr_present_def to_phys_def lookup_entry_def lookup_entry_by_index_def get_entry_by_index_def
      split_def Let_def pmm_ok_get_table)

section \<open>The functions\<close>

datatype action =
    Line string "u64 list"
  | Store u64 u64

definition show_entry :: "string \<Rightarrow> u64 list \<Rightarrow> u16 \<Rightarrow> u16 \<Rightarrow> action list \<times> mm \<Rightarrow> fault + action list \<times> mm" where
  "show_entry fmt idxs i2 i1 = (\<lambda>(ls, s).
     let (entry, s) = lookup_entry_by_index (s_pml4_table s) 0 0 i2 i1 s
     in if entry = 0 then Inl NullDeref else Inr (ls @ [Line fmt (idxs @ [vread s entry])], s))"

definition show_table :: "u16 \<Rightarrow> nat \<Rightarrow> action list \<times> mm \<Rightarrow> fault + action list \<times> mm" where
  "show_table ptEntries i2 st =
     and_then (show_entry ''pd_table[%d] %x'' [of_nat i2] (of_nat i2) 0 st)
       (run_ops (\<lambda>i1. show_entry ''  pt_table[%d] entry[%d] %x'' [of_nat i2, of_nat i1] (of_nat i2) (of_nat i1))
         [0..<unat ptEntries])"

definition show_entries :: "u16 \<Rightarrow> u16 \<Rightarrow> mm \<Rightarrow> fault + action list \<times> mm" where
  "show_entries ptEntries ptTables s =
     run_ops (show_table ptEntries) [0..<unat ptTables] ([Line ''pml4_table addr %x'' [s_pml4_table s]], s)"

text \<open>\<open>load\<close> is what a load from a virtual address delivers.\<close>

definition test_mapping :: "(u64 \<Rightarrow> mm \<Rightarrow> u64) \<Rightarrow> mm \<Rightarrow> action list \<times> mm" where
  "test_mapping load s =
     (let maps = map (\<lambda>(fmt, vs). Line fmt vs) (print_frame_map s);
          (a, s) = pmm_alloc 2 s;
          (b, s) = pmm_alloc 2 s;
          (c, s) = pmm_alloc 2 s;
          ls = maps @ [Line ''a: %x, b: %x, c: %x'' [a, b, c]] @ map (\<lambda>(fmt, vs). Line fmt vs) (print_frame_map s);
          (p1, s) = is_addr_present 0x7fffff s;
          (p2, s) = is_addr_present 0x800000 s;
          (p3, s) = is_addr_present 0xfffffff000 s;
          ls = ls @ [Line ''%x is present = %b'' [0x7fffff, of_bool p1], Line ''%x is present = %b'' [0x800000, of_bool p2],
                     Line ''%x is present = %b'' [0xfffffff000, of_bool p3]];
          frame1 = to_frame 0xb8000; frame2 = to_frame 0x3000; frame3 = to_frame 0xffffff;
          page1 = to_page 0x2000; page2 = to_page 0x800000; page3 = to_page 0xfffffff000;
          testAddr1 = 0x2000; testAddr2 = 0x800010; testAddr3 = 0xfffffffff0;
          (f1, s) = to_phys testAddr1 s;
          (f2, s) = to_phys testAddr2 s;
          (f3, s) = to_phys testAddr3 s;
          ls = ls @ [Line ''before:'' [], Line ''testAddr1 virt %x -> phys %x'' [testAddr1, f1],
                     Line ''testAddr2 virt %x -> phys %x'' [testAddr2, f2], Line ''testAddr3 virt %x -> phys %x'' [testAddr3, f3],
                     Line ''testAddr1 val: %d '' [load testAddr1 s AND 0xffff], Line ''*testAddr2 would cause a page fault'' []];
          s = map_frame page1 frame1 (Present OR Writeable) s;
          s = map_frame page2 frame2 (Present OR Writeable) s;
          s = map_frame page3 frame3 (Present OR Writeable) s;
          (f1, s) = to_phys testAddr1 s;
          (f2, s) = to_phys testAddr2 s;
          (f3, s) = to_phys testAddr3 s;
          ls = ls @ [Line ''after:'' [], Line ''testAddr1 virt %x -> phys %x'' [testAddr1, f1],
                     Line ''testAddr2 virt %x -> phys %x'' [testAddr2, f2], Line ''testAddr3 virt %x -> phys %x'' [testAddr3, f3]]
                 @ map (\<lambda>i. Store (testAddr1 + 2 * of_nat i) 0xf000) [24 * 80..<25 * 80] @ [Store testAddr3 86];
          ls = ls @ [Line ''after '*testAddr3 = 86':'' [], Line ''testAddr3 val: %d'' [86]];
          (p2, s) = is_addr_present 0x800000 s;
          (p3, s) = is_addr_present 0xfffffff000 s
      in (ls @ [Line ''%x is present = %b'' [0x800000, of_bool p2], Line ''%x is present = %b'' [0xfffffff000, of_bool p3]], s))"

lemma pmm_ok_test_mapping: "pmm_ok s \<Longrightarrow> pmm_ok (snd (test_mapping load s))"
  by (simp add: test_mapping_def split_def Let_def map_frame_def pmm_ok_lookup pmm_ok_map_page pmm_ok_pmm_alloc)

lemma show_entry_ok: "pmm_ok (snd st) \<Longrightarrow> show_entry fmt idxs i2 i1 st = Inr st' \<Longrightarrow> pmm_ok (snd st')"
  using pmm_ok_lookup(3) [of "snd st" "s_pml4_table (snd st)" 0 0 i2 i1]
  by (auto simp: show_entry_def split_def Let_def split: if_splits)

end
