(* ===== verification/Ioapic.thy ===== *)
theory Ioapic
  imports Hardware Keyboard Acpi
begin

text \<open>
  The IO APICs and the interrupt handlers installed on them: \<open>src/src/interrupt/apic/ioapic.c\<close>, \<open>ioapic.h\<close>, and the
  handlers and the interrupt state of \<open>apic.c\<close>. The error and debug lines are left out.
\<close>

section \<open>Data\<close>

abbreviation (input) ISA_INTERRUPT_COUNT :: nat where "ISA_INTERRUPT_COUNT \<equiv> 16"
abbreviation (input) INTERRUPT_BASE :: nat where "INTERRUPT_BASE \<equiv> 32"
abbreviation (input) IO_VECTOR_COUNT :: nat where "IO_VECTOR_COUNT \<equiv> 224"
abbreviation (input) MAX_IOAPICS :: nat where "MAX_IOAPICS \<equiv> 255"

abbreviation (input) IOAPICID_OFFSET :: u8 where "IOAPICID_OFFSET \<equiv> 0"
abbreviation (input) IOAPICVER_OFFSET :: u8 where "IOAPICVER_OFFSET \<equiv> 1"
abbreviation (input) IOAPIC_MASKED :: u64 where "IOAPIC_MASKED \<equiv> 0x10000"
abbreviation (input) IOAPIC_POLARITY_MASK :: u64 where "IOAPIC_POLARITY_MASK \<equiv> 0x2000"
abbreviation (input) IOAPIC_POLARITY_LOW_ACTIVE :: u64 where "IOAPIC_POLARITY_LOW_ACTIVE \<equiv> 0x2000"
abbreviation (input) IOAPIC_TRIGGER_MODE_MASK :: u64 where "IOAPIC_TRIGGER_MODE_MASK \<equiv> 0x8000"
abbreviation (input) IOAPIC_TRIGGER_MODE_LEVEL :: u64 where "IOAPIC_TRIGGER_MODE_LEVEL \<equiv> 0x8000"
abbreviation (input) IOAPIC_DELIVERY_MODE_EXT_INT :: u64 where "IOAPIC_DELIVERY_MODE_EXT_INT \<equiv> 0x700"

record ioapic =
  io_addr :: u32
  io_gsi_base :: u32
  io_id :: u8
  io_max_entries :: u8
  io_version :: u8

text \<open>The functions that are installed as handlers; \<open>Driver n\<close> is a function of another component.\<close>

datatype io_func = Source_override | Debug_timer | Debug_keyboard | Driver nat

record io_handler =
  h_func :: "io_func option"
  h_data :: u64
  h_vector :: u8

definition no_handler :: io_handler where
  "no_handler = \<lparr>h_func = None, h_data = 0, h_vector = 0\<rparr>"

text \<open>
  The static variables of \<open>ioapic.c\<close> and \<open>apic.c\<close> with the hardware, the page tables, and the console and
  keyboard that the handlers use. \<open>overrides\<close> holds pointers into the MADT, 0 for none.
\<close>

record 'h apic =
  ap_hw :: 'h
  ap_mm :: mm
  apic_base :: u64
  x2apic :: bool
  ioapics :: "ioapic list"
  ioapics_len :: u8
  overrides :: "u64 list"
  allocated :: "bool list"
  io_handlers :: "io_handler list"
  ap_console :: console
  ap_keyboard :: keyboard
  ap_seq :: u8

definition apic_arrays :: "'h apic \<Rightarrow> bool" where
  "apic_arrays s \<longleftrightarrow> length (ioapics s) = MAX_IOAPICS \<and> length (overrides s) = ISA_INTERRUPT_COUNT \<and>
     length (allocated s) = IO_VECTOR_COUNT \<and> length (io_handlers s) = IO_VECTOR_COUNT"

text \<open>The fields of an override entry of the MADT.\<close>

definition override_irq_src :: "(u64 \<Rightarrow> u8) \<Rightarrow> u64 \<Rightarrow> u8" where
  "override_irq_src fw p = fw (p + 3)"

definition override_gsi :: "(u64 \<Rightarrow> u8) \<Rightarrow> u64 \<Rightarrow> u32" where
  "override_gsi fw p = rd32 fw (p + 4)"

definition override_flags :: "(u64 \<Rightarrow> u8) \<Rightarrow> u64 \<Rightarrow> u16" where
  "override_flags fw p = rd16 fw (p + 8)"

section \<open>Registers\<close>

definition IOAPICREDTBL_OFFSET :: "u8 \<Rightarrow> u8" where
  "IOAPICREDTBL_OFFSET idx = 0x10 + 2 * idx"

definition ioapic_write_reg :: "'h hw \<Rightarrow> u64 \<Rightarrow> u8 \<Rightarrow> u32 \<Rightarrow> 'h \<Rightarrow> 'h" where
  "ioapic_write_reg H b offset val h =
     mmio_write H (b + 0x10) val (mmio_write H b (ucast offset) h)"

definition ioapic_read_reg :: "'h hw \<Rightarrow> u64 \<Rightarrow> u8 \<Rightarrow> 'h \<Rightarrow> u32 \<times> 'h" where
  "ioapic_read_reg H b offset h = mmio_read H (b + 0x10) (mmio_write H b (ucast offset) h)"

definition ioapic_write_entry :: "'h hw \<Rightarrow> ioapic \<Rightarrow> u8 \<Rightarrow> u64 \<Rightarrow> 'h \<Rightarrow> 'h" where
  "ioapic_write_entry H io entry_idx entry h =
     ioapic_write_reg H (ucast (io_addr io)) (IOAPICREDTBL_OFFSET entry_idx + 1) (ucast (drop_bit 32 entry))
       (ioapic_write_reg H (ucast (io_addr io)) (IOAPICREDTBL_OFFSET entry_idx) (ucast entry) h)"

definition ioapic_read_entry :: "'h hw \<Rightarrow> ioapic \<Rightarrow> u8 \<Rightarrow> 'h \<Rightarrow> u64 \<times> 'h" where
  "ioapic_read_entry H io entry_idx h =
     (let (low, h) = ioapic_read_reg H (ucast (io_addr io)) (IOAPICREDTBL_OFFSET entry_idx) h;
          (high, h) = ioapic_read_reg H (ucast (io_addr io)) (IOAPICREDTBL_OFFSET entry_idx + 1) h
      in (push_bit 32 (ucast high) OR ucast low, h))"

section \<open>Masking\<close>

definition get_io_apic :: "u8 \<Rightarrow> 'h apic \<Rightarrow> ioapic option" where
  "get_io_apic gsi s =
     find (\<lambda>io. io_gsi_base io \<le> ucast gsi \<and> ucast gsi < ucast (io_max_entries io) + io_gsi_base io)
       (take (unat (ioapics_len s)) (ioapics s))"

definition change_entry :: "'h hw \<Rightarrow> (u64 \<Rightarrow> u64) \<Rightarrow> u8 \<Rightarrow> 'h apic \<Rightarrow> fault + 'h apic" where
  "change_entry H f gsi s =
     (case get_io_apic gsi s of
        None \<Rightarrow> Inl NullDeref
      | Some io \<Rightarrow>
          (let entry_idx = ucast (ucast gsi - io_gsi_base io);
               (entry, h) = ioapic_read_entry H io entry_idx (ap_hw s)
           in Inr (s\<lparr>ap_hw := ioapic_write_entry H io entry_idx (f entry) h\<rparr>)))"

definition enable_io_interrupt :: "'h hw \<Rightarrow> (u64 \<Rightarrow> u8) \<Rightarrow> u8 \<Rightarrow> 'h apic \<Rightarrow> fault + 'h apic" where
  "enable_io_interrupt H fw gsi s =
     (let gsi = (if unat gsi < ISA_INTERRUPT_COUNT \<and> overrides s ! unat gsi \<noteq> 0
                 then ucast (override_gsi fw (overrides s ! unat gsi)) else gsi)
      in change_entry H (\<lambda>entry. entry AND NOT IOAPIC_MASKED) gsi s)"

definition disable_io_interrupt :: "'h hw \<Rightarrow> u8 \<Rightarrow> 'h apic \<Rightarrow> fault + 'h apic" where
  "disable_io_interrupt H gsi s = change_entry H (\<lambda>entry. entry OR IOAPIC_MASKED) gsi s"

section \<open>Vectors\<close>

definition reserve_io_interrupt :: "u8 \<Rightarrow> 'h apic \<Rightarrow> fault + 'h apic" where
  "reserve_io_interrupt vector s =
     and_then (array_get (allocated s) (unat vector))
       (\<lambda>_. and_then (array_set (unat vector) True (allocated s)) (\<lambda>a. Inr (s\<lparr>allocated := a\<rparr>)))"

definition free_io_interrupt :: "u8 \<Rightarrow> 'h apic \<Rightarrow> fault + 'h apic" where
  "free_io_interrupt vector s =
     and_then (array_get (allocated s) (unat vector))
       (\<lambda>_. and_then (array_set (unat vector) False (allocated s)) (\<lambda>a. Inr (s\<lparr>allocated := a\<rparr>)))"

text \<open>
  The inner loop of \<open>alloc_io_interrupts\<close> over \<open>j\<close>: it goes on after a vector that is taken, from the
  advanced \<open>i\<close>.
\<close>

primrec probe_run :: "bool list \<Rightarrow> nat list \<Rightarrow> nat \<times> bool \<Rightarrow> fault + nat \<times> bool" where
  "probe_run taken [] st = Inr st"
| "probe_run taken (j # js) st =
     and_then (array_get taken (fst st + j))
       (\<lambda>b. probe_run taken js (if b then (fst st + j, False) else st))"

lemma probe_run_mono: "probe_run taken js st = Inr st' \<Longrightarrow> fst st \<le> fst st'"
  by (induction js arbitrary: st) (fastforce simp: and_then_Inr_iff split: if_splits)+

definition take_run :: "nat \<Rightarrow> nat \<Rightarrow> 'h apic \<Rightarrow> fault + 'h apic" where
  "take_run count i s =
     run_ops (\<lambda>j s. and_then (array_set (i + j) True (allocated s))
         (\<lambda>a. reserve_io_interrupt (of_nat (i + j)) (s\<lparr>allocated := a\<rparr>))) [0..<count] s"

function alloc_io_from :: "nat \<Rightarrow> nat \<Rightarrow> 'h apic \<Rightarrow> fault + (u8 option \<times> int) \<times> 'h apic" where
  "alloc_io_from count i s =
     (if i < IO_VECTOR_COUNT then
        and_then (array_get (allocated s) i) (\<lambda>taken.
          if taken then alloc_io_from count (Suc i) s
          else and_then (probe_run (allocated s) [0..<count] (i, True)) (\<lambda>r.
            if snd r then and_then (take_run count (fst r) s) (\<lambda>s. Inr ((Some (of_nat (fst r)), 0), s))
            else alloc_io_from count (Suc (fst r)) s))
      else Inr ((None, - 1), s))"
  by pat_completeness auto
termination
  by (relation "measure (\<lambda>(count, i, s). IO_VECTOR_COUNT - i)") (auto dest: probe_run_mono)

declare alloc_io_from.simps [simp del]

definition alloc_io_interrupts :: "u8 \<Rightarrow> 'h apic \<Rightarrow> fault + (u8 option \<times> int) \<times> 'h apic" where
  "alloc_io_interrupts count s = alloc_io_from (unat count) 0 s"

section \<open>Handlers\<close>

definition install_io_interrupt_handler ::
    "'h hw \<Rightarrow> (u64 \<Rightarrow> u8) \<Rightarrow> u8 \<Rightarrow> io_func \<Rightarrow> u64 \<Rightarrow> 'h apic \<Rightarrow> fault + int \<times> 'h apic" where
  "install_io_interrupt_handler H fw vector handler data s =
     (if IO_VECTOR_COUNT \<le> unat vector then Inr (- 1, s)
      else and_then (array_get (io_handlers s) (unat vector)) (\<lambda>old.
        if h_func old = None \<and> h_vector old = 0 \<and> h_data old = 0 then
          and_then (enable_io_interrupt H fw vector
              (s\<lparr>io_handlers := (io_handlers s)[unat vector :=
                 \<lparr>h_func = Some handler, h_data = data, h_vector = vector\<rparr>]\<rparr>))
            (\<lambda>s. Inr (0, s))
        else Inr (- 1, s)))"

definition remove_io_interrupt_handler :: "'h hw \<Rightarrow> u8 \<Rightarrow> 'h apic \<Rightarrow> fault + int \<times> 'h apic" where
  "remove_io_interrupt_handler H vector s =
     (if IO_VECTOR_COUNT \<le> unat vector then Inr (- 1, s)
      else and_then (disable_io_interrupt H vector
          (s\<lparr>io_handlers := (io_handlers s)[unat vector := no_handler]\<rparr>))
        (\<lambda>s. Inr (0, s)))"

definition debug_timer :: "'h apic \<Rightarrow> fault + int \<times> 'h apic" where
  "debug_timer s = and_then (kprintf ''.'' [] (ap_console s)) (\<lambda>c. Inr (0, s\<lparr>ap_console := c\<rparr>))"

definition debug_keyboard :: "'h hw \<Rightarrow> 'h apic \<Rightarrow> fault + int \<times> 'h apic" where
  "debug_keyboard H s =
     (let (scancode, h) = inb H 0x60 (ap_hw s)
      in and_then (debug_keyboard_handler (ap_keyboard s) scancode (ap_seq s, ap_console s))
           (\<lambda>(seq, c). Inr (0, s\<lparr>ap_hw := h, ap_seq := seq, ap_console := c\<rparr>)))"

text \<open>
  \<open>exec_io_handler\<close> and \<open>io_handler_source_override\<close> call each other; the second argument is the depth of nested
  calls that is left. \<open>drivers\<close> runs the handlers of other components.
\<close>

primrec exec_io_handler ::
    "'h hw \<Rightarrow> nat \<Rightarrow> (nat \<Rightarrow> u64 \<Rightarrow> 'h apic \<Rightarrow> fault + int \<times> 'h apic) \<Rightarrow> u8 \<Rightarrow> 'h apic \<Rightarrow> fault + int \<times> 'h apic" where
  "exec_io_handler H 0 drivers vector s = Inl UnboundedRecursion"
| "exec_io_handler H (Suc depth) drivers vector s =
     and_then (array_get (io_handlers s) (unat vector)) (\<lambda>hd.
       case h_func hd of
         None \<Rightarrow> Inl NullDeref
       | Some Source_override \<Rightarrow> exec_io_handler H depth drivers (ucast (h_data hd)) s
       | Some Debug_timer \<Rightarrow> debug_timer s
       | Some Debug_keyboard \<Rightarrow> debug_keyboard H s
       | Some (Driver n) \<Rightarrow> drivers n (h_data hd) s)"

section \<open>Initialisation\<close>

definition visit_override :: "'h hw \<Rightarrow> (u64 \<Rightarrow> u8) \<Rightarrow> u8 \<Rightarrow> u64 \<Rightarrow> 'h apic \<Rightarrow> fault + 'h apic" where
  "visit_override H fw type p s =
     (if type = MADT_ENTRY_INT_SRC_OVERRIDE then
        (if ISA_INTERRUPT_COUNT \<le> unat (override_gsi fw p) then Inr s
         else and_then (array_set (unat (override_irq_src fw p)) p (overrides s)) (\<lambda>ov.
           and_then (install_io_interrupt_handler H fw (ucast (override_gsi fw p)) Source_override
               (ucast (override_irq_src fw p)) (s\<lparr>overrides := ov\<rparr>))
             (\<lambda>(_, s). Inr s)))
      else Inr s)"

definition init_overrides :: "'h hw \<Rightarrow> (u64 \<Rightarrow> u8) \<Rightarrow> u64 \<Rightarrow> 'h apic \<Rightarrow> (fault + 'h apic) option" where
  "init_overrides H fw madt s = madt_walk fw madt (visit_override H fw) s"

definition override_entry :: "(u64 \<Rightarrow> u8) \<Rightarrow> u64 list \<Rightarrow> u64 \<Rightarrow> u8 \<Rightarrow> fault + u64" where
  "override_entry fw ovs entry srcIrq =
     and_then (array_get ovs (unat srcIrq)) (\<lambda>p.
       if p = 0 then Inr entry
       else
         let polarity = override_flags fw p AND 3;
             entry = (if polarity = 3 then (entry AND NOT IOAPIC_POLARITY_MASK) OR IOAPIC_POLARITY_LOW_ACTIVE
                      else if polarity = 0 then entry AND NOT IOAPIC_POLARITY_MASK else entry);
             trigger_mode = drop_bit 2 (override_flags fw p) AND 3
         in Inr (if trigger_mode = 3 then (entry AND NOT IOAPIC_TRIGGER_MODE_MASK) OR IOAPIC_TRIGGER_MODE_LEVEL
                 else if trigger_mode = 0 then entry AND NOT IOAPIC_TRIGGER_MODE_MASK else entry))"

definition visit_ioapic :: "'h hw \<Rightarrow> (u64 \<Rightarrow> u8) \<Rightarrow> u8 \<Rightarrow> u64 \<Rightarrow> 'h apic \<Rightarrow> fault + 'h apic" where
  "visit_ioapic H fw type p s =
     (if type = MADT_ENTRY_IOAPIC then
        let addr = rd32 fw (p + 4);
            s = s\<lparr>ap_mm := map_frame (to_page (ucast addr)) (to_frame (ucast addr))
              (Present OR Writeable OR DisableCache) (ap_mm s)\<rparr>;
            h = ioapic_write_reg H (ucast addr) IOAPICID_OFFSET (ucast (fw (p + 2))) (ap_hw s);
            (v, h) = ioapic_read_reg H (ucast addr) IOAPICVER_OFFSET h;
            (w, h) = ioapic_read_reg H (ucast addr) IOAPICVER_OFFSET h;
            io = \<lparr>io_addr = addr, io_gsi_base = rd32 fw (p + 8), io_id = fw (p + 2),
              io_max_entries = ucast ((drop_bit 16 w + 1) AND 0xff), io_version = ucast (v AND 0xff)\<rparr>
        in and_then (array_set (unat (ioapics_len s)) io (ioapics s)) (\<lambda>ios.
             Inr (s\<lparr>ap_hw := h, ioapics := ios, ioapics_len := ioapics_len s + 1\<rparr>))
      else Inr s)"

definition get_io_apics :: "'h hw \<Rightarrow> (u64 \<Rightarrow> u8) \<Rightarrow> u64 \<Rightarrow> 'h apic \<Rightarrow> (fault + 'h apic) option" where
  "get_io_apics H fw madt s = madt_walk fw madt (visit_ioapic H fw) s"

definition get_local_apic_id :: "'h hw \<Rightarrow> 'h apic \<Rightarrow> u8 \<times> 'h apic" where
  "get_local_apic_id H s =
     (case mmio_read H (apic_base s + 0x20) (ap_hw s) of
        (v, h) \<Rightarrow> (ucast (drop_bit 24 v), s\<lparr>ap_hw := h\<rparr>))"

definition init_entry :: "(u64 \<Rightarrow> u8) \<Rightarrow> u64 list \<Rightarrow> u8 \<Rightarrow> u8 \<Rightarrow> fault + u64" where
  "init_entry fw ovs apic_id gsi =
     (let entry = push_bit 56 (ucast apic_id) OR IOAPIC_MASKED OR of_nat (unat gsi + INTERRUPT_BASE)
      in if gsi = 0 then Inr (entry OR IOAPIC_DELIVERY_MODE_EXT_INT)
         else if unat gsi < ISA_INTERRUPT_COUNT then override_entry fw ovs entry gsi
         else Inr (entry OR (IOAPIC_TRIGGER_MODE_LEVEL OR IOAPIC_POLARITY_LOW_ACTIVE)))"

definition init_one_entry :: "'h hw \<Rightarrow> (u64 \<Rightarrow> u8) \<Rightarrow> ioapic \<Rightarrow> nat \<Rightarrow> 'h apic \<Rightarrow> fault + 'h apic" where
  "init_one_entry H fw io idx s =
     (let gsi = ucast (io_gsi_base io) + of_nat idx;
          (apic_id, s) = get_local_apic_id H s
      in and_then (init_entry fw (overrides s) apic_id gsi) (\<lambda>entry.
           reserve_io_interrupt gsi (s\<lparr>ap_hw := ioapic_write_entry H io (of_nat idx) entry (ap_hw s)\<rparr>)))"

definition init_entries :: "'h hw \<Rightarrow> (u64 \<Rightarrow> u8) \<Rightarrow> 'h apic \<Rightarrow> fault + 'h apic" where
  "init_entries H fw s =
     run_ops (\<lambda>io. run_ops (init_one_entry H fw io) [0..<unat (io_max_entries io)])
       (take (unat (ioapics_len s)) (ioapics s)) s"

definition init_io_apics :: "'h hw \<Rightarrow> (u64 \<Rightarrow> u8) \<Rightarrow> u64 \<Rightarrow> 'h apic \<Rightarrow> (fault + 'h apic) option" where
  "init_io_apics H fw madt s =
     (case get_io_apics H fw madt s of
        Some (Inr s) \<Rightarrow>
          (case init_overrides H fw madt s of
             Some (Inr s) \<Rightarrow> Some (init_entries H fw s)
           | r \<Rightarrow> r)
      | r \<Rightarrow> r)"

section \<open>Redirection entries\<close>

text \<open>An entry is the pair of registers at its offset.\<close>

definition entry_of :: "(u8 \<Rightarrow> u32) \<Rightarrow> u8 \<Rightarrow> u64" where
  "entry_of r idx =
     push_bit 32 (ucast (r (IOAPICREDTBL_OFFSET idx + 1))) OR ucast (r (IOAPICREDTBL_OFFSET idx))"

definition merge :: "u64 \<Rightarrow> u64 \<Rightarrow> u64 \<Rightarrow> u64" where
  "merge f old new = (old AND f) OR (new AND NOT f)"

definition put_entry :: "(u8 \<Rightarrow> u32) \<Rightarrow> u8 \<Rightarrow> u64 \<Rightarrow> (u8 \<Rightarrow> u32) \<Rightarrow> u8 \<Rightarrow> u32" where
  "put_entry fixed idx e r =
     r(IOAPICREDTBL_OFFSET idx :=
         (r (IOAPICREDTBL_OFFSET idx) AND fixed (IOAPICREDTBL_OFFSET idx)) OR
         (ucast e AND NOT (fixed (IOAPICREDTBL_OFFSET idx))),
       IOAPICREDTBL_OFFSET idx + 1 :=
         (r (IOAPICREDTBL_OFFSET idx + 1) AND fixed (IOAPICREDTBL_OFFSET idx + 1)) OR
         (ucast (drop_bit 32 e) AND NOT (fixed (IOAPICREDTBL_OFFSET idx + 1))))"

lemma offset_Suc_neq [simp]: "IOAPICREDTBL_OFFSET idx \<noteq> IOAPICREDTBL_OFFSET idx + 1"
  "IOAPICREDTBL_OFFSET idx + 1 \<noteq> IOAPICREDTBL_OFFSET idx"
  by simp_all

lemma bit_entry_of:
  "bit (entry_of r idx) n \<longleftrightarrow>
    (if n < 32 then bit (r (IOAPICREDTBL_OFFSET idx)) n else n < 64 \<and> bit (r (IOAPICREDTBL_OFFSET idx + 1)) (n - 32))"
  using bit_imp_le_length [of "r (IOAPICREDTBL_OFFSET idx)" n]
  by (auto simp: entry_of_def bit_simps)

lemma entry_of_put: "entry_of (put_entry fixed idx e r) idx = merge (entry_of fixed idx) (entry_of r idx) e"
proof (rule bit_word_eqI)
  fix n assume "n < LENGTH(64)"
  then show "bit (entry_of (put_entry fixed idx e r) idx) n = bit (merge (entry_of fixed idx) (entry_of r idx) e) n"
    by (cases "n < 32") (auto simp: merge_def put_entry_def bit_entry_of bit_simps)
qed

lemma unat_offset: "idx < 120 \<Longrightarrow> unat (IOAPICREDTBL_OFFSET idx) = 16 + 2 * unat idx"
  by (simp add: IOAPICREDTBL_OFFSET_def word_less_nat_alt unat_word_ariths)

lemma unat_offset_Suc: "idx < 120 \<Longrightarrow> unat (IOAPICREDTBL_OFFSET idx + 1) = 17 + 2 * unat idx"
  using unat_offset [of idx] by (simp add: word_less_nat_alt unat_word_ariths)

lemma offset_neq:
  assumes "i < 120" "j < 120" "i \<noteq> j"
  shows "IOAPICREDTBL_OFFSET i \<noteq> IOAPICREDTBL_OFFSET j" "IOAPICREDTBL_OFFSET i + 1 \<noteq> IOAPICREDTBL_OFFSET j"
    "IOAPICREDTBL_OFFSET i \<noteq> IOAPICREDTBL_OFFSET j + 1" "IOAPICREDTBL_OFFSET i + 1 \<noteq> IOAPICREDTBL_OFFSET j + 1"
  using assms unat_offset [of i] unat_offset [of j] unat_offset_Suc [of i] unat_offset_Suc [of j]
  unfolding word_unat_eq_iff by presburger+

lemma entry_of_put_other:
  assumes "i < 120" "j < 120" "i \<noteq> j"
  shows "entry_of (put_entry fixed i e r) j = entry_of r j"
  using offset_neq [OF assms] by (simp add: entry_of_def put_entry_def)

context apic_registers
begin

lemma write_entry_reg:
  assumes "win (ucast (io_addr io))"
  shows "reg (ioapic_write_entry H io idx e h) =
      (reg h)(ucast (io_addr io) := put_entry fixed idx e (reg h (ucast (io_addr io))))"
  using assms by (simp add: ioapic_write_entry_def ioapic_write_reg_def reg_write put_entry_def fun_eq_iff)

lemma write_entry_val:
  assumes "win (ucast (io_addr io))"
  shows "val (ioapic_write_entry H io idx e h) = val h"
  using assms by (simp add: ioapic_write_entry_def ioapic_write_reg_def val_window_keeps val_data_keeps)

lemma read_entry:
  assumes "win (ucast (io_addr io))"
  shows "\<exists>h'. ioapic_read_entry H io idx h = (entry_of (reg h (ucast (io_addr io))) idx, h') \<and>
    reg h' = reg h \<and> val h' = val h"
proof -
  let ?b = "ucast (io_addr io) :: u64"
  have rd: "\<exists>h'. ioapic_read_reg H ?b i g = (reg g ?b i, h') \<and> reg h' = reg g \<and> val h' = val g" for i g
    using reg_read [OF assms, of i g] reg_read_keeps [OF assms, of i g] val_read_keeps val_window_keeps [OF assms]
    by (auto simp: ioapic_read_reg_def prod_eq_iff)
  obtain h1 where h1: "ioapic_read_reg H ?b (IOAPICREDTBL_OFFSET idx) h = (reg h ?b (IOAPICREDTBL_OFFSET idx), h1)"
    "reg h1 = reg h" "val h1 = val h" using rd by blast
  obtain h2 where h2: "ioapic_read_reg H ?b (IOAPICREDTBL_OFFSET idx + 1) h1 =
      (reg h1 ?b (IOAPICREDTBL_OFFSET idx + 1), h2)" "reg h2 = reg h1" "val h2 = val h1" using rd by blast
  show ?thesis using h1 h2 by (simp add: ioapic_read_entry_def entry_of_def)
qed

end

section \<open>Initial entries\<close>

text \<open>
  The fields of an entry that can be written: vector, delivery mode, destination mode, polarity, trigger mode, mask and
  destination.
\<close>

definition entry_fields :: u64 where
  "entry_fields = 0xff0000000001afff"

definition entry_vector :: "u64 \<Rightarrow> u64" where
  "entry_vector e = e AND 0xff"

definition entry_delivery :: "u64 \<Rightarrow> u64" where
  "entry_delivery e = drop_bit 8 e AND 7"

definition entry_logical :: "u64 \<Rightarrow> bool" where
  "entry_logical e = bit e 11"

definition entry_low_active :: "u64 \<Rightarrow> bool" where
  "entry_low_active e = bit e 13"

definition entry_level :: "u64 \<Rightarrow> bool" where
  "entry_level e = bit e 15"

definition entry_masked :: "u64 \<Rightarrow> bool" where
  "entry_masked e = bit e 16"

definition entry_destination :: "u64 \<Rightarrow> u64" where
  "entry_destination e = drop_bit 56 e"

lemmas entry_selectors = entry_vector_def entry_delivery_def entry_logical_def entry_low_active_def entry_level_def
  entry_masked_def entry_destination_def

text \<open>
  The lines of PCI devices, from 16 on, are low active and level triggered. Those of the ISA bus are high active and edge
  triggered, unless the flags of the override stored under their number say otherwise.
\<close>

definition low_line :: "(u64 \<Rightarrow> u8) \<Rightarrow> u64 list \<Rightarrow> nat \<Rightarrow> bool" where
  "low_line fw ovs gsi \<longleftrightarrow> 16 \<le> gsi \<or> 0 < gsi \<and> ovs ! gsi \<noteq> 0 \<and> override_flags fw (ovs ! gsi) AND 3 = 3"

definition level_line :: "(u64 \<Rightarrow> u8) \<Rightarrow> u64 list \<Rightarrow> nat \<Rightarrow> bool" where
  "level_line fw ovs gsi \<longleftrightarrow> 16 \<le> gsi \<or> 0 < gsi \<and> ovs ! gsi \<noteq> 0 \<and> drop_bit 2 (override_flags fw (ovs ! gsi)) AND 3 = 3"

text \<open>The contents that \<open>init_entry\<close> gives an input.\<close>

definition initial_entry :: "(u64 \<Rightarrow> u8) \<Rightarrow> u64 list \<Rightarrow> u8 \<Rightarrow> nat \<Rightarrow> u64 \<Rightarrow> bool" where
  "initial_entry fw ovs apic_id gsi e \<longleftrightarrow>
     entry_destination e = ucast apic_id \<and> entry_masked e \<and> \<not> entry_logical e \<and>
     entry_delivery e = (if gsi = 0 then 7 else 0) \<and> entry_vector e = of_nat (gsi + 32) \<and>
     entry_low_active e = low_line fw ovs gsi \<and> entry_level e = level_line fw ovs gsi"

lemma bit_entry_fields: "bit entry_fields k \<longleftrightarrow> k < 64 \<and> (k < 12 \<or> k = 13 \<or> k = 15 \<or> k = 16 \<or> 56 \<le> k)"
proof -
  have *: "entry_fields = mask 12 OR push_bit 13 1 OR push_bit 15 1 OR push_bit 16 1 OR push_bit 56 (mask 8)"
    by (simp add: entry_fields_def mask_eq_exp_minus_1)
  show ?thesis
    unfolding * bit_or_iff bit_mask_iff bit_push_bit_iff by (auto simp: bit_1_iff)
qed

lemma bit_line_flags:
  "bit (0x700 :: u64) k \<longleftrightarrow> 8 \<le> k \<and> k < 11" "bit (0x2000 :: u64) k \<longleftrightarrow> k = 13" "bit (0x8000 :: u64) k \<longleftrightarrow> k = 15"
  "bit (0x10000 :: u64) k \<longleftrightarrow> k = 16" "bit (0xa000 :: u64) k \<longleftrightarrow> k = 13 \<or> k = 15"
proof -
  have "(0x700 :: u64) = push_bit 8 (mask 3)" by (simp add: mask_eq_exp_minus_1)
  note m = this
  show "bit (0x700 :: u64) k \<longleftrightarrow> 8 \<le> k \<and> k < 11"
    unfolding m bit_push_bit_iff bit_mask_iff by auto
  have *: "(0x2000 :: u64) = push_bit 13 1" "(0x8000 :: u64) = push_bit 15 1" "(0x10000 :: u64) = push_bit 16 1"
    "(0xa000 :: u64) = push_bit 13 1 OR push_bit 15 1" by simp_all
  show "bit (0x2000 :: u64) k \<longleftrightarrow> k = 13" "bit (0x8000 :: u64) k \<longleftrightarrow> k = 15" "bit (0x10000 :: u64) k \<longleftrightarrow> k = 16"
    "bit (0xa000 :: u64) k \<longleftrightarrow> k = 13 \<or> k = 15"
    unfolding * bit_or_iff bit_push_bit_iff by (auto simp: bit_1_iff)
qed

lemma bit_entry_base:
  assumes "n < 256" "k < 64"
  shows "bit (push_bit 56 (ucast (apic_id :: u8)) OR 0x10000 OR of_nat n :: u64) k \<longleftrightarrow>
    (if 56 \<le> k then bit apic_id (k - 56) else if k < 8 then bit n k else k = 16)"
proof -
  have eq: "bit (of_nat n :: u64) k \<longleftrightarrow> bit n k" using assms(2) by (simp add: bit_of_nat_iff)
  moreover have "k < 8" if "bit n k"
    using that assms(1) bit_bounded [of "of_nat n :: u64" 8 k] by (cases "8 \<le> k") (simp_all add: eq unat_of_nat)
  ultimately show ?thesis
    using assms(2) unfolding bit_or_iff bit_push_bit_iff bit_line_flags by (auto simp: bit_unsigned_iff)
qed

lemma init_entry_bits:
  assumes "length ovs = 16" "unat gsi < 224"
  shows "\<exists>e. init_entry fw ovs apic_id gsi = Inr e \<and> (\<forall>k < 64. bit e k \<longleftrightarrow>
    (if 56 \<le> k then bit apic_id (k - 56) else if k < 8 then bit (unat gsi + 32) k
     else k = 16 \<or> gsi = 0 \<and> k < 11 \<or> k = 13 \<and> low_line fw ovs (unat gsi) \<or> k = 15 \<and> level_line fw ovs (unat gsi)))"
proof -
  let ?b = "push_bit 56 (ucast apic_id) OR 0x10000 OR of_nat (unat gsi + 32) :: u64"
  have n: "unat gsi + 32 < 256" using assms(2) by simp
  have clear: "bit (x AND NOT 0x2000) k \<longleftrightarrow> bit x k \<and> k \<noteq> 13" "bit (x AND NOT 0x8000) k \<longleftrightarrow> bit x k \<and> k \<noteq> 15" if "k < 64"
    for x :: u64 and k
    using that by (simp_all only: bit_and_iff bit_not_iff bit_line_flags possible_bit_word) auto
  have level: "IOAPIC_TRIGGER_MODE_LEVEL OR IOAPIC_POLARITY_LOW_ACTIVE = 0xa000" by simp
  have z: "gsi = 0 \<longleftrightarrow> unat gsi = 0" by (simp add: unat_eq_zero)
  consider "gsi = 0" | "gsi \<noteq> 0" "unat gsi < 16" | "gsi \<noteq> 0" "16 \<le> unat gsi" by fastforce
  then show ?thesis
  proof cases
    case 1
    then have "init_entry fw ovs apic_id gsi = Inr (?b OR 0x700)" by (simp add: init_entry_def)
    moreover have "bit (?b OR 0x700) k \<longleftrightarrow> (if 56 \<le> k then bit apic_id (k - 56) else if k < 8 then bit (unat gsi + 32) k
       else k = 16 \<or> gsi = 0 \<and> k < 11 \<or> k = 13 \<and> low_line fw ovs (unat gsi) \<or> k = 15 \<and> level_line fw ovs (unat gsi))"
      if "k < 64" for k
      unfolding bit_or_iff [of ?b] bit_entry_base [OF n that] bit_line_flags
      using 1 by (auto simp: low_line_def level_line_def)
    ultimately show ?thesis by blast
  next
    case 3
    then have "init_entry fw ovs apic_id gsi = Inr (?b OR 0xa000)" by (simp add: init_entry_def)
    moreover have "bit (?b OR 0xa000) k \<longleftrightarrow> (if 56 \<le> k then bit apic_id (k - 56) else if k < 8 then bit (unat gsi + 32) k
       else k = 16 \<or> gsi = 0 \<and> k < 11 \<or> k = 13 \<and> low_line fw ovs (unat gsi) \<or> k = 15 \<and> level_line fw ovs (unat gsi))"
      if "k < 64" for k
      unfolding bit_or_iff [of ?b] bit_entry_base [OF n that] bit_line_flags
      using 3 by (auto simp: low_line_def level_line_def)
    ultimately show ?thesis by blast
  next
    case 2
    let ?p = "ovs ! unat gsi" and ?fl = "override_flags fw (ovs ! unat gsi)"
    define e1 where "e1 = (if ?fl AND 3 = 3 then (?b AND NOT 0x2000) OR 0x2000
      else if ?fl AND 3 = 0 then ?b AND NOT 0x2000 else ?b)"
    define e where "e = (if ?p = 0 then ?b else if drop_bit 2 ?fl AND 3 = 3 then (e1 AND NOT 0x8000) OR 0x8000
      else if drop_bit 2 ?fl AND 3 = 0 then e1 AND NOT 0x8000 else e1)"
    have "init_entry fw ovs apic_id gsi = Inr e"
      using 2 assms(1) by (simp only: init_entry_def override_entry_def Let_def e_def e1_def if_False if_True array_get_in
          and_then.simps) simp
    moreover have "bit e k \<longleftrightarrow> (if 56 \<le> k then bit apic_id (k - 56) else if k < 8 then bit (unat gsi + 32) k
       else k = 16 \<or> gsi = 0 \<and> k < 11 \<or> k = 13 \<and> low_line fw ovs (unat gsi) \<or> k = 15 \<and> level_line fw ovs (unat gsi))"
      if k: "k < 64" for k
    proof -
      have b: "\<not> bit ?b 13" "\<not> bit ?b 15" using bit_entry_base [OF n, of 13 apic_id] bit_entry_base [OF n, of 15 apic_id] by simp_all
      have "bit e1 k \<longleftrightarrow> bit ?b k \<or> k = 13 \<and> ?fl AND 3 = 3"
        using b(1) by (auto simp only: e1_def bit_or_iff [of _ "0x2000"] clear [OF k] bit_line_flags split: if_splits)
      then have "bit e k \<longleftrightarrow> bit ?b k \<or> ?p \<noteq> 0 \<and> (k = 13 \<and> ?fl AND 3 = 3 \<or> k = 15 \<and> drop_bit 2 ?fl AND 3 = 3)"
        using b(2) by (auto simp only: e_def bit_or_iff [of _ "0x8000"] clear [OF k] bit_line_flags split: if_splits)
      then show ?thesis
        unfolding bit_entry_base [OF n k] using 2 z by (auto simp: low_line_def level_line_def)
    qed
    ultimately show ?thesis by blast
  qed
qed

lemma initial_entry_bits:
  assumes "\<And>k. k < 64 \<Longrightarrow> bit entry_fields k \<Longrightarrow> bit e k \<longleftrightarrow>
    (if 56 \<le> k then bit apic_id (k - 56) else if k < 8 then bit (n + 32) k
     else k = 16 \<or> n = 0 \<and> k < 11 \<or> k = 13 \<and> low_line fw ovs n \<or> k = 15 \<and> level_line fw ovs n)"
    and "n < 224"
  shows "initial_entry fw ovs apic_id n e"
proof -
  have m: "(0xff :: u64) = mask 8" "(7 :: u64) = mask 3" by (simp_all add: mask_eq_exp_minus_1)
  have b: "bit e k \<longleftrightarrow> (if 56 \<le> k then bit apic_id (k - 56) else if k < 8 then bit (n + 32) k
     else k = 16 \<or> n = 0 \<and> k < 11 \<or> k = 13 \<and> low_line fw ovs n \<or> k = 15 \<and> level_line fw ovs n)"
    if "k < 12 \<or> k = 13 \<or> k = 15 \<or> k = 16 \<or> 56 \<le> k" "k < 64" for k
    using assms(1) [OF that(2)] that by (simp add: bit_entry_fields)
  have "drop_bit 56 e = ucast apic_id"
  proof (rule bit_word_eqI)
    fix k assume "k < LENGTH(64)"
    then show "bit (drop_bit 56 e) k = bit (ucast apic_id :: u64) k"
      using b [of "56 + k"] bit_imp_le_length [of e "56 + k"] bit_imp_le_length [of apic_id k]
      by (cases "k < 8") (auto simp: bit_simps)
  qed
  moreover have "drop_bit 8 e AND mask 3 = (if n = 0 then mask 3 else 0)"
  proof (rule bit_word_eqI)
    fix k assume "k < LENGTH(64)"
    show "bit (drop_bit 8 e AND mask 3) k = bit (if n = 0 then mask 3 else 0 :: u64) k"
      using b [of "8 + k"] by (auto simp: bit_simps)
  qed
  moreover have "e AND mask 8 = of_nat (n + 32)"
  proof (rule bit_word_eqI)
    fix k assume "k < LENGTH(64)"
    moreover have "k < 8" if "bit (of_nat (n + 32) :: u64) k"
      using that bit_bounded [of "of_nat (n + 32) :: u64" 8 k] assms(2)
      by (cases "8 \<le> k") (simp_all add: unat_of_nat del: of_nat_add)
    ultimately show "bit (e AND mask 8) k = bit (of_nat (n + 32) :: u64) k"
      using b [of k] by (auto simp: bit_simps bit_of_nat_iff simp del: of_nat_add)
  qed
  ultimately show ?thesis
    using b [of 11] b [of 13] b [of 15] b [of 16] by (simp add: initial_entry_def entry_selectors m)
qed

lemma run_ops_nested:
  "run_ops (\<lambda>x. run_ops (f x) (g x)) xs s = run_ops (\<lambda>(x, y). f x y) (concat (map (\<lambda>x. map (Pair x) (g x)) xs)) s"
proof (induction xs arbitrary: s)
  case Nil
  then show ?case by simp
next
  case (Cons x xs)
  have "run_ops (\<lambda>(x, y). f x y) (map (Pair x) ys @ zs) t =
      (case run_ops (f x) ys t of Inl e \<Rightarrow> Inl e | Inr t' \<Rightarrow> run_ops (\<lambda>(x, y). f x y) zs t')" for ys zs t
    by (induction ys arbitrary: t) (auto split: sum.splits)
  then show ?case using Cons.IH by (auto split: sum.splits)
qed

text \<open>The global system interrupt of an input.\<close>

definition input_gsi :: "ioapic \<Rightarrow> nat \<Rightarrow> u8" where
  "input_gsi io idx = ucast (io_gsi_base io) + of_nat idx"

lemma unat_input_gsi:
  assumes "unat (io_gsi_base io) + idx < 224"
  shows "unat (input_gsi io idx) = unat (io_gsi_base io) + idx"
  using assms by (simp add: input_gsi_def unat_word_ariths unat_ucast_mod unat_of_nat)

definition inputs_of :: "ioapic list \<Rightarrow> (ioapic \<times> nat) list" where
  "inputs_of ios = concat (map (\<lambda>io. map (Pair io) [0..<unat (io_max_entries io)]) ios)"

text \<open>Entry \<open>idx\<close> of an IO APIC in the registers, and what it should be.\<close>

definition entry_at :: "(u64 \<Rightarrow> u8 \<Rightarrow> u32) \<Rightarrow> ioapic \<Rightarrow> nat \<Rightarrow> u64" where
  "entry_at r io idx = entry_of (r (ucast (io_addr io))) (of_nat idx)"

lemma ucast_addr_inj: "(ucast (a :: u32) :: u64) = ucast b \<longleftrightarrow> a = b"
proof
  assume "(ucast a :: u64) = ucast b"
  then have "(ucast (ucast a :: u64) :: u32) = ucast (ucast b :: u64)" by (rule arg_cong)
  then show "a = b" by simp
qed simp

text \<open>The local APIC's identity, read off the values of its registers.\<close>

definition cpu_id :: "('h \<Rightarrow> u64 \<Rightarrow> u32) \<Rightarrow> 'h apic \<Rightarrow> u8" where
  "cpu_id val s = ucast (drop_bit 24 (val (ap_hw s) (apic_base s + 0x20)))"

text \<open>Different inputs have different registers.\<close>

lemma input_registers_differ:
  fixes b b' :: u32
  assumes "idx < 120" "idx' < 120" "(b', idx') \<noteq> (b, idx)"
  shows "(ucast b' :: u64, of_nat idx' :: u8) \<noteq> (ucast b, of_nat idx)"
proof
  assume eq: "(ucast b' :: u64, of_nat idx' :: u8) = (ucast b, of_nat idx)"
  have "b' = b" using eq by (simp add: ucast_addr_inj)
  moreover have "unat (of_nat idx :: u8) = idx" "unat (of_nat idx' :: u8) = idx'" using assms(1,2) by (simp_all add: unat_of_nat)
  moreover have "(of_nat idx' :: u8) = of_nat idx" using eq by (simp only: prod.inject)
  ultimately have "idx' = idx" "b' = b" by (simp_all only:)
  then show False using assms(3) by simp
qed

context apic_registers
begin

lemma init_one_entry_result:
  assumes win: "win (ucast (io_addr io))"
    and plain: "\<not> win (apic_base s + 0x20)" "\<not> win (apic_base s + 0x20 - 0x10)"
    and arr: "length (overrides s) = 16" "length (allocated s) = 224"
    and gsi: "unat (io_gsi_base io) + idx < 224"
  shows "\<exists>e h'. init_entry fw (overrides s) (cpu_id val s) (input_gsi io idx) = Inr e \<and>
    init_one_entry H fw io idx s =
      Inr (s\<lparr>ap_hw := h', allocated := (allocated s)[unat (io_gsi_base io) + idx := True]\<rparr>) \<and>
    reg h' = (reg (ap_hw s))(ucast (io_addr io) :=
      put_entry fixed (of_nat idx) e (reg (ap_hw s) (ucast (io_addr io)))) \<and>
    val h' = val (ap_hw s)"
proof -
  obtain v h1 where rd: "mmio_read H (apic_base s + 0x20) (ap_hw s) = (v, h1)" by fastforce
  have v: "v = val (ap_hw s) (apic_base s + 0x20)" "reg h1 = reg (ap_hw s)" "val h1 = val (ap_hw s)"
    using val_read [OF plain, of "ap_hw s"] reg_plain_read [OF plain, of "ap_hw s"]
      val_read_keeps [of "apic_base s + 0x20" "ap_hw s"] rd by simp_all
  have lt: "unat (input_gsi io idx) < 224" using unat_input_gsi [OF gsi] gsi by simp
  obtain e where e: "init_entry fw (overrides s) (cpu_id val s) (input_gsi io idx) = Inr e"
    using init_entry_bits [OF arr(1) lt] by blast
  have g: "unat (input_gsi io idx) < length (allocated s)" using unat_input_gsi [OF gsi] gsi arr by simp
  show ?thesis
    using e unat_input_gsi [OF gsi] g write_entry_reg [OF win, of "of_nat idx" e h1] write_entry_val [OF win] v
    by (intro exI [of _ e] exI [of _ "ioapic_write_entry H io (of_nat idx) e h1"])
      (auto simp: init_one_entry_def get_local_apic_id_def rd Let_def cpu_id_def input_gsi_def [symmetric]
        reserve_io_interrupt_def)
qed

lemma init_inputs:
  assumes "\<forall>(io, idx) \<in> set ps. win (ucast (io_addr io)) \<and> unat (io_gsi_base io) + idx < 224 \<and> idx < 120"
    and "distinct (map (\<lambda>(io, idx). (io_addr io, idx)) ps)"
    and "\<not> win (apic_base s + 0x20)" "\<not> win (apic_base s + 0x20 - 0x10)"
    and "length (overrides s) = 16" "length (allocated s) = 224"
  shows "\<exists>h' a'. run_ops (\<lambda>(io, idx). init_one_entry H fw io idx) ps s = Inr (s\<lparr>ap_hw := h', allocated := a'\<rparr>) \<and>
    val h' = val (ap_hw s) \<and> length a' = 224 \<and>
    (\<forall>(io, idx) \<in> set ps. a' ! (unat (io_gsi_base io) + idx) \<and>
      (\<exists>e old. init_entry fw (overrides s) (cpu_id val s) (input_gsi io idx) = Inr e \<and>
        entry_at (reg h') io idx = merge (entry_of fixed (of_nat idx)) old e)) \<and>
    (\<forall>v < 224. allocated s ! v \<longrightarrow> a' ! v) \<and>
    (\<forall>b i. i < 120 \<longrightarrow> (\<forall>(io, idx) \<in> set ps. (ucast (io_addr io), of_nat idx) \<noteq> (b, i)) \<longrightarrow>
      entry_of (reg h' b) i = entry_of (reg (ap_hw s) b) i)"
  using assms
proof (induction ps arbitrary: s)
  case Nil
  then show ?case by (auto intro!: exI [of _ "ap_hw s"] exI [of _ "allocated s"])
next
  case (Cons p ps)
  obtain io idx where p: "p = (io, idx)" by fastforce
  have io: "win (ucast (io_addr io))" "unat (io_gsi_base io) + idx < 224" "idx < 120"
    using Cons.prems(1) p by auto
  obtain e h1 where e: "init_entry fw (overrides s) (cpu_id val s) (input_gsi io idx) = Inr e"
    and step: "init_one_entry H fw io idx s =
      Inr (s\<lparr>ap_hw := h1, allocated := (allocated s)[unat (io_gsi_base io) + idx := True]\<rparr>)"
    and h1: "reg h1 = (reg (ap_hw s))(ucast (io_addr io) :=
        put_entry fixed (of_nat idx) e (reg (ap_hw s) (ucast (io_addr io))))" "val h1 = val (ap_hw s)"
    using init_one_entry_result [OF io(1) Cons.prems(3-6) io(2)] by blast
  define s1 where "s1 = s\<lparr>ap_hw := h1, allocated := (allocated s)[unat (io_gsi_base io) + idx := True]\<rparr>"
  have s1: "apic_base s1 = apic_base s" "overrides s1 = overrides s" "cpu_id val s1 = cpu_id val s"
    "length (allocated s1) = 224" "ap_hw s1 = h1"
    using Cons.prems(6) h1(2) by (simp_all add: s1_def cpu_id_def)
  obtain h' a' where IH: "run_ops (\<lambda>(io, idx). init_one_entry H fw io idx) ps s1 = Inr (s1\<lparr>ap_hw := h', allocated := a'\<rparr>)"
    "val h' = val h1" "length a' = 224"
    "\<forall>(io, idx) \<in> set ps. a' ! (unat (io_gsi_base io) + idx) \<and>
      (\<exists>e old. init_entry fw (overrides s) (cpu_id val s) (input_gsi io idx) = Inr e \<and>
        entry_at (reg h') io idx = merge (entry_of fixed (of_nat idx)) old e)"
    "\<forall>v < 224. allocated s1 ! v \<longrightarrow> a' ! v"
    "\<forall>b i. i < 120 \<longrightarrow> (\<forall>(io, idx) \<in> set ps. (ucast (io_addr io), of_nat idx) \<noteq> (b, i)) \<longrightarrow>
      entry_of (reg h' b) i = entry_of (reg h1 b) i"
    using Cons.IH [of s1] Cons.prems s1 by auto
  have small: "unat (of_nat k :: u8) = k" "(of_nat k :: u8) < 120" if "k < 120" for k
    using that by (simp_all add: unat_of_nat word_less_nat_alt)
  have other: "(ucast (io_addr io'), of_nat idx' :: u8) \<noteq> (ucast (io_addr io) :: u64, of_nat idx)"
    if "(io', idx') \<in> set ps" for io' idx'
    by (rule input_registers_differ [OF io(3)]) (use Cons.prems(1,2) that p in force)+
  have "entry_at (reg h') io idx = entry_of (reg h1 (ucast (io_addr io))) (of_nat idx)"
    using IH(6) small(2) [OF io(3)] other by (auto simp: entry_at_def)
  then have mine: "entry_at (reg h') io idx = merge (entry_of fixed (of_nat idx)) (entry_at (reg (ap_hw s)) io idx) e"
    using h1(1) by (simp add: entry_of_put entry_at_def)
  have got: "a' ! (unat (io_gsi_base io) + idx)"
    using IH(5) io(2) Cons.prems(6) by (simp add: s1_def)
  have all: "run_ops (\<lambda>(io, idx). init_one_entry H fw io idx) (p # ps) s = Inr (s\<lparr>ap_hw := h', allocated := a'\<rparr>)"
    using step IH(1) by (simp add: p s1_def)
  have keep: "\<forall>v < 224. allocated s ! v \<longrightarrow> a' ! v"
    using IH(5) io(2) Cons.prems(6) by (auto simp: s1_def nth_list_update)
  have frame: "\<forall>b i. i < 120 \<longrightarrow> (\<forall>(io, idx) \<in> set (p # ps). (ucast (io_addr io), of_nat idx) \<noteq> (b, i)) \<longrightarrow>
      entry_of (reg h' b) i = entry_of (reg (ap_hw s) b) i"
  proof (intro allI impI)
    fix b :: u64 and i :: u8
    assume i: "i < 120" and ne: "\<forall>(io, idx) \<in> set (p # ps). (ucast (io_addr io), of_nat idx) \<noteq> (b, i)"
    have "entry_of (reg h' b) i = entry_of (reg h1 b) i" using IH(6) i ne by auto
    also have "\<dots> = entry_of (reg (ap_hw s) b) i"
      using ne p h1(1) entry_of_put_other [OF small(2) [OF io(3)] i] by (auto simp: fun_upd_apply)
    finally show "entry_of (reg h' b) i = entry_of (reg (ap_hw s) b) i" .
  qed
  show ?case
    using all keep frame IH(2,3,4) h1(2) e mine got p
    by (intro exI [of _ h'] exI [of _ a']) auto
qed

end

section \<open>Masking and unmasking\<close>

definition input_index :: "ioapic \<Rightarrow> u8 \<Rightarrow> u8" where
  "input_index io gsi = ucast (ucast gsi - io_gsi_base io)"

text \<open>The entry of an interrupt on its IO APIC.\<close>

definition gsi_entry :: "(u64 \<Rightarrow> u8 \<Rightarrow> u32) \<Rightarrow> ioapic \<Rightarrow> u8 \<Rightarrow> u64" where
  "gsi_entry r io gsi = entry_of (r (ucast (io_addr io))) (input_index io gsi)"

lemma merge_keep: "f AND m = 0 \<Longrightarrow> merge f old (old AND NOT m) = old AND NOT m"
  "f AND m = 0 \<Longrightarrow> merge f old (old OR m) = old OR m"
proof -
  assume fm: "f AND m = 0"
  have fm': "\<not> (bit f n \<and> bit m n)" for n using fm by (metis bit_and_iff bit_0_eq bot_apply bot_bool_def)
  show "merge f old (old AND NOT m) = old AND NOT m"
    by (rule bit_word_eqI) (use fm' in \<open>auto simp: merge_def bit_simps\<close>)
  show "merge f old (old OR m) = old OR m"
    by (rule bit_word_eqI) (use fm' in \<open>auto simp: merge_def bit_simps\<close>)
qed

context apic_registers
begin

lemma change_entry_result:
  assumes "get_io_apic gsi s = Some io" "win (ucast (io_addr io))"
  shows "\<exists>h'. change_entry H f gsi s = Inr (s\<lparr>ap_hw := h'\<rparr>) \<and>
    reg h' = (reg (ap_hw s))(ucast (io_addr io) :=
      put_entry fixed (input_index io gsi) (f (gsi_entry (reg (ap_hw s)) io gsi)) (reg (ap_hw s) (ucast (io_addr io)))) \<and>
    val h' = val (ap_hw s)"
proof -
  obtain h1 where h1: "ioapic_read_entry H io (input_index io gsi) (ap_hw s) = (gsi_entry (reg (ap_hw s)) io gsi, h1)"
    "reg h1 = reg (ap_hw s)" "val h1 = val (ap_hw s)"
    using read_entry [OF assms(2), of "input_index io gsi" "ap_hw s"] by (auto simp: gsi_entry_def)
  show ?thesis
    using assms h1 write_entry_reg [OF assms(2)] write_entry_val [OF assms(2)]
    by (auto simp: change_entry_def input_index_def [symmetric])
qed

lemma change_entry_entries:
  assumes "get_io_apic gsi s = Some io" "win (ucast (io_addr io))" "input_index io gsi < 120"
    and "change_entry H f gsi s = Inr s'"
  shows "gsi_entry (reg (ap_hw s')) io gsi =
      merge (entry_of fixed (input_index io gsi)) (gsi_entry (reg (ap_hw s)) io gsi) (f (gsi_entry (reg (ap_hw s)) io gsi))"
    and "j < 120 \<Longrightarrow> (b, j) \<noteq> (ucast (io_addr io), input_index io gsi) \<Longrightarrow>
      entry_of (reg (ap_hw s') b) j = entry_of (reg (ap_hw s) b) j"
    and "s' = s\<lparr>ap_hw := ap_hw s'\<rparr>"
proof -
  obtain h' where h': "s' = s\<lparr>ap_hw := h'\<rparr>"
    "reg h' = (reg (ap_hw s))(ucast (io_addr io) :=
      put_entry fixed (input_index io gsi) (f (gsi_entry (reg (ap_hw s)) io gsi)) (reg (ap_hw s) (ucast (io_addr io))))"
    using change_entry_result [OF assms(1,2), of f] assms(4) by auto
  then show "gsi_entry (reg (ap_hw s')) io gsi =
      merge (entry_of fixed (input_index io gsi)) (gsi_entry (reg (ap_hw s)) io gsi) (f (gsi_entry (reg (ap_hw s)) io gsi))"
    "s' = s\<lparr>ap_hw := ap_hw s'\<rparr>"
    by (simp_all add: gsi_entry_def entry_of_put)
  assume "j < 120" "(b, j) \<noteq> (ucast (io_addr io), input_index io gsi)"
  then show "entry_of (reg (ap_hw s') b) j = entry_of (reg (ap_hw s) b) j"
    using h' entry_of_put_other [OF assms(3)] by (auto simp: fun_upd_apply)
qed

end

section \<open>Allocation of vectors\<close>

lemma probe_run_not_found: "probe_run taken js (i, False) = Inr (i', b) \<Longrightarrow> \<not> b"
  by (induction js arbitrary: i) (auto simp: and_then_Inr_iff split: if_splits)

lemma probe_run_found:
  "probe_run taken js (i, True) = Inr (i', True) \<Longrightarrow> i' = i \<and> (\<forall>j \<in> set js. i + j < length taken \<and> \<not> taken ! (i + j))"
proof (induction js)
  case Nil
  then show ?case by simp
next
  case (Cons j js)
  then show ?case
    using probe_run_not_found [of taken js "i + j" i' True]
    by (auto simp: and_then_Inr_iff array_get_def split: if_splits)
qed

lemma take_run_result:
  assumes "i + count \<le> 224" "length (allocated s) = 224"
  shows "\<exists>a'. take_run count i s = Inr (s\<lparr>allocated := a'\<rparr>) \<and> length a' = 224 \<and>
    (\<forall>k < 224. a' ! k \<longleftrightarrow> allocated s ! k \<or> i \<le> k \<and> k < i + count)"
proof -
  let ?step = "\<lambda>j s. and_then (array_set (i + j) True (allocated s))
         (\<lambda>a. reserve_io_interrupt (of_nat (i + j)) (s\<lparr>allocated := a\<rparr>))"
  have "\<exists>a'. run_ops ?step js s = Inr (s\<lparr>allocated := a'\<rparr>) \<and> length a' = 224 \<and>
      (\<forall>k < 224. a' ! k \<longleftrightarrow> allocated s ! k \<or> (\<exists>j \<in> set js. k = i + j))" if "\<forall>j \<in> set js. i + j < 224" for js
    using that assms(2)
  proof (induction js arbitrary: s)
    case Nil
    then show ?case by (auto intro!: exI [of _ "allocated s"])
  next
    case (Cons j js)
    have ij: "i + j < 224" using Cons.prems by simp
    then have "unat (of_nat (i + j) :: u8) = i + j" by (simp add: unat_of_nat del: of_nat_add)
    then have "?step j s = Inr (s\<lparr>allocated := (allocated s)[i + j := True]\<rparr>)"
      using ij Cons.prems by (simp add: reserve_io_interrupt_def del: of_nat_add)
    moreover obtain a' where "run_ops ?step js (s\<lparr>allocated := (allocated s)[i + j := True]\<rparr>) =
        Inr (s\<lparr>allocated := a'\<rparr>)" "length a' = 224"
      "\<forall>k < 224. a' ! k \<longleftrightarrow> (allocated s)[i + j := True] ! k \<or> (\<exists>j \<in> set js. k = i + j)"
      using Cons.IH [of "s\<lparr>allocated := (allocated s)[i + j := True]\<rparr>"] Cons.prems by auto
    ultimately show ?case
      using ij Cons.prems by (intro exI [of _ a']) (auto simp: nth_list_update)
  qed
  from this [of "[0..<count]"] obtain a' where a': "take_run count i s = Inr (s\<lparr>allocated := a'\<rparr>)" "length a' = 224"
    "\<forall>k < 224. a' ! k \<longleftrightarrow> allocated s ! k \<or> (\<exists>j \<in> set [0..<count]. k = i + j)"
    using assms unfolding take_run_def by auto
  have "(\<exists>j \<in> set [0..<count]. k = i + j) \<longleftrightarrow> i \<le> k \<and> k < i + count" for k
    by (auto intro!: bexI [of _ "k - i"])
  then show ?thesis using a' by blast
qed

lemma alloc_io_from_sound:
  assumes "length (allocated s) = 224"
  shows "alloc_io_from count i s = Inr ((v, r), s') \<Longrightarrow>
    (r = 0 \<and> (\<exists>n. v = Some (of_nat n) \<and> n < 224 \<and> (\<forall>j < count. n + j < 224 \<and> \<not> allocated s ! (n + j)) \<and>
       (\<exists>a'. s' = s\<lparr>allocated := a'\<rparr> \<and> length a' = 224 \<and>
         (\<forall>k < 224. a' ! k \<longleftrightarrow> allocated s ! k \<or> n \<le> k \<and> k < n + count)))) \<or>
    (r = - 1 \<and> v = None \<and> s' = s)"
  using assms
proof (induction count i s rule: alloc_io_from.induct)
  case (1 count i s)
  show ?case
  proof (cases "i < 224")
    case False
    then show ?thesis using "1.prems" by (subst (asm) alloc_io_from.simps) auto
  next
    case i: True
    then have get: "array_get (allocated s) i = Inr (allocated s ! i)" using "1.prems" by simp
    show ?thesis
    proof (cases "allocated s ! i")
      case True
      then have "alloc_io_from count i s = alloc_io_from count (Suc i) s"
        using i get by (subst alloc_io_from.simps) simp
      then show ?thesis using "1.IH"(1) [OF i get True] "1.prems" by simp
    next
      case False
      have eq: "alloc_io_from count i s =
          and_then (probe_run (allocated s) [0..<count] (i, True)) (\<lambda>r.
            if snd r then and_then (take_run count (fst r) s) (\<lambda>s. Inr ((Some (of_nat (fst r)), 0), s))
            else alloc_io_from count (Suc (fst r)) s)"
        using i get False by (subst alloc_io_from.simps) simp
      obtain i' b where pr: "probe_run (allocated s) [0..<count] (i, True) = Inr (i', b)"
        using "1.prems"(1) unfolding eq by (auto simp: and_then_Inr_iff)
      show ?thesis
      proof (cases b)
        case True
        have free: "i' = i" "\<forall>j < count. i + j < 224 \<and> \<not> allocated s ! (i + j)"
          using probe_run_found [of "allocated s" "[0..<count]" i i'] pr True "1.prems"(2) by auto
        have "i + count \<le> 224"
        proof (cases count)
          case 0
          then show ?thesis using i by simp
        next
          case (Suc m)
          then have "i + m < 224" using free(2) by blast
          then show ?thesis using Suc by simp
        qed
        from take_run_result [OF this "1.prems"(2)] obtain a' where
          "take_run count i s = Inr (s\<lparr>allocated := a'\<rparr>)" "length a' = 224"
          "\<forall>k < 224. a' ! k \<longleftrightarrow> allocated s ! k \<or> i \<le> k \<and> k < i + count" by blast
        then show ?thesis using "1.prems"(1) pr True free i unfolding eq by auto
      next
        case False
        then show ?thesis
          using "1.IH"(2) [OF i get \<open>\<not> allocated s ! i\<close> pr] "1.prems" pr unfolding eq by simp
      qed
    qed
  qed
qed

lemma alloc_io_from_skip:
  assumes "length (allocated s) = 224" "\<forall>k < m. allocated s ! k" "m \<le> 224"
  shows "i \<le> m \<Longrightarrow> alloc_io_from count i s = alloc_io_from count m s"
proof (induction "m - i" arbitrary: i)
  case 0
  then show ?case by simp
next
  case (Suc d)
  then have "i < m" by simp
  then have "alloc_io_from count i s = alloc_io_from count (Suc i) s"
    using assms by (subst alloc_io_from.simps) simp
  then show ?case using Suc by simp
qed

lemma probe_run_overrun:
  assumes "\<forall>k. m \<le> k \<and> k < length taken \<longrightarrow> \<not> taken ! k" "j \<in> set js" "length taken \<le> m + j"
  shows "probe_run taken js (m, True) = Inl OutOfBounds"
  using assms(2)
proof (induction js)
  case (Cons j' js)
  show ?case
  proof (cases "m + j' < length taken")
    case True
    then have "j \<in> set js" using Cons.prems assms(3) by auto
    then show ?thesis using True Cons.IH assms(1) by simp
  next
    case False
    then show ?thesis by (simp add: array_get_def)
  qed
qed simp

section \<open>Properties\<close>

lemma distinct_inputs_of:
  assumes "distinct (map io_addr ios)"
  shows "distinct (map (\<lambda>(io, idx). (io_addr io, idx)) (inputs_of ios))"
  using assms
proof (induction ios)
  case Nil
  then show ?case by (simp add: inputs_of_def)
next
  case (Cons io ios)
  have "map (\<lambda>(io, idx). (io_addr io, idx)) (inputs_of (io # ios)) =
      map (Pair (io_addr io)) [0..<unat (io_max_entries io)] @ map (\<lambda>(io, idx). (io_addr io, idx)) (inputs_of ios)"
    by (simp add: inputs_of_def comp_def)
  moreover have "distinct (map (Pair (io_addr io)) [0..<unat (io_max_entries io)])"
    by (simp add: distinct_map inj_on_def)
  ultimately show ?case using Cons by (auto simp: inputs_of_def comp_def)
qed

lemma merge_fields: "f AND m = 0 \<Longrightarrow> merge f old e AND m = e AND m"
proof -
  assume fm: "f AND m = 0"
  have fm': "\<not> (bit f n \<and> bit m n)" for n using fm by (metis bit_and_iff bit_0_eq bot_apply bot_bool_def)
  show ?thesis by (rule bit_word_eqI) (use fm' in \<open>auto simp: merge_def bit_simps\<close>)
qed

lemma init_entries_result:
  assumes "apic_registers H win reg fixed val"
    and "\<not> win (apic_base s + 0x20)" "\<not> win (apic_base s + 0x20 - 0x10)"
    and "length (overrides s) = 16" "length (allocated s) = 224"
    and "ios = take (unat (ioapics_len s)) (ioapics s)" "distinct (map io_addr ios)"
    and "\<And>io. io \<in> set ios \<Longrightarrow> win (ucast (io_addr io)) \<and> unat (io_max_entries io) \<le> 120 \<and>
      unat (io_gsi_base io) + unat (io_max_entries io) \<le> 224"
    and "\<And>i. i < 120 \<Longrightarrow> entry_of fixed i AND entry_fields = 0"
  shows "\<exists>h' a'. init_entries H fw s = Inr (s\<lparr>ap_hw := h', allocated := a'\<rparr>) \<and>
    (\<forall>io \<in> set ios. \<forall>idx < unat (io_max_entries io).
      initial_entry fw (overrides s) (cpu_id val s) (unat (io_gsi_base io) + idx) (entry_at (reg h') io idx) \<and>
      a' ! (unat (io_gsi_base io) + idx))"
proof -
  have mem: "(io, idx) \<in> set (inputs_of ios) \<longleftrightarrow> io \<in> set ios \<and> idx < unat (io_max_entries io)" for io idx
    by (auto simp: inputs_of_def image_iff)
  have range: "\<forall>(io, idx) \<in> set (inputs_of ios).
      win (ucast (io_addr io)) \<and> unat (io_gsi_base io) + idx < 224 \<and> idx < 120"
    using assms(8) by (fastforce simp: mem)
  obtain h' a' where r: "run_ops (\<lambda>(io, idx). init_one_entry H fw io idx) (inputs_of ios) s =
      Inr (s\<lparr>ap_hw := h', allocated := a'\<rparr>)"
    "\<forall>(io, idx) \<in> set (inputs_of ios). a' ! (unat (io_gsi_base io) + idx) \<and>
      (\<exists>e old. init_entry fw (overrides s) (cpu_id val s) (input_gsi io idx) = Inr e \<and>
        entry_at (reg h') io idx = merge (entry_of fixed (of_nat idx)) old e)"
    using apic_registers.init_inputs [OF assms(1) range distinct_inputs_of [OF assms(7)] assms(2-5)] by blast
  have eq: "init_entries H fw s = Inr (s\<lparr>ap_hw := h', allocated := a'\<rparr>)"
    using r(1) run_ops_nested [of "init_one_entry H fw" "\<lambda>io. [0..<unat (io_max_entries io)]" ios s]
    by (simp add: init_entries_def inputs_of_def assms(6))
  have "initial_entry fw (overrides s) (cpu_id val s) (unat (io_gsi_base io) + idx) (entry_at (reg h') io idx) \<and>
      a' ! (unat (io_gsi_base io) + idx)"
    if io: "io \<in> set ios" "idx < unat (io_max_entries io)" for io idx
  proof -
    obtain e old where e: "init_entry fw (overrides s) (cpu_id val s) (input_gsi io idx) = Inr e"
      "entry_at (reg h') io idx = merge (entry_of fixed (of_nat idx)) old e" "a' ! (unat (io_gsi_base io) + idx)"
      using r(2) mem io by blast
    have gsi: "unat (io_gsi_base io) + idx < 224" and idx: "idx < 120" using assms(8) io by fastforce+
    have small: "(of_nat idx :: u8) < 120" using idx by (simp add: word_less_nat_alt unat_of_nat)
    have "entry_at (reg h') io idx AND entry_fields = e AND entry_fields"
      unfolding e(2) by (rule merge_fields [OF assms(9) [OF small]])
    then have same: "bit (entry_at (reg h') io idx) k = bit e k" if "bit entry_fields k" for k
      using that by (metis bit_and_iff)
    have g: "unat (input_gsi io idx) = unat (io_gsi_base io) + idx" by (rule unat_input_gsi [OF gsi])
    have z: "input_gsi io idx = 0 \<longleftrightarrow> unat (io_gsi_base io) + idx = 0" unfolding g [symmetric] by (simp add: unat_eq_zero)
    have "unat (input_gsi io idx) < 224" using g gsi by simp
    from init_entry_bits [OF assms(4) this, of fw "cpu_id val s"] e(1) have
      "\<forall>k < 64. bit e k \<longleftrightarrow> (if 56 \<le> k then bit (cpu_id val s) (k - 56) else if k < 8 then bit (unat (io_gsi_base io) + idx + 32) k
        else k = 16 \<or> unat (io_gsi_base io) + idx = 0 \<and> k < 11 \<or>
          k = 13 \<and> low_line fw (overrides s) (unat (io_gsi_base io) + idx) \<or>
          k = 15 \<and> level_line fw (overrides s) (unat (io_gsi_base io) + idx))"
      unfolding g z by force
    then show ?thesis using same e(3) by (intro conjI initial_entry_bits [OF _ gsi]) simp_all
  qed
  then show ?thesis using eq by blast
qed

text \<open>C9:
  \<open>init_io_apics\<close> leaves every input of every IO APIC masked, for the processor that runs the code, and reserves the
  interrupt. Every input but that of interrupt 0 sends the vector of its global system interrupt (\<open>gsi + 32\<close>) with fixed
  delivery; the input of interrupt 0 is for the legacy controllers: external delivery, so that the processor takes the
  vector from them and not from the entry. PCI lines, from 16 on, are low active and level triggered; ISA lines are
  high active and edge triggered unless the flags of the override stored under their number say low (3) or level (3). In
  particular what \<open>init_overrides\<close> has just enabled is masked again. The read-only bits of an entry are none of its fields,
  and the interrupts of the inputs stay below 224.
\<close>

theorem init_entries_routes:
  assumes "apic_registers H win reg fixed val"
    and "\<not> win (apic_base s + 0x20)" "\<not> win (apic_base s + 0x20 - 0x10)"
    and "length (overrides s) = 16" "length (allocated s) = 224"
    and "ios = take (unat (ioapics_len s)) (ioapics s)" "distinct (map io_addr ios)"
    and "\<And>io. io \<in> set ios \<Longrightarrow> win (ucast (io_addr io)) \<and> unat (io_max_entries io) \<le> 120 \<and>
      unat (io_gsi_base io) + unat (io_max_entries io) \<le> 224"
    and "\<And>i. i < 120 \<Longrightarrow> entry_of fixed i AND entry_fields = 0"
  shows "\<exists>h' a'. init_entries H fw s = Inr (s\<lparr>ap_hw := h', allocated := a'\<rparr>) \<and>
    (\<forall>io \<in> set ios. \<forall>idx < unat (io_max_entries io).
      initial_entry fw (overrides s) (cpu_id val s) (unat (io_gsi_base io) + idx) (entry_at (reg h') io idx) \<and>
      a' ! (unat (io_gsi_base io) + idx))"
  using init_entries_result [OF assms] .

text \<open>One IO APIC with 24 inputs at 0xfec00000, the local APIC of processor 3 at 0xfee00000.\<close>

definition sample_ioapic :: ioapic where
  "sample_ioapic = \<lparr>io_addr = 0xfec00000, io_gsi_base = 0, io_id = 2, io_max_entries = 24, io_version = 0x11\<rparr>"

definition sample_regs :: chipset where
  "sample_regs = \<lparr>latch = 0, space = (\<lambda>_. 0), selected = (\<lambda>_. 0), window_regs = (\<lambda>_ _. 0),
     plain_regs = (\<lambda>a. if a = 0xfee00020 then 0x3000000 else 0), msrs = (\<lambda>_. 0), in_bytes = [], out_log = [],
     iflag = False\<rparr>"

definition sample_apic :: "chipset apic" where
  "sample_apic = \<lparr>ap_hw = sample_regs, ap_mm = sample, apic_base = 0xfee00000, x2apic = False,
     ioapics = sample_ioapic # replicate 254 sample_ioapic, ioapics_len = 1, overrides = replicate 16 0,
     allocated = replicate 224 False, io_handlers = replicate 224 no_handler,
     ap_console = init_console (\<lambda>_. 0), ap_keyboard = qwertz_keyboard, ap_seq = 0\<rparr>"


lemma sample_apic_simps [simp]:
  "ap_hw sample_apic = sample_regs" "apic_base sample_apic = 0xfee00000" "ioapics_len sample_apic = 1"
  "ioapics sample_apic = sample_ioapic # replicate 254 sample_ioapic" "overrides sample_apic = replicate 16 0"
  "allocated sample_apic = replicate 224 False" "io_handlers sample_apic = replicate 224 no_handler"
  by (simp_all add: sample_apic_def)

text \<open>Delivery status and the remote IRR bit are read-only.\<close>

definition entry_fixed :: "u8 \<Rightarrow> u32" where
  "entry_fixed i = (if 0x10 \<le> i \<and> even i then 0x5000 else if i < 0x10 then 0xffffffff else 0)"

lemma entry_fixed_fields: "i < 120 \<Longrightarrow> entry_of entry_fixed i = 0x5000"
proof -
  assume i: "i < 120"
  have "even (IOAPICREDTBL_OFFSET i)" by (simp add: IOAPICREDTBL_OFFSET_def)
  moreover have "0x10 \<le> IOAPICREDTBL_OFFSET i" "0x10 \<le> IOAPICREDTBL_OFFSET i + 1"
    using unat_offset [OF i] unat_offset_Suc [OF i] by (simp_all add: word_le_nat_alt)
  ultimately show ?thesis by (auto simp: entry_of_def entry_fixed_def word_le_nat_alt word_less_nat_alt)
qed

theorem init_entries_routes_witness:
  "\<exists>h' a'. init_entries (chipset_hw (\<lambda>_. 0) entry_fixed) (\<lambda>_. 0) sample_apic =
      Inr (sample_apic\<lparr>ap_hw := h', allocated := a'\<rparr>) \<and>
    entry_vector (entry_at (window_regs h') sample_ioapic 9) = 41 \<and>
    entry_delivery (entry_at (window_regs h') sample_ioapic 9) = 0 \<and>
    entry_delivery (entry_at (window_regs h') sample_ioapic 0) = 7 \<and>
    entry_level (entry_at (window_regs h') sample_ioapic 20) \<and> \<not> entry_level (entry_at (window_regs h') sample_ioapic 9) \<and>
    entry_destination (entry_at (window_regs h') sample_ioapic 9) = 3 \<and> a' ! 9"
proof -
  have id: "cpu_id plain_regs sample_apic = 3"
    by (simp add: cpu_id_def sample_regs_def)
  have sample: "io_addr sample_ioapic = 0xfec00000" "io_gsi_base sample_ioapic = 0"
    "io_max_entries sample_ioapic = 24" by (simp_all add: sample_ioapic_def)
  have "entry_of entry_fixed i AND entry_fields = 0" if "i < 120" for i
    using entry_fixed_fields [OF that] by (simp add: entry_fields_def)
  then obtain h' a' where r: "init_entries (chipset_hw (\<lambda>_. 0) entry_fixed) (\<lambda>_. 0) sample_apic =
      Inr (sample_apic\<lparr>ap_hw := h', allocated := a'\<rparr>)"
    "\<And>idx. idx < 24 \<Longrightarrow> initial_entry (\<lambda>_. 0) (replicate 16 0) 3 idx (entry_at (window_regs h') sample_ioapic idx) \<and> a' ! idx"
    using init_entries_routes [OF chip.apic_registers_axioms, of sample_apic "[sample_ioapic]" entry_fixed "\<lambda>_. 0" "\<lambda>_. 0"]
    by (force simp: is_window_def sample id)
  then show ?thesis
    using r(2) [of 0] r(2) [of 9] r(2) [of 20]
    by (intro exI [of _ h'] exI [of _ a']) (simp add: initial_entry_def level_line_def)
qed


text \<open>The interrupt whose entry \<open>enable_io_interrupt\<close> changes.\<close>

definition enabled_gsi :: "(u64 \<Rightarrow> u8) \<Rightarrow> u64 list \<Rightarrow> u8 \<Rightarrow> u8" where
  "enabled_gsi fw ovs gsi =
     (if unat gsi < ISA_INTERRUPT_COUNT \<and> ovs ! unat gsi \<noteq> 0 then ucast (override_gsi fw (ovs ! unat gsi)) else gsi)"

lemma enable_change: "enable_io_interrupt H fw gsi s =
    change_entry H (\<lambda>entry. entry AND NOT 0x10000) (enabled_gsi fw (overrides s) gsi) s"
  by (simp add: enable_io_interrupt_def enabled_gsi_def Let_def)

lemma bit_masked: "bit (0x10000 :: u64) n \<longleftrightarrow> n = 16"
  using bit_exp_iff [of 16 n, where 'a = u64] by (auto simp del: bit_numeral_iff)

text \<open>
  \<open>enable_io_interrupt\<close> clears the mask bit of the interrupt's entry, or of the entry of the interrupt that
  overrides it, and no other bit of any entry of any IO APIC.
\<close>

theorem enable_io_interrupt_unmasks:
  assumes "apic_registers H win reg fixed val"
    and "get_io_apic (enabled_gsi fw (overrides s) gsi) s = Some io" and "win (ucast (io_addr io))"
    and "input_index io (enabled_gsi fw (overrides s) gsi) < 120"
    and "entry_of fixed (input_index io (enabled_gsi fw (overrides s) gsi)) AND 0x10000 = 0"
  shows "\<exists>s'. enable_io_interrupt H fw gsi s = Inr s' \<and> s' = s\<lparr>ap_hw := ap_hw s'\<rparr> \<and>
    gsi_entry (reg (ap_hw s')) io (enabled_gsi fw (overrides s) gsi) =
      gsi_entry (reg (ap_hw s)) io (enabled_gsi fw (overrides s) gsi) AND NOT 0x10000 \<and>
    (\<forall>(b, j) \<in> {(b, j). j < 120} - {(ucast (io_addr io), input_index io (enabled_gsi fw (overrides s) gsi))}.
      entry_of (reg (ap_hw s') b) j = entry_of (reg (ap_hw s) b) j)"
proof -
  let ?g = "enabled_gsi fw (overrides s) gsi"
  obtain h' where r: "change_entry H (\<lambda>entry. entry AND NOT 0x10000) ?g s = Inr (s\<lparr>ap_hw := h'\<rparr>)"
    using apic_registers.change_entry_result [OF assms(1-3)] by blast
  note e = apic_registers.change_entry_entries [OF assms(1-4) r]
  show ?thesis
    using r e(1) e(2) merge_keep(1) [OF assms(5)] unfolding enable_change by (intro exI [of _ "s\<lparr>ap_hw := h'\<rparr>"]) auto
qed

theorem enable_io_interrupt_unmasks_witness:
  "\<exists>s'. enable_io_interrupt (chipset_hw (\<lambda>_. 0) entry_fixed) (\<lambda>_. 0) 4 sample_apic = Inr s' \<and>
    \<not> bit (gsi_entry (window_regs (ap_hw s')) sample_ioapic 4) 16"
proof -
  have "get_io_apic 4 sample_apic = Some sample_ioapic"
    by (simp add: get_io_apic_def sample_ioapic_def)
  then show ?thesis
    using enable_io_interrupt_unmasks [OF chip.apic_registers_axioms, of "\<lambda>_. 0" sample_apic 4 sample_ioapic entry_fixed "\<lambda>_. 0"]
    by (force simp: is_window_def sample_ioapic_def entry_fixed_fields enabled_gsi_def input_index_def bit_simps bit_masked)
qed

text \<open>
  \<open>disable_io_interrupt\<close> does not look at the overrides: after \<open>enable_io_interrupt\<close> and \<open>disable_io_interrupt\<close>
  of an overridden interrupt, the entry that was unmasked is still unmasked.
\<close>

theorem disable_ignores_override:
  assumes "apic_registers H win reg fixed val"
    and "get_io_apic (enabled_gsi fw (overrides s) gsi) s = Some io" and "get_io_apic gsi s = Some io'"
    and "win (ucast (io_addr io))" and "win (ucast (io_addr io'))"
    and "input_index io (enabled_gsi fw (overrides s) gsi) < 120" and "input_index io' gsi < 120"
    and "entry_of fixed (input_index io (enabled_gsi fw (overrides s) gsi)) AND 0x10000 = 0"
    and "(io_addr io, input_index io (enabled_gsi fw (overrides s) gsi)) \<noteq> (io_addr io', input_index io' gsi)"
  shows "\<exists>s'. and_then (enable_io_interrupt H fw gsi s) (disable_io_interrupt H gsi) = Inr s' \<and>
    \<not> bit (gsi_entry (reg (ap_hw s')) io (enabled_gsi fw (overrides s) gsi)) 16"
proof -
  let ?g = "enabled_gsi fw (overrides s) gsi"
  obtain h1 where r1: "change_entry H (\<lambda>entry. entry AND NOT 0x10000) ?g s = Inr (s\<lparr>ap_hw := h1\<rparr>)"
    using apic_registers.change_entry_result [OF assms(1,2,4)] by blast
  have io': "get_io_apic gsi (s\<lparr>ap_hw := h1\<rparr>) = Some io'" using assms(3) by (simp add: get_io_apic_def)
  obtain h2 where r2: "change_entry H (\<lambda>entry. entry OR 0x10000) gsi (s\<lparr>ap_hw := h1\<rparr>) = Inr (s\<lparr>ap_hw := h2\<rparr>)"
    using apic_registers.change_entry_result [OF assms(1) io' assms(5)] by fastforce
  have "(ucast (io_addr io) :: u64, input_index io ?g) \<noteq> (ucast (io_addr io'), input_index io' gsi)"
    using assms(9) by (simp add: ucast_addr_inj)
  from apic_registers.change_entry_entries(2) [OF assms(1) io' assms(5,7) r2 assms(6) this]
  have "gsi_entry (reg h2) io ?g = gsi_entry (reg h1) io ?g" by (simp add: gsi_entry_def)
  also have "\<dots> = gsi_entry (reg (ap_hw s)) io ?g AND NOT 0x10000"
    using apic_registers.change_entry_entries(1) [OF assms(1,2,4,6) r1] merge_keep(1) [OF assms(8)] by simp
  finally show ?thesis
    using r1 r2 by (simp add: enable_change disable_io_interrupt_def bit_simps bit_masked)
qed

text \<open>A firmware table at 0x1000 that routes ISA interrupt 0 to input 2.\<close>

definition override_fw :: "u64 \<Rightarrow> u8" where
  "override_fw a = (if a = 0x1000 then 2 else if a = 0x1001 then 10 else if a = 0x1004 then 2 else 0)"

theorem disable_ignores_override_witness:
  "\<exists>s'. and_then (enable_io_interrupt (chipset_hw (\<lambda>_. 0) entry_fixed) override_fw 0
        (sample_apic\<lparr>overrides := 0x1000 # replicate 15 0\<rparr>))
      (disable_io_interrupt (chipset_hw (\<lambda>_. 0) entry_fixed) 0) = Inr s' \<and>
    \<not> bit (gsi_entry (window_regs (ap_hw s')) sample_ioapic 2) 16"
proof -
  let ?s = "sample_apic\<lparr>overrides := 0x1000 # replicate 15 0\<rparr>"
  have g: "enabled_gsi override_fw (overrides ?s) 0 = 2"
    by (simp add: enabled_gsi_def override_gsi_def rd32_def rd16_def override_fw_def)
  have "get_io_apic 2 ?s = Some sample_ioapic" "get_io_apic 0 ?s = Some sample_ioapic"
    by (simp_all add: get_io_apic_def sample_ioapic_def)
  then show ?thesis
    using disable_ignores_override [OF chip.apic_registers_axioms, of override_fw ?s 0 sample_ioapic
        sample_ioapic entry_fixed "\<lambda>_. 0"] unfolding g
    by (simp add: is_window_def sample_ioapic_def entry_fixed_fields input_index_def)
qed

text \<open>C17:
  \<open>alloc_io_interrupts\<close>: when it returns 0, the vectors \<open>firstVector\<close> to \<open>firstVector + count - 1\<close> were free, lie
  below 224, and are now reserved, and no other vector changed; when it returns -1 nothing changed.
\<close>

theorem alloc_io_interrupts_sound:
  assumes "length (allocated s) = 224" and "alloc_io_interrupts count s = Inr ((v, r), s')"
  shows "r = 0 \<and> (\<exists>n. v = Some (of_nat n) \<and> n < 224 \<and> (\<forall>j < unat count. n + j < 224 \<and> \<not> allocated s ! (n + j)) \<and>
       (\<exists>a'. s' = s\<lparr>allocated := a'\<rparr> \<and> length a' = 224 \<and>
         (\<forall>k < 224. a' ! k \<longleftrightarrow> allocated s ! k \<or> n \<le> k \<and> k < n + unat count))) \<or>
    r = - 1 \<and> v = None \<and> s' = s"
  using alloc_io_from_sound [OF assms(1)] assms(2) unfolding alloc_io_interrupts_def by blast

text \<open>
  When the vectors below \<open>m\<close> are taken and fewer than \<open>count\<close> are left above, \<open>alloc_io_interrupts\<close> does not return
  -1: its probe reads behind the end of \<open>allocated_io_interrupts\<close>.
\<close>

theorem alloc_io_interrupts_overruns:
  assumes "length (allocated s) = 224" and "m < 224" and "\<And>k. k < 224 \<Longrightarrow> allocated s ! k \<longleftrightarrow> k < m"
    and "224 < m + unat count"
  shows "alloc_io_interrupts count s = Inl OutOfBounds"
proof -
  have "alloc_io_interrupts count s = alloc_io_from (unat count) m s"
    using alloc_io_from_skip [of s m 0 "unat count"] assms(1-3) by (simp add: alloc_io_interrupts_def)
  moreover have "probe_run (allocated s) [0..<unat count] (m, True) = Inl OutOfBounds"
    using assms by (intro probe_run_overrun [of _ _ "unat count - 1"]) auto
  moreover have "alloc_io_from (unat count) m s =
      and_then (probe_run (allocated s) [0..<unat count] (m, True)) (\<lambda>r.
        if snd r then and_then (take_run (unat count) (fst r) s) (\<lambda>s. Inr ((Some (of_nat (fst r)), 0), s))
        else alloc_io_from (unat count) (Suc (fst r)) s)"
    using assms(1-3) by (subst alloc_io_from.simps) simp
  ultimately show ?thesis by simp
qed

theorem alloc_io_interrupts_overruns_witness:
  "alloc_io_interrupts 4 (sample_apic\<lparr>allocated := replicate 222 True @ replicate 2 False\<rparr>) = Inl OutOfBounds"
  by (rule alloc_io_interrupts_overruns [of _ 222]) (simp_all add: nth_append)

theorem alloc_io_interrupts_sound_witness:
  "allocated (snd (projr (alloc_io_interrupts 2 (sample_apic\<lparr>allocated := [True, False, True] @ replicate 221 False\<rparr>)))) ! 4"
proof -
  let ?s = "sample_apic\<lparr>allocated := [True, False, True] @ replicate 221 False\<rparr>"
  have two: "[0..<2] = [0, 1]" by (simp add: upt_conv_Cons)
  have e: "alloc_io_interrupts 2 ?s = Inr ((Some 3, 0),
      ?s\<lparr>allocated := [True, False, True] @ (replicate 221 False)[0 := True, 1 := True]\<rparr>)"
    by (simp add: alloc_io_interrupts_def alloc_io_from.simps take_run_def reserve_io_interrupt_def two nth_Cons'
        list_update_append1)
  obtain n a' where n: "(of_nat n :: u8) = 3" "n < 224"
    and a': "projr (alloc_io_interrupts 2 ?s) = ((Some 3, 0), ?s\<lparr>allocated := a'\<rparr>)"
      "\<forall>k < 224. a' ! k \<longleftrightarrow> allocated ?s ! k \<or> n \<le> k \<and> k < n + 2"
    using alloc_io_interrupts_sound [OF _ e] e by auto
  have "n = 3" using arg_cong [OF n(1), of unat] n(2) by (simp add: unat_of_nat)
  then show ?thesis using a' by simp
qed


lemma enable_keeps:
  "enable_io_interrupt H fw gsi s = Inr s' \<Longrightarrow> io_handlers s' = io_handlers s \<and> overrides s' = overrides s"
  by (auto simp: enable_io_interrupt_def change_entry_def Let_def split: option.splits prod.splits)

lemma install_result:
  assumes "install_io_interrupt_handler H fw vector f data s = Inr (r, s')" "length (io_handlers s) = 224"
  shows "r = 0 \<and> unat vector < 224 \<and> io_handlers s ! unat vector = no_handler \<and>
      io_handlers s' = (io_handlers s)[unat vector := \<lparr>h_func = Some f, h_data = data, h_vector = vector\<rparr>] \<and>
      overrides s' = overrides s \<or> r = - 1 \<and> s' = s"
  using assms enable_keeps [of H fw vector _ s']
  by (auto simp: install_io_interrupt_handler_def and_then_Inr_iff no_handler_def split: if_splits)

lemma visit_override_result:
  assumes "visit_override H fw 2 p s = Inr s'" "length (io_handlers s) = 224" "unat (override_gsi fw p) < 16"
    and "io_handlers s ! unat (override_gsi fw p) = no_handler"
  shows "io_handlers s' = (io_handlers s)[unat (override_gsi fw p) :=
      \<lparr>h_func = Some Source_override, h_data = ucast (override_irq_src fw p), h_vector = ucast (override_gsi fw p)\<rparr>]"
proof -
  have u: "unat (ucast (override_gsi fw p) :: u8) = unat (override_gsi fw p)"
    using assms(3) by (simp add: unat_ucast_mod)
  obtain ov r where r: "install_io_interrupt_handler H fw (ucast (override_gsi fw p)) Source_override
      (ucast (override_irq_src fw p)) (s\<lparr>overrides := ov\<rparr>) = Inr (r, s')"
    using assms(1,3) by (auto simp: visit_override_def and_then_Inr_iff)
  moreover have "r = 0"
    using r assms u by (auto simp: install_io_interrupt_handler_def and_then_Inr_iff no_handler_def)
  ultimately show ?thesis using install_result [OF r] assms(2) u by simp
qed

text \<open>
  An override that names the same number as source and as interrupt (firmware uses it to give the flags of the
  line) installs a handler that calls itself: the interrupt never returns, whatever the depth of the stack.
\<close>

theorem identity_override_recurses:
  assumes "length (io_handlers s) = 224" and "io_handlers s ! unat (override_gsi fw p) = no_handler"
    and "unat (override_gsi fw p) < 16" and "ucast (override_irq_src fw p) = override_gsi fw p"
    and "visit_override H fw 2 p s = Inr s'"
  shows "exec_io_handler H depth drivers (override_irq_src fw p) s' = Inl UnboundedRecursion"
proof (induction depth)
  case 0
  show ?case by simp
next
  case (Suc depth)
  have "unat (override_irq_src fw p) = unat (override_gsi fw p)"
    unfolding assms(4) [symmetric] by (simp add: unat_ucast_up)
  then show ?case
    using Suc visit_override_result [OF assms(5,1,3,2)] assms(1,3) by simp
qed

text \<open>
  After the override of source \<open>irq\<close> by another interrupt is read and a handler is installed for \<open>irq\<close>,
  an interrupt that arrives under either number runs that handler, with its data.
\<close>

theorem override_reaches_handler:
  assumes "length (io_handlers s) = 224" and "io_handlers s ! unat (override_gsi fw p) = no_handler"
    and "unat (override_gsi fw p) < 16" and "ucast (override_irq_src fw p) \<noteq> override_gsi fw p"
    and "visit_override H fw 2 p s = Inr s'"
    and "install_io_interrupt_handler H fw (override_irq_src fw p) (Driver n) data s' = Inr (0, s'')"
  shows "exec_io_handler H (Suc (Suc depth)) drivers (ucast (override_gsi fw p)) s'' = drivers n data s'' \<and>
    exec_io_handler H (Suc depth) drivers (override_irq_src fw p) s'' = drivers n data s''"
proof -
  have u: "unat (ucast (override_gsi fw p) :: u8) = unat (override_gsi fw p)"
    using assms(3) by (simp add: unat_ucast_mod)
  have "unat (override_irq_src fw p) \<noteq> unat (override_gsi fw p)"
    using assms(4) by (simp add: word_unat_eq_iff unat_ucast_up)
  then show ?thesis
    using install_result [OF assms(6)] visit_override_result [OF assms(5,1,3,2)] assms(1,3) u by auto
qed

text \<open>
  The polarity and trigger mode of an override (here low and level) belong to its interrupt. \<open>init_io_apics\<close>
  puts them into the entry numbered like the override's source; the entry of the interrupt is left as edge
  triggered and high active.
\<close>

theorem override_flags_misplaced:
  assumes "length ovs = 16" and "unat irq < 16" and "irq \<noteq> 0" and "ovs ! unat irq = p" and "p \<noteq> 0"
    and "override_flags fw p AND 0xf = 0xf"
    and "unat (override_gsi fw p) < 16" and "override_gsi fw p \<noteq> 0" and "ovs ! unat (override_gsi fw p) = 0"
  shows "\<exists>e e'. init_entry fw ovs apic_id irq = Inr e \<and> bit e 13 \<and> bit e 15 \<and>
    init_entry fw ovs apic_id (ucast (override_gsi fw p)) = Inr e' \<and> \<not> bit e' 13 \<and> \<not> bit e' 15"
proof -
  have u: "unat (ucast (override_gsi fw p) :: u8) = unat (override_gsi fw p)"
    using assms(7) by (simp add: unat_ucast_mod)
  have nz: "(ucast (override_gsi fw p) :: u8) \<noteq> 0"
    using assms(8) u by (metis unat_eq_zero)
  have f1: "override_flags fw p AND 3 = 3"
    using arg_cong [OF assms(6), of "\<lambda>x. x AND 3"] by (simp add: and.assoc)
  have f2: "drop_bit 2 (override_flags fw p) AND 3 = 3"
    using arg_cong [OF assms(6), of "\<lambda>x. drop_bit 2 x"] by (simp add: drop_bit_and)
  have low: "\<not> bit (of_nat n :: u64) k" if "n < 256" "8 \<le> k" for n k
    using that by (intro bit_bounded [of _ 8]) (simp_all add: unat_of_nat)
  show ?thesis
    using assms f1 f2 u nz low [of "unat (override_gsi fw p) + 32"]
    by (simp add: init_entry_def override_entry_def Let_def bit_simps del: of_nat_add)
qed


lemma change_entry_total:
  "get_io_apic gsi s = Some io \<Longrightarrow> \<exists>h'. change_entry H f gsi s = Inr (s\<lparr>ap_hw := h'\<rparr>)"
  by (auto simp: change_entry_def Let_def split: prod.splits)

lemma install_total:
  assumes "unat v < 224" "length (io_handlers s) = 224" "io_handlers s ! unat v = no_handler"
    and "get_io_apic (enabled_gsi fw (overrides s) v) s = Some io"
  shows "\<exists>s'. install_io_interrupt_handler H fw v f data s = Inr (0, s')"
proof -
  define s1 where "s1 = s\<lparr>io_handlers := (io_handlers s)[unat v := \<lparr>h_func = Some f, h_data = data, h_vector = v\<rparr>]\<rparr>"
  have "get_io_apic (enabled_gsi fw (overrides s) v) s1 = Some io"
    using assms(4) by (simp add: get_io_apic_def s1_def)
  from change_entry_total [OF this, of H "\<lambda>entry. entry AND NOT 0x10000"] obtain h' where
    "enable_io_interrupt H fw v s1 = Inr (s1\<lparr>ap_hw := h'\<rparr>)"
    by (auto simp: enable_change s1_def)
  then show ?thesis
    using assms by (simp add: install_io_interrupt_handler_def no_handler_def s1_def)
qed

lemma visit_override_total:
  assumes "unat (override_gsi fw p) < 16" "unat (override_irq_src fw p) < 16" "length (overrides s) = 16"
    and "length (io_handlers s) = 224" "io_handlers s ! unat (override_gsi fw p) = no_handler"
    and "get_io_apic (enabled_gsi fw ((overrides s)[unat (override_irq_src fw p) := p]) (ucast (override_gsi fw p))) s = Some io"
  shows "\<exists>s'. visit_override H fw 2 p s = Inr s'"
proof -
  let ?s = "s\<lparr>overrides := (overrides s)[unat (override_irq_src fw p) := p]\<rparr>"
  have u: "unat (ucast (override_gsi fw p) :: u8) = unat (override_gsi fw p)"
    using assms(1) by (simp add: unat_ucast_mod)
  have "get_io_apic (enabled_gsi fw (overrides ?s) (ucast (override_gsi fw p))) ?s = Some io"
    using assms(6) by (simp add: get_io_apic_def)
  from install_total [OF _ _ _ this, of H Source_override "ucast (override_irq_src fw p)"] obtain s' where
    "install_io_interrupt_handler H fw (ucast (override_gsi fw p)) Source_override (ucast (override_irq_src fw p)) ?s
      = Inr (0, s')"
    using assms u by auto
  then show ?thesis using assms(1-3) by (simp add: visit_override_def)
qed

lemma visit_override_keeps:
  assumes "visit_override H fw 2 p s = Inr s'" "unat (override_gsi fw p) < 16"
  shows "ioapics s' = ioapics s \<and> ioapics_len s' = ioapics_len s \<and>
    overrides s' = (overrides s)[unat (override_irq_src fw p) := p]"
  using assms
  by (auto simp: visit_override_def install_io_interrupt_handler_def and_then_Inr_iff array_set_def
      enable_change change_entry_def Let_def split: if_splits option.splits prod.splits)

text \<open>Interrupt 9 as firmware describes it on many machines: source 9, interrupt 9, low and level.\<close>

definition identity_fw :: "u64 \<Rightarrow> u8" where
  "identity_fw a = (if a = 0x1000 then 2 else if a = 0x1001 then 10 else if a = 0x1003 then 9 else if a = 0x1004 then 9
     else if a = 0x1008 then 0xf else 0)"

lemma sample_input: "unat gsi < 24 \<Longrightarrow> get_io_apic gsi (sample_apic\<lparr>overrides := ovs\<rparr>) = Some sample_ioapic"
  "unat gsi < 24 \<Longrightarrow> get_io_apic gsi sample_apic = Some sample_ioapic"
  by (simp_all add: get_io_apic_def sample_ioapic_def word_less_nat_alt unat_ucast_up)

theorem identity_override_recurses_witness:
  "\<exists>s'. visit_override (chipset_hw (\<lambda>_. 0) entry_fixed) identity_fw 2 0x1000 sample_apic = Inr s' \<and>
    exec_io_handler (chipset_hw (\<lambda>_. 0) entry_fixed) 1000 (\<lambda>_ _ s. Inr (0, s)) 9 s' = Inl UnboundedRecursion"
proof -
  have f: "override_gsi identity_fw 0x1000 = 9" "override_irq_src identity_fw 0x1000 = 9"
    by (simp_all add: override_gsi_def override_irq_src_def rd32_def rd16_def identity_fw_def)
  have "enabled_gsi identity_fw ((replicate 16 0)[9 := 0x1000]) 9 = 9"
    using f by (simp add: enabled_gsi_def)
  then obtain s' where "visit_override (chipset_hw (\<lambda>_. 0) entry_fixed) identity_fw 2 0x1000 sample_apic = Inr s'"
    using visit_override_total [of identity_fw "0x1000" sample_apic sample_ioapic] f sample_input(2) [of 9] by auto
  then show ?thesis
    using identity_override_recurses [of sample_apic identity_fw "0x1000" "chipset_hw (\<lambda>_. 0) entry_fixed" s'] f
    by auto
qed

theorem override_reaches_handler_witness:
  "\<exists>s''. exec_io_handler (chipset_hw (\<lambda>_. 0) entry_fixed) (Suc (Suc 0)) (\<lambda>n d s. Inr (int n, s)) 2 s'' = Inr (7, s'')"
proof -
  let ?H = "chipset_hw (\<lambda>_. 0) entry_fixed"
  have f: "override_gsi override_fw 0x1000 = 2" "override_irq_src override_fw 0x1000 = 0"
    by (simp_all add: override_gsi_def override_irq_src_def rd32_def rd16_def override_fw_def)
  have e: "enabled_gsi override_fw ((replicate 16 0)[0 := 0x1000]) 2 = 2"
    using f by (simp add: enabled_gsi_def)
  then obtain s' where s': "visit_override ?H override_fw 2 0x1000 sample_apic = Inr s'"
    using visit_override_total [of override_fw "0x1000" sample_apic sample_ioapic] f sample_input(2) [of 2] by auto
  have hs: "io_handlers s' ! 0 = no_handler" "length (io_handlers s') = 224"
    using visit_override_result [OF s'] f by simp_all
  have "get_io_apic (enabled_gsi override_fw (overrides s') 0) s' = Some sample_ioapic"
    using visit_override_keeps [OF s'] f by (simp add: enabled_gsi_def get_io_apic_def sample_ioapic_def)
  from install_total [OF _ hs(2) _ this, of ?H "Driver 7" 5] hs(1) obtain s'' where
    "install_io_interrupt_handler ?H override_fw 0 (Driver 7) 5 s' = Inr (0, s'')" by auto
  then show ?thesis
    using override_reaches_handler [of sample_apic override_fw "0x1000" ?H s' 7 5 s'' 0 "\<lambda>n d s. Inr (int n, s)"] f s'
    by (auto simp del: exec_io_handler.simps)
qed

definition flags_fw :: "u64 \<Rightarrow> u8" where
  "flags_fw a = (if a = 0x1004 then 2 else if a = 0x1003 then 5 else if a = 0x1008 then 0xf else 0)"

theorem override_flags_misplaced_witness:
  "\<exists>e e'. init_entry flags_fw ((replicate 16 0)[5 := 0x1000]) 3 5 = Inr e \<and> bit e 13 \<and>
    init_entry flags_fw ((replicate 16 0)[5 := 0x1000]) 3 2 = Inr e' \<and> \<not> bit e' 13"
  using override_flags_misplaced [of "(replicate 16 0)[5 := 0x1000]" 5 "0x1000" flags_fw 3]
  by (auto simp: override_gsi_def override_flags_def rd32_def rd16_def flags_fw_def)

end
