(* ===== verification/Idt.thy ===== *)
theory Idt
  imports Hardware
begin

text \<open>
  The interrupt descriptor table of \<open>src/src/interrupt/idt.c\<close> and \<open>idt.h\<close>. The addresses of the service
  routines are chosen by the linker: a function from routines to addresses, given as a parameter.
\<close>

section \<open>Data\<close>

record idt_descr =
  offset1 :: u16
  gate_selector :: u16
  gate_ist :: u8
  gate_type :: u8
  offset2 :: u16
  offset3 :: u32
  gate_zero :: u32

type_synonym idt = "idt_descr list"

abbreviation (input) CODE_SEG :: u16 where "CODE_SEG \<equiv> 0x08"
abbreviation (input) IST_NONE :: u8 where "IST_NONE \<equiv> 0"
abbreviation (input) IST_NO_MASKABLE_INT :: u8 where "IST_NO_MASKABLE_INT \<equiv> 1"
abbreviation (input) IST_DOUBLE_FAULT :: u8 where "IST_DOUBLE_FAULT \<equiv> 2"
abbreviation (input) INTERRUPT_GATE :: u8 where "INTERRUPT_GATE \<equiv> 0xe"
abbreviation (input) GATE_PRESENT :: u8 where "GATE_PRESENT \<equiv> 0x80"

record interrupt_frame =
  fr_rip :: u64
  fr_cs :: u64
  fr_rflags :: u64
  fr_rsp :: u64
  fr_ss :: u64

text \<open>The service routines of the kernel, by the name of their function.\<close>

datatype isr =
    Exc nat
  | Apic_wrapper u8
  | Apic_err
  | Apic_spurious
  | Pic_timer
  | Pic_keyboard
  | Pic_interrupt

section \<open>Gates\<close>

definition zero_gate :: idt_descr where
  "zero_gate = \<lparr>offset1 = 0, gate_selector = 0, gate_ist = 0, gate_type = 0, offset2 = 0, offset3 = 0, gate_zero = 0\<rparr>"

definition zero_idt :: idt where
  "zero_idt = replicate 256 zero_gate"

definition init_gate :: "u8 \<Rightarrow> u64 \<Rightarrow> u16 \<Rightarrow> u8 \<Rightarrow> u8 \<Rightarrow> idt \<Rightarrow> idt" where
  "init_gate idt_index base selector type ist idt =
     idt[unat idt_index :=
       \<lparr>offset1 = ucast (base AND 0xffff), gate_selector = selector, gate_ist = ist, gate_type = type,
        offset2 = ucast (drop_bit 16 base AND 0xffff),
        offset3 = ucast (drop_bit 32 base AND 0xffffffff), gate_zero = 0\<rparr>]"

text \<open>What the processor reads in a descriptor.\<close>

definition gate_addr :: "idt_descr \<Rightarrow> u64" where
  "gate_addr g = push_bit 32 (ucast (offset3 g)) OR push_bit 16 (ucast (offset2 g)) OR ucast (offset1 g)"

definition gate_present :: "idt_descr \<Rightarrow> bool" where
  "gate_present g \<longleftrightarrow> gate_type g AND 0x80 \<noteq> 0"

text \<open>An interrupt gate of the kernel code segment for a service routine.\<close>

definition kernel_gate :: "u64 \<Rightarrow> u8 \<Rightarrow> idt_descr \<Rightarrow> bool" where
  "kernel_gate a ist g \<longleftrightarrow> gate_present g \<and> gate_addr g = a \<and> gate_selector g = CODE_SEG \<and>
     gate_type g AND 0xf = INTERRUPT_GATE \<and> gate_ist g = ist \<and> gate_zero g = 0"

lemma length_init_gate [simp]: "length (init_gate i b sel t ist idt) = length idt"
  by (simp add: init_gate_def)

lemma length_zero_idt [simp]: "length zero_idt = 256"
  by (simp add: zero_idt_def)

lemma split_addr:
  "(push_bit 32 (ucast (ucast (drop_bit 32 a AND 0xffffffff) :: u32)) OR
    push_bit 16 (ucast (ucast (drop_bit 16 a AND 0xffff) :: u16)) OR
    ucast (ucast (a AND 0xffff) :: u16) :: u64) = a"
proof (rule bit_word_eqI)
  fix n assume n: "n < LENGTH(64)"
  have m: "(0xffffffff :: u64) = mask 32" "(0xffff :: u64) = mask 16" by (simp_all add: mask_eq_exp_minus_1)
  consider "n < 16" | "16 \<le> n" "n < 32" | "32 \<le> n" by linarith
  then show "bit (push_bit 32 (ucast (ucast (drop_bit 32 a AND 0xffffffff) :: u32)) OR
      push_bit 16 (ucast (ucast (drop_bit 16 a AND 0xffff) :: u16)) OR
      ucast (ucast (a AND 0xffff) :: u16) :: u64) n = bit a n"
    unfolding m using n by cases (auto simp: bit_simps)
qed

lemma init_gate_kernel:
  "length idt = 256 \<Longrightarrow>
   kernel_gate a ist (init_gate i a CODE_SEG (GATE_PRESENT OR INTERRUPT_GATE) ist idt ! unat i)"
  using unat_u8_less [of i]
  by (simp add: init_gate_def kernel_gate_def gate_addr_def gate_present_def split_addr)

lemma init_gate_other:
  "i \<noteq> j \<Longrightarrow> init_gate i a sel t ist idt ! unat j = idt ! unat j"
  by (simp add: init_gate_def word_unat_eq_iff nth_list_update)

text \<open>A sequence of calls of \<open>init_gate\<close> for kernel interrupt gates: index, routine and stack of each.\<close>

definition init_gates :: "(u8 \<times> u64 \<times> u8) list \<Rightarrow> idt \<Rightarrow> idt" where
  "init_gates gs idt =
     fold (\<lambda>(i, a, ist). init_gate i a CODE_SEG (GATE_PRESENT OR INTERRUPT_GATE) ist) gs idt"

lemma length_init_gates [simp]: "length (init_gates gs idt) = length idt"
  unfolding init_gates_def by (induction gs arbitrary: idt) auto

lemma init_gates_other: "v \<notin> fst ` set gs \<Longrightarrow> init_gates gs idt ! unat v = idt ! unat v"
  unfolding init_gates_def
  by (induction gs arbitrary: idt) (auto simp: init_gate_other split: prod.splits)

lemma init_gates_kernel:
  assumes "length idt = 256" "distinct (map fst gs)" "(v, a, ist) \<in> set gs"
  shows "kernel_gate a ist (init_gates gs idt ! unat v)"
  using assms
proof (induction gs arbitrary: idt)
  case Nil
  then show ?case by simp
next
  case (Cons g gs)
  show ?case
  proof (cases "g = (v, a, ist)")
    case True
    then have "v \<notin> fst ` set gs" using Cons.prems(2) by auto
    from init_gates_other [OF this] show ?thesis
      using True init_gate_kernel [OF Cons.prems(1)] by (simp add: init_gates_def)
  next
    case False
    then show ?thesis using Cons by (auto simp: init_gates_def split: prod.splits)
  qed
qed

text \<open>The same for routines of consecutive vectors.\<close>

lemma init_gates_range:
  fixes v :: u8
  assumes "length idt = 256" "hi \<le> 256"
  shows "lo \<le> unat v \<and> unat v < hi \<Longrightarrow>
      kernel_gate (a (unat v)) (s (unat v)) (init_gates (map (\<lambda>n. (of_nat n, a n, s n)) [lo..<hi]) idt ! unat v)"
    and "\<not> (lo \<le> unat v \<and> unat v < hi) \<Longrightarrow>
      init_gates (map (\<lambda>n. (of_nat n, a n, s n)) [lo..<hi]) idt ! unat v = idt ! unat v"
proof -
  have inv: "unat (of_nat n :: u8) = n" if "n < hi" for n using that assms(2) by (simp add: unat_of_nat)
  let ?gs = "map (\<lambda>n. (of_nat n :: u8, a n, s n)) [lo..<hi]"
  have "inj_on (\<lambda>n. of_nat n :: u8) {lo..<hi}"
    by (rule inj_onI) (metis inv atLeastLessThan_iff)
  then have dist: "distinct (map fst ?gs)" by (simp add: distinct_map comp_def)
  show "lo \<le> unat v \<and> unat v < hi \<Longrightarrow>
      kernel_gate (a (unat v)) (s (unat v)) (init_gates ?gs idt ! unat v)"
    by (rule init_gates_kernel [OF assms(1) dist]) (auto intro!: image_eqI [of _ _ "unat v"])
  show "\<not> (lo \<le> unat v \<and> unat v < hi) \<Longrightarrow> init_gates ?gs idt ! unat v = idt ! unat v"
    by (rule init_gates_other) (auto simp: inv)
qed

end
