(* ===== verification/Exceptions.thy ===== *)
theory Exceptions
  imports Console Idt
begin

text \<open>
  The exception handlers of \<open>src/src/interrupt/exceptions/exceptions.c\<close>: each prints a report of the
  interrupted code and stops the processor or returns.
\<close>

section \<open>Handlers\<close>

datatype exc_end = Halt | Iret

definition frame_lines :: "interrupt_frame \<Rightarrow> (string \<times> va list) list" where
  "frame_lines f =
     [(''  instruction pointer: %x'', [VU64 (fr_rip f)]),
      (''  code seg: %x'', [VU64 (fr_cs f)]),
      (''  rflags: %d'', [VU64 (fr_rflags f)]),
      (''  stack pointer: %x'', [VU64 (fr_rsp f)]),
      (''  stack seg: %x'', [VU64 (fr_ss f)])]"

text \<open>The same lines as exception 13 spells them.\<close>

definition frame_lines13 :: "interrupt_frame \<Rightarrow> (string \<times> va list) list" where
  "frame_lines13 f =
     (''  instructin pointer: %x'', [VU64 (fr_rip f)]) # tl (frame_lines f)"

definition print_report :: "(string \<times> va list) list \<Rightarrow> console \<Rightarrow> fault + console" where
  "print_report lns c = run_ops (\<lambda>(fmt, args). kprintln fmt args) lns c"

definition finish :: "exc_end \<Rightarrow> fault + console \<Rightarrow> fault + exc_end \<times> console" where
  "finish e r = and_then r (\<lambda>c. Inr (e, c))"

definition exc0 :: "interrupt_frame \<Rightarrow> console \<Rightarrow> fault + exc_end \<times> console" where
  "exc0 f c = finish Halt (print_report ([(''Exception0: divide by zero'', [])] @ frame_lines f) c)"

definition exc1 :: "interrupt_frame \<Rightarrow> console \<Rightarrow> fault + exc_end \<times> console" where
  "exc1 f c = finish Iret (print_report ([(''Exception1: debug'', [])] @ frame_lines f) c)"

definition exc2 :: "interrupt_frame \<Rightarrow> console \<Rightarrow> fault + exc_end \<times> console" where
  "exc2 f c = finish Halt
    (print_report ([(''Exception2: non maskable interrupt'', [])] @ frame_lines f) c)"

definition exc3 :: "interrupt_frame \<Rightarrow> console \<Rightarrow> fault + exc_end \<times> console" where
  "exc3 f c = finish Iret (print_report ([(''Exception3: breakpoint'', [])] @ frame_lines f) c)"

definition exc4 :: "interrupt_frame \<Rightarrow> console \<Rightarrow> fault + exc_end \<times> console" where
  "exc4 f c = finish Halt (print_report ([(''Exception4: overflow'', [])] @ frame_lines f) c)"

definition exc5 :: "interrupt_frame \<Rightarrow> console \<Rightarrow> fault + exc_end \<times> console" where
  "exc5 f c = finish Halt
    (print_report ([(''Exception5: bound_range_overflow'', [])] @ frame_lines f) c)"

definition exc6 :: "interrupt_frame \<Rightarrow> console \<Rightarrow> fault + exc_end \<times> console" where
  "exc6 f c = finish Halt (print_report ([(''Exception6: invalid_opcode'', [])] @ frame_lines f) c)"

definition exc7 :: "interrupt_frame \<Rightarrow> console \<Rightarrow> fault + exc_end \<times> console" where
  "exc7 f c = finish Halt
    (print_report ([(''Exception7: device not available'', [])] @ frame_lines f) c)"

definition exc8 :: "interrupt_frame \<Rightarrow> u64 \<Rightarrow> console \<Rightarrow> fault + exc_end \<times> console" where
  "exc8 f err_code c = finish Halt
    (print_report ([(''Exception8: double fault'', [])] @ frame_lines f @ [(''  err_code: %x'', [VU64 err_code])]) c)"

definition exc9 :: "interrupt_frame \<Rightarrow> console \<Rightarrow> fault + exc_end \<times> console" where
  "exc9 f c = finish Iret (print_report ([(''Exception9: reserved'', [])] @ frame_lines f) c)"

definition exc10 :: "interrupt_frame \<Rightarrow> u64 \<Rightarrow> console \<Rightarrow> fault + exc_end \<times> console" where
  "exc10 f err_code c = finish Halt
    (print_report ([(''Exception10: invalid_tss'', [])] @ frame_lines f @ [(''  err_code: %x'', [VU64 err_code])]) c)"

definition exc11 :: "interrupt_frame \<Rightarrow> u64 \<Rightarrow> console \<Rightarrow> fault + exc_end \<times> console" where
  "exc11 f err_code c = finish Halt
    (print_report ([(''Exception11: segment_not_present'', [])] @ frame_lines f @ [(''  err_code: %x'', [VU64 err_code])]) c)"

definition exc12 :: "interrupt_frame \<Rightarrow> u64 \<Rightarrow> console \<Rightarrow> fault + exc_end \<times> console" where
  "exc12 f err_code c = finish Halt
    (print_report ([(''Exception12: stack_segment_fault'', [])] @ frame_lines f @ [(''  err_code: %x'', [VU64 err_code])]) c)"

definition exc13 :: "interrupt_frame \<Rightarrow> u64 \<Rightarrow> console \<Rightarrow> fault + exc_end \<times> console" where
  "exc13 f err_code c = finish Halt
    (print_report ([(''Exception13: general_protection_fault'', [])] @ frame_lines13 f @ [(''  err_code: %x'', [VU64 err_code])]) c)"

definition exc14 :: "interrupt_frame \<Rightarrow> u64 \<Rightarrow> u64 \<Rightarrow> console \<Rightarrow> fault + exc_end \<times> console" where
  "exc14 f err_code cr2 c = finish Halt
    (print_report ([(''Exception14: page_fault'', [])] @ frame_lines f @ [(''  err_code: %x'', [VU64 err_code])] @ [(''  at virt_addr: %x'', [VU64 cr2])]) c)"

definition exc15 :: "interrupt_frame \<Rightarrow> console \<Rightarrow> fault + exc_end \<times> console" where
  "exc15 f c = finish Iret (print_report ([(''Exception15: reserved'', [])] @ frame_lines f) c)"

definition exc16 :: "interrupt_frame \<Rightarrow> console \<Rightarrow> fault + exc_end \<times> console" where
  "exc16 f c = finish Halt
    (print_report ([(''Exception16: x87 floating-point'', [])] @ frame_lines f) c)"

definition exc17 :: "interrupt_frame \<Rightarrow> u64 \<Rightarrow> console \<Rightarrow> fault + exc_end \<times> console" where
  "exc17 f err_code c = finish Halt
    (print_report ([(''Exception15: alignment_check'', [])] @ frame_lines f @ [(''  err_code: %x'', [VU64 err_code])]) c)"

definition exc18 :: "interrupt_frame \<Rightarrow> console \<Rightarrow> fault + exc_end \<times> console" where
  "exc18 f c = finish Halt
    (print_report ([(''Exception18: machine_check'', [])] @ frame_lines f) c)"

definition exc19 :: "interrupt_frame \<Rightarrow> console \<Rightarrow> fault + exc_end \<times> console" where
  "exc19 f c = finish Halt
    (print_report ([(''Exception19: simd_floating_point'', [])] @ frame_lines f) c)"

text \<open>The handler behind the routine \<open>Exc n\<close>.\<close>

definition run_exception :: "nat \<Rightarrow> interrupt_frame \<Rightarrow> u64 \<Rightarrow> u64 \<Rightarrow> console \<Rightarrow> fault + exc_end \<times> console" where
  "run_exception n f err_code cr2 c =
    (if n = 0 then exc0 f c
    else if n = 1 then exc1 f c
    else if n = 2 then exc2 f c
    else if n = 3 then exc3 f c
    else if n = 4 then exc4 f c
    else if n = 5 then exc5 f c
    else if n = 6 then exc6 f c
    else if n = 7 then exc7 f c
    else if n = 8 then exc8 f err_code c
    else if n = 9 then exc9 f c
    else if n = 10 then exc10 f err_code c
    else if n = 11 then exc11 f err_code c
    else if n = 12 then exc12 f err_code c
    else if n = 13 then exc13 f err_code c
    else if n = 14 then exc14 f err_code cr2 c
    else if n = 15 then exc15 f c
    else if n = 16 then exc16 f c
    else if n = 17 then exc17 f err_code c
    else if n = 18 then exc18 f c
    else if n = 19 then exc19 f c
     else Inr (Iret, c))"

section \<open>Gates\<close>

text \<open>\<open>link\<close> gives the addresses of the service routines.\<close>

definition exception_ists :: "(nat \<times> u8) list" where
  "exception_ists =
     [(0, IST_NONE), (1, IST_NONE), (2, IST_NO_MASKABLE_INT), (3, IST_NONE), (4, IST_NONE),
      (5, IST_NONE), (6, IST_NONE), (7, IST_NONE), (8, IST_DOUBLE_FAULT), (9, IST_NONE),
      (10, IST_NONE), (11, IST_NONE), (12, IST_NONE), (13, IST_NONE), (14, IST_NONE),
      (15, IST_NONE), (16, IST_NONE), (17, IST_NONE), (18, IST_NONE), (19, IST_NONE)]"

definition init_exceptions :: "(isr \<Rightarrow> u64) \<Rightarrow> idt \<Rightarrow> idt" where
  "init_exceptions link idt =
     init_gates (map (\<lambda>(n, ist). (of_nat n, link (Exc n), ist)) exception_ists) idt"

section \<open>The reports\<close>

lemma report_faults:
  assumes "con_ok c" "CHR ''%'' \<notin> set title" "CHR ''%'' \<notin> set pre" "reads_arg d"
  shows "print_report ([(title, [])] @ (pre @ [CHR ''%'', d], args) # lns) c = Inl MissingVaArg"
proof -
  obtain c' where "kprintln title [] c = Inr c'" "con_ok c'"
    using kprintln_plain [OF assms(1,2)] by blast
  then show ?thesis
    using kprintln_missing [OF _ assms(3,4), of c' "[]" args] by (simp add: print_report_def)
qed

lemmas exc_defs = exc0_def exc1_def exc2_def exc3_def exc4_def exc5_def exc6_def exc7_def exc8_def exc9_def
  exc10_def exc11_def exc12_def exc13_def exc14_def exc15_def exc16_def exc17_def exc18_def exc19_def

lemma print_report_faults:
  assumes "con_ok c" "CHR ''%'' \<notin> set title"
  shows "print_report ([(title, [])] @ frame_lines f @ extra) c = Inl MissingVaArg"
    and "print_report ([(title, [])] @ frame_lines f) c = Inl MissingVaArg"
    and "print_report ([(title, [])] @ frame_lines13 f @ extra) c = Inl MissingVaArg"
proof -
  have pre: "CHR ''%'' \<notin> set ''  instruction pointer: ''" "CHR ''%'' \<notin> set ''  instructin pointer: ''"
    "reads_arg CHR ''x''" by (simp_all add: reads_arg_def)
  note r = report_faults [OF assms pre(1,3)] report_faults [OF assms pre(2,3)]
  show "print_report ([(title, [])] @ frame_lines f @ extra) c = Inl MissingVaArg"
    "print_report ([(title, [])] @ frame_lines f) c = Inl MissingVaArg"
    "print_report ([(title, [])] @ frame_lines13 f @ extra) c = Inl MissingVaArg"
    using r by (simp_all add: frame_lines_def frame_lines13_def)
qed

lemma exc_report_faults:
  assumes "con_ok c" "CHR ''%'' \<notin> set title"
  shows "finish e (print_report ([(title, [])] @ frame_lines f @ extra) c) = Inl MissingVaArg"
    and "finish e (print_report ([(title, [])] @ frame_lines f) c) = Inl MissingVaArg"
    and "finish e (print_report ([(title, [])] @ frame_lines13 f @ extra) c) = Inl MissingVaArg"
  unfolding finish_def by (simp_all only: print_report_faults [OF assms] and_then.simps)

lemma exc_faults:
  assumes c: "con_ok c"
  shows "exc0 f c = Inl MissingVaArg" "exc1 f c = Inl MissingVaArg" "exc2 f c = Inl MissingVaArg"
    "exc3 f c = Inl MissingVaArg" "exc4 f c = Inl MissingVaArg" "exc5 f c = Inl MissingVaArg"
    "exc6 f c = Inl MissingVaArg" "exc7 f c = Inl MissingVaArg" "exc8 f e c = Inl MissingVaArg"
    "exc9 f c = Inl MissingVaArg" "exc10 f e c = Inl MissingVaArg" "exc11 f e c = Inl MissingVaArg"
    "exc12 f e c = Inl MissingVaArg" "exc13 f e c = Inl MissingVaArg" "exc14 f e cr2 c = Inl MissingVaArg"
    "exc15 f c = Inl MissingVaArg" "exc16 f c = Inl MissingVaArg" "exc17 f e c = Inl MissingVaArg"
    "exc18 f c = Inl MissingVaArg" "exc19 f c = Inl MissingVaArg"
  unfolding exc_defs by (rule exc_report_faults [OF c], simp)+

section \<open>Properties\<close>

text \<open>
  No exception handler delivers its report: all twenty print their title and then read an argument
  that was not passed (the breakpoint handler, which the kernel triggers at every start, included).
\<close>

theorem exceptions_lose_report:
  assumes "con_ok c" "n < 20"
  shows "run_exception n f err_code cr2 c = Inl MissingVaArg"
proof -
  have "n \<in> set [0..<20]" using assms(2) by simp
  then show ?thesis
    using exc_faults [OF assms(1)] by (auto simp: upt_rec run_exception_def)
qed

theorem exceptions_lose_report_witness:
  "run_exception 3 \<lparr>fr_rip = 0x1000, fr_cs = 8, fr_rflags = 2, fr_rsp = 0x9000, fr_ss = 0x10\<rparr> 0 0
     (init_console (\<lambda>_. 0)) = Inl MissingVaArg"
proof -
  have "con_ok (init_console (\<lambda>_. 0))" by (simp add: con_ok_def init_console_def)
  from exceptions_lose_report [OF this, of 3] show ?thesis by simp
qed

text \<open>The gates of the exceptions.\<close>

definition exception_ist :: "nat \<Rightarrow> u8" where
  "exception_ist n = (if n = 2 then 1 else if n = 8 then 2 else 0)"

lemma length_init_exceptions [simp]: "length (init_exceptions link idt) = length idt"
  by (simp add: init_exceptions_def)

lemma init_exceptions_gates:
  fixes v :: u8
  assumes "length idt = 256"
  shows "unat v < 20 \<Longrightarrow>
      kernel_gate (link (Exc (unat v))) (exception_ist (unat v)) (init_exceptions link idt ! unat v)"
    and "20 \<le> unat v \<Longrightarrow> init_exceptions link idt ! unat v = idt ! unat v"
proof -
  have ists: "exception_ists = map (\<lambda>n. (n, exception_ist n)) [0..<20]"
    by code_simp
  then have eq: "init_exceptions link idt =
      init_gates (map (\<lambda>n. (of_nat n, link (Exc n), exception_ist n)) [0..<20]) idt"
    unfolding init_exceptions_def ists by (simp add: comp_def)
  show "unat v < 20 \<Longrightarrow>
      kernel_gate (link (Exc (unat v))) (exception_ist (unat v)) (init_exceptions link idt ! unat v)"
    "20 \<le> unat v \<Longrightarrow> init_exceptions link idt ! unat v = idt ! unat v"
    unfolding eq
    using init_gates_range [OF assms, of 20 0 v "\<lambda>n. link (Exc n)" exception_ist] by simp_all
qed

end
