(* ===== verification/Pic.thy ===== *)
theory Pic
  imports Exceptions Keyboard
begin

text \<open>
  The legacy interrupt controllers: \<open>src/src/interrupt/pic/pic.c\<close>. A small specification of the 8259A states
  what the programmed byte sequences mean.
\<close>

section \<open>Handlers\<close>

text \<open>The state a handler works on: the hardware, the console, the keyboard tables and its static \<open>seq\<close>.\<close>

record 'h irq_state =
  irq_hw :: 'h
  irq_console :: console
  irq_keyboard :: keyboard
  irq_seq :: u8

definition eoi :: "'h hw \<Rightarrow> 'h irq_state \<Rightarrow> 'h irq_state" where
  "eoi H s = s\<lparr>irq_hw := outb H 0x20 0x20 (irq_hw s)\<rparr>"

definition timer_handler :: "'h hw \<Rightarrow> 'h irq_state \<Rightarrow> fault + 'h irq_state" where
  "timer_handler H s =
     and_then (kprintf ''.'' [] (irq_console s)) (\<lambda>c. Inr (eoi H (s\<lparr>irq_console := c\<rparr>)))"

text \<open>
  The part between the read of the scan code and the end of interrupt is the same text as in
  \<open>debug_keyboard_handler\<close>.
\<close>

definition keyboard_handler :: "'h hw \<Rightarrow> 'h irq_state \<Rightarrow> fault + 'h irq_state" where
  "keyboard_handler H s =
     (let s = s\<lparr>irq_hw := disable_interrupts H (irq_hw s)\<rparr>;
          (scancode, h) = inb H 0x60 (irq_hw s);
          s = s\<lparr>irq_hw := h\<rparr>
      in and_then (debug_keyboard_handler (irq_keyboard s) scancode (irq_seq s, irq_console s))
           (\<lambda>(seq, c).
             (let s = eoi H (s\<lparr>irq_seq := seq, irq_console := c\<rparr>)
              in Inr (s\<lparr>irq_hw := enable_interrupts H (irq_hw s)\<rparr>))))"

definition interrupt_handler :: "'h hw \<Rightarrow> interrupt_frame \<Rightarrow> 'h irq_state \<Rightarrow> fault + 'h irq_state" where
  "interrupt_handler H f s =
     and_then (print_report ([(''interrupt!'', [])] @ frame_lines f) (irq_console s))
       (\<lambda>c. Inr (eoi H (s\<lparr>irq_console := c\<rparr>)))"

definition interrupt_handler_err_code ::
    "'h hw \<Rightarrow> interrupt_frame \<Rightarrow> u64 \<Rightarrow> 'h irq_state \<Rightarrow> fault + 'h irq_state" where
  "interrupt_handler_err_code H f err_code s =
     and_then (print_report ([(''interrupt!'', [])] @ frame_lines f @ [(''  err_code: %x'', [VU64 err_code])])
        (irq_console s))
       (\<lambda>c. Inr (eoi H (s\<lparr>irq_console := c\<rparr>)))"

section \<open>Initialisation\<close>

definition init_irq_handlers :: "(isr \<Rightarrow> u64) \<Rightarrow> idt \<Rightarrow> idt" where
  "init_irq_handlers link idt =
     init_gates ([(32, link Pic_timer, IST_NONE), (33, link Pic_keyboard, IST_NONE)] @
       map (\<lambda>i. (of_nat i, link Pic_interrupt, IST_NONE)) [35..<256]) idt"

definition remap_bytes :: "(u16 \<times> u8) list" where
  "remap_bytes =
     [(0x20, 0x11), (0xa0, 0x11),
      (0x21, 0x20), (0xa1, 0x28),
      (0x21, 0x04), (0xa1, 0x02),
      (0x21, 0x01), (0xa1, 0x01),
      (0x21, 0x00), (0xa1, 0x00)]"

definition remap_pic :: "'h hw \<Rightarrow> 'h \<Rightarrow> 'h" where
  "remap_pic H h =
     enable_interrupts H
       (fold (\<lambda>(port, v). outb H port v) remap_bytes (io_wait H (disable_interrupts H h)))"

definition disable_pic :: "'h hw \<Rightarrow> 'h \<Rightarrow> 'h" where
  "disable_pic H h = outb H 0x21 0xff (outb H 0xa1 0xff h)"

definition init_pic :: "'h hw \<Rightarrow> (isr \<Rightarrow> u64) \<Rightarrow> idt \<times> 'h \<Rightarrow> idt \<times> 'h" where
  "init_pic H link = (\<lambda>(idt, h). (init_exceptions link (init_irq_handlers link idt), remap_pic H h))"

section \<open>The 8259A\<close>

text \<open>
  What the data sheet says of one controller: a command byte with bit 4 (ICW1) starts an
  initialisation and clears the mask; the following data bytes are the vector base, the cascade
  wiring and the mode; data bytes outside an initialisation set the mask.
\<close>

datatype icw = Operating | Expect_base | Expect_cascade | Expect_mode

record i8259 =
  icw :: icw
  vector_base :: u8
  cascade :: u8
  irq_mode :: u8
  irq_mask :: u8

definition i8259_command :: "u8 \<Rightarrow> i8259 \<Rightarrow> i8259" where
  "i8259_command v p = (if v AND 0x10 \<noteq> 0 then p\<lparr>icw := Expect_base, irq_mask := 0\<rparr> else p)"

fun i8259_data :: "u8 \<Rightarrow> i8259 \<Rightarrow> i8259" where
  "i8259_data v p =
     (case icw p of
        Operating \<Rightarrow> p\<lparr>irq_mask := v\<rparr>
      | Expect_base \<Rightarrow> p\<lparr>icw := Expect_cascade, vector_base := v AND 0xf8\<rparr>
      | Expect_cascade \<Rightarrow> p\<lparr>icw := Expect_mode, cascade := v\<rparr>
      | Expect_mode \<Rightarrow> p\<lparr>icw := Operating, irq_mode := v\<rparr>)"

record pic_pair =
  master :: i8259
  slave :: i8259
  cpu_if :: bool

definition pic_pair_out :: "u16 \<Rightarrow> u8 \<Rightarrow> pic_pair \<Rightarrow> pic_pair" where
  "pic_pair_out port v p =
     (if port = 0x20 then p\<lparr>master := i8259_command v (master p)\<rparr>
      else if port = 0x21 then p\<lparr>master := i8259_data v (master p)\<rparr>
      else if port = 0xa0 then p\<lparr>slave := i8259_command v (slave p)\<rparr>
      else if port = 0xa1 then p\<lparr>slave := i8259_data v (slave p)\<rparr>
      else p)"

definition drives_pics :: "'h hw \<Rightarrow> ('h \<Rightarrow> pic_pair) \<Rightarrow> bool" where
  "drives_pics H pics \<longleftrightarrow>
     (\<forall>port v h. pics (port_out H port v h) = pic_pair_out port v (pics h)) \<and>
     (\<forall>b h. pics (interrupt_flag H b h) = (pics h)\<lparr>cpu_if := b\<rparr>)"

definition pic_pair_hw :: "pic_pair hw" where
  "pic_pair_hw =
     \<lparr>mmio_read = (\<lambda>a h. (0, h)), mmio_write = (\<lambda>a v h. h), port_in = (\<lambda>port h. (0, h)),
      port_out = pic_pair_out, port_in32 = (\<lambda>port h. (0, h)), port_out32 = (\<lambda>port v h. h),
      rdmsr = (\<lambda>m h. ((0, 0), h)), wrmsr = (\<lambda>m hi lo h. h),
      interrupt_flag = (\<lambda>b h. h\<lparr>cpu_if := b\<rparr>)\<rparr>"

lemma pic_pair_hw_drives: "drives_pics pic_pair_hw id"
  by (simp add: drives_pics_def pic_pair_hw_def)

lemma interrupt_handler_faults:
  assumes "con_ok (irq_console s)"
  shows "interrupt_handler H f s = Inl MissingVaArg"
    and "interrupt_handler_err_code H f err_code s = Inl MissingVaArg"
proof -
  have "CHR ''%'' \<notin> set ''interrupt!''" by simp
  note r = print_report_faults [OF assms this]
  show "interrupt_handler H f s = Inl MissingVaArg"
    "interrupt_handler_err_code H f err_code s = Inl MissingVaArg"
    by (simp_all only: interrupt_handler_def interrupt_handler_err_code_def r and_then.simps)
qed

lemma init_irq_handlers_gates:
  fixes v :: u8
  assumes "length idt = 256"
  shows "kernel_gate (link Pic_timer) 0 (init_irq_handlers link idt ! 32)"
    and "kernel_gate (link Pic_keyboard) 0 (init_irq_handlers link idt ! 33)"
    and "35 \<le> unat v \<Longrightarrow> kernel_gate (link Pic_interrupt) 0 (init_irq_handlers link idt ! unat v)"
    and "unat v < 32 \<or> v = 34 \<Longrightarrow> init_irq_handlers link idt ! unat v = idt ! unat v"
proof -
  let ?idt = "init_gates [(32, link Pic_timer, 0), (33, link Pic_keyboard, 0)] idt"
  let ?rest = "map (\<lambda>n. (of_nat n :: u8, link Pic_interrupt, 0 :: u8)) [35..<256]"
  have eq: "init_irq_handlers link idt = init_gates ?rest ?idt"
    by (simp add: init_irq_handlers_def init_gates_def)
  have len: "length ?idt = 256" using assms by simp
  note rest = init_gates_range [OF len, of 256 35 _ "\<lambda>_. link Pic_interrupt" "\<lambda>_. 0"]
  have first: "kernel_gate (link Pic_timer) 0 (?idt ! unat (32 :: u8))"
    "kernel_gate (link Pic_keyboard) 0 (?idt ! unat (33 :: u8))"
    by (rule init_gates_kernel [OF assms]; simp)+
  show "kernel_gate (link Pic_timer) 0 (init_irq_handlers link idt ! 32)"
    "kernel_gate (link Pic_keyboard) 0 (init_irq_handlers link idt ! 33)"
    using first rest(2) [of 32] rest(2) [of 33] by (simp_all add: eq)
  show "35 \<le> unat v \<Longrightarrow> kernel_gate (link Pic_interrupt) 0 (init_irq_handlers link idt ! unat v)"
    using rest(1) [of v] unat_u8_less [of v] by (simp add: eq)
  assume v: "unat v < 32 \<or> v = 34"
  then have "v \<notin> fst ` set [(32, link Pic_timer, 0), (33, link Pic_keyboard, 0)]" by auto
  from init_gates_other [OF this] show "init_irq_handlers link idt ! unat v = idt ! unat v"
    using rest(2) [of v] v by (auto simp: eq)
qed

lemma drives_fold:
  assumes "drives_pics H pics"
  shows "pics (fold (\<lambda>(port, v). outb H port v) bytes h) = fold (\<lambda>(port, v). pic_pair_out port v) bytes (pics h)"
  using assms by (induction bytes arbitrary: h) (auto simp: drives_pics_def outb_def)

lemma remap_pic_state:
  assumes "drives_pics H pics"
  shows "pics (remap_pic H h) =
      \<lparr>master = \<lparr>icw = Operating, vector_base = 32, cascade = 4, irq_mode = 1, irq_mask = 0\<rparr>,
       slave = \<lparr>icw = Operating, vector_base = 40, cascade = 2, irq_mode = 1, irq_mask = 0\<rparr>, cpu_if = True\<rparr> \<and>
    irq_mask (master (pics (disable_pic H (remap_pic H h)))) = 0xff \<and>
    irq_mask (slave (pics (disable_pic H (remap_pic H h)))) = 0xff"
proof -
  have out: "pics (outb H port v g) = pic_pair_out port v (pics g)" for port v g
    using assms by (simp add: drives_pics_def outb_def)
  have "pics (remap_pic H h) =
      (fold (\<lambda>(port, v). pic_pair_out port v) remap_bytes ((pics h)\<lparr>cpu_if := False\<rparr>))\<lparr>cpu_if := True\<rparr>"
    using assms drives_fold [OF assms, of remap_bytes]
    by (simp add: remap_pic_def io_wait_def drives_pics_def disable_interrupts_def enable_interrupts_def out)
      (simp add: pic_pair_out_def outb_def)
  also have "\<dots> =
      \<lparr>master = \<lparr>icw = Operating, vector_base = 32, cascade = 4, irq_mode = 1, irq_mask = 0\<rparr>,
       slave = \<lparr>icw = Operating, vector_base = 40, cascade = 2, irq_mode = 1, irq_mask = 0\<rparr>, cpu_if = True\<rparr>"
    by (simp add: remap_bytes_def pic_pair_out_def i8259_command_def)
  finally show ?thesis
    by (simp add: disable_pic_def out pic_pair_out_def)
qed

section \<open>Properties\<close>

text \<open>C31:
  Whatever state the controllers were left in, \<open>remap_pic\<close> puts their sixteen lines on the vectors 32 to
  47, cascaded at line 2, all unmasked, and leaves interrupts enabled; \<open>disable_pic\<close> then masks every
  line.
\<close>

theorem remap_pic_programs:
  assumes "drives_pics H pics"
  shows "pics (remap_pic H h) =
      \<lparr>master = \<lparr>icw = Operating, vector_base = 32, cascade = 4, irq_mode = 1, irq_mask = 0\<rparr>,
       slave = \<lparr>icw = Operating, vector_base = 40, cascade = 2, irq_mode = 1, irq_mask = 0\<rparr>, cpu_if = True\<rparr> \<and>
    irq_mask (master (pics (disable_pic H (remap_pic H h)))) = 0xff \<and>
    irq_mask (slave (pics (disable_pic H (remap_pic H h)))) = 0xff"
  using assms by (rule remap_pic_state)

theorem remap_pic_programs_witness:
  "vector_base (slave (remap_pic pic_pair_hw
     \<lparr>master = \<lparr>icw = Expect_mode, vector_base = 8, cascade = 0, irq_mode = 0, irq_mask = 0xff\<rparr>,
      slave = \<lparr>icw = Operating, vector_base = 0x70, cascade = 0, irq_mode = 0, irq_mask = 0xff\<rparr>, cpu_if = False\<rparr>)) = 40"
  using remap_pic_programs [OF pic_pair_hw_drives] by simp

end
