(* ===== verification/Interrupts.thy ===== *)
theory Interrupts
  imports Ioapic Pic
begin

text \<open>
  The local APIC and its interrupt handlers (\<open>src/src/interrupt/apic/apic.c\<close>, \<open>irq.c\<close>), the choice between the two
  interrupt controllers (\<open>src/src/cpuid/cpuid.c\<close>) and \<open>init_interrupts\<close> (\<open>src/src/interrupt/idt.c\<close>). The diagnostics of
  the initialisation are left out, and the load of the descriptor table register, whose operand is the one table.
\<close>

section \<open>Local APIC\<close>

abbreviation (input) MSR_APIC_BASE :: u32 where "MSR_APIC_BASE \<equiv> 0x1b"
abbreviation (input) MSR_APIC_BASE_ENABLE :: u64 where "MSR_APIC_BASE_ENABLE \<equiv> 0x800"
abbreviation (input) MSR_APIC_BASE_X2APIC_ENABLE :: u64 where "MSR_APIC_BASE_X2APIC_ENABLE \<equiv> 0x400"
abbreviation (input) APIC_EOI :: u64 where "APIC_EOI \<equiv> 0xb0"
abbreviation (input) APIC_SVR :: u64 where "APIC_SVR \<equiv> 0xf0"
abbreviation (input) APIC_ENABLE :: u32 where "APIC_ENABLE \<equiv> 0x100"
abbreviation (input) APIC_LVT_TIMER :: u64 where "APIC_LVT_TIMER \<equiv> 0x320"
abbreviation (input) APIC_LVT_LINT0 :: u64 where "APIC_LVT_LINT0 \<equiv> 0x350"
abbreviation (input) APIC_LVT_LINT1 :: u64 where "APIC_LVT_LINT1 \<equiv> 0x360"
abbreviation (input) APIC_ERR_REG :: u64 where "APIC_ERR_REG \<equiv> 0x370"
abbreviation (input) APIC_DIV_CONFIG :: u64 where "APIC_DIV_CONFIG \<equiv> 0x3e0"
abbreviation (input) APIC_LVT_MASKED :: u32 where "APIC_LVT_MASKED \<equiv> 0x10000"

definition apic_read :: "'h hw \<Rightarrow> u64 \<Rightarrow> 'h apic \<Rightarrow> u32 \<times> 'h apic" where
  "apic_read H r s = (case mmio_read H (apic_base s + r) (ap_hw s) of (v, h) \<Rightarrow> (v, s\<lparr>ap_hw := h\<rparr>))"

definition apic_write :: "'h hw \<Rightarrow> u64 \<Rightarrow> u32 \<Rightarrow> 'h apic \<Rightarrow> 'h apic" where
  "apic_write H r v s = s\<lparr>ap_hw := mmio_write H (apic_base s + r) v (ap_hw s)\<rparr>"

definition init_timer :: "'h hw \<Rightarrow> 'h apic \<Rightarrow> 'h apic" where
  "init_timer H s =
     (let (config, s) = apic_read H APIC_LVT_TIMER (apic_write H APIC_LVT_TIMER APIC_LVT_MASKED s);
          (config, s) = apic_read H APIC_DIV_CONFIG (apic_write H APIC_DIV_CONFIG 0 s)
      in s)"

definition init_lvt_lints :: "'h hw \<Rightarrow> 'h apic \<Rightarrow> 'h apic" where
  "init_lvt_lints H s =
     apic_write H APIC_LVT_LINT1 APIC_LVT_MASKED (apic_write H APIC_LVT_LINT0 APIC_LVT_MASKED s)"

definition init_lvt_err :: "'h hw \<Rightarrow> 'h apic \<Rightarrow> fault + 'h apic" where
  "init_lvt_err H s =
     (let (config, s) = apic_read H APIC_ERR_REG s;
          config = config AND 0xffffff00;
          (old, s) = apic_read H APIC_ERR_REG s
      in reserve_io_interrupt (0xfe - 32) (apic_write H APIC_ERR_REG (old OR (config OR 0xfe)) s))"

definition init_spurious_interrupts :: "'h hw \<Rightarrow> 'h apic \<Rightarrow> fault + 'h apic" where
  "init_spurious_interrupts H s =
     (let (config, s) = apic_read H APIC_SVR s;
          config = config AND 0xffffff00;
          config = config OR (APIC_ENABLE OR 0xff)
      in reserve_io_interrupt (0xff - 32) (apic_write H APIC_SVR config s))"

definition apic_eoi :: "'h hw \<Rightarrow> 'h apic \<Rightarrow> 'h apic" where
  "apic_eoi H s = apic_write H APIC_EOI 0 s"

definition show_local_apics :: "(u64 \<Rightarrow> u8) \<Rightarrow> u64 \<Rightarrow> console \<Rightarrow> (fault + console) option" where
  "show_local_apics fw madt c =
     (case kprintln ''entries_size: %d'' [VInt (entries_size fw madt)] c of
        Inl e \<Rightarrow> Some (Inl e)
      | Inr c \<Rightarrow> madt_walk fw madt
          (\<lambda>type p c. if type = MADT_ENTRY_APIC then
             kprintln ''local apic id: %d, processor_id: %d'' [VInt (ucast (fw (p + 3))), VInt (ucast (fw (p + 2)))] c
           else Inr c) c)"

section \<open>Interrupt handlers\<close>

definition apic_interrupt_handler ::
    "'h hw \<Rightarrow> nat \<Rightarrow> (nat \<Rightarrow> u64 \<Rightarrow> 'h apic \<Rightarrow> fault + int \<times> 'h apic) \<Rightarrow> u8 \<Rightarrow> 'h apic \<Rightarrow> fault + 'h apic" where
  "apic_interrupt_handler H depth drivers vector s =
     (if unat vector < INTERRUPT_BASE then Inr (apic_eoi H s)
      else and_then (exec_io_handler H depth drivers (vector - 32) s) (\<lambda>(_, s). Inr (apic_eoi H s)))"

text \<open>The service routines of \<open>irq.c\<close>, one wrapper per vector; the frame they are passed is not used.\<close>

definition apic_interrupt_handler_wrapper ::
    "u8 \<Rightarrow> 'h hw \<Rightarrow> nat \<Rightarrow> (nat \<Rightarrow> u64 \<Rightarrow> 'h apic \<Rightarrow> fault + int \<times> 'h apic) \<Rightarrow> 'h apic \<Rightarrow> fault + 'h apic" where
  "apic_interrupt_handler_wrapper vector H depth drivers s = apic_interrupt_handler H depth drivers vector s"

definition apic_spurious_interrupt_handler :: "'h apic \<Rightarrow> fault + 'h apic" where
  "apic_spurious_interrupt_handler s = Inr s"

definition apic_err_handler :: "'h apic \<Rightarrow> fault + 'h apic" where
  "apic_err_handler s = Inr s"

definition apic_init_irq_handlers :: "(isr \<Rightarrow> u64) \<Rightarrow> idt \<Rightarrow> idt" where
  "apic_init_irq_handlers link idt =
     init_gates ([(254, link Apic_err, IST_NONE), (255, link Apic_spurious, IST_NONE)] @
       map (\<lambda>v. (of_nat v, link (Apic_wrapper (of_nat v)), IST_NONE)) [32..<254]) idt"

section \<open>Initialisation\<close>

definition init_apic ::
    "'h hw \<Rightarrow> (u64 \<Rightarrow> u8) \<Rightarrow> acpi \<Rightarrow> (isr \<Rightarrow> u64) \<Rightarrow> idt \<times> 'h apic \<Rightarrow> (fault + idt \<times> 'h apic) option" where
  "init_apic H fw ac link = (\<lambda>(idt, s).
     let idt = apic_init_irq_handlers link (init_exceptions link idt);
         (v, h) = read_msr H MSR_APIC_BASE (ap_hw s);
         s = s\<lparr>apic_base := v AND 0xfffff000\<rparr>;
         (v, h) = read_msr H MSR_APIC_BASE h;
         h = write_msr H MSR_APIC_BASE (v OR MSR_APIC_BASE_ENABLE) h;
         (v, h) = read_msr H MSR_APIC_BASE h;
         s = s\<lparr>x2apic := (v AND MSR_APIC_BASE_X2APIC_ENABLE \<noteq> 0)\<rparr>;
         (v, h) = read_msr H MSR_APIC_BASE h;
         s = s\<lparr>ap_hw := h,
           ap_mm := map_frame (to_page (apic_base s)) (to_frame (apic_base s)) (Present OR Writeable OR DisableCache) (ap_mm s)\<rparr>
     in map_option (\<lambda>r.
          and_then r (\<lambda>s.
          and_then (init_spurious_interrupts H s) (\<lambda>s.
          and_then (init_lvt_err H (init_timer H s)) (\<lambda>s.
          and_then (install_io_interrupt_handler H fw 1 Debug_keyboard 0 (init_lvt_lints H s)) (\<lambda>(_, s).
          Inr (idt, s))))))
        (init_io_apics H fw (get_madt ac) s))"

text \<open>\<open>__get_cpuid\<close> of the compiler's header: \<open>None\<close> when the leaf is not supported.\<close>

definition cpuid_apic_available :: "(u32 \<Rightarrow> (u32 \<times> u32 \<times> u32 \<times> u32) option) \<Rightarrow> bool" where
  "cpuid_apic_available get_cpuid =
     (let edx = (case get_cpuid 1 of None \<Rightarrow> 0 | Some (eax, ebx, ecx, edx) \<Rightarrow> edx) in edx AND 0x200 \<noteq> 0)"

definition init_interrupts ::
    "'h hw \<Rightarrow> (u32 \<Rightarrow> (u32 \<times> u32 \<times> u32 \<times> u32) option) \<Rightarrow> (u64 \<Rightarrow> u8) \<Rightarrow> acpi \<Rightarrow> (isr \<Rightarrow> u64) \<Rightarrow>
      idt \<times> 'h apic \<Rightarrow> (fault + idt \<times> 'h apic) option" where
  "init_interrupts H get_cpuid fw ac link = (\<lambda>(idt, s).
     let s = s\<lparr>ap_hw := disable_interrupts H (ap_hw s)\<rparr>
     in map_option (\<lambda>r. and_then r (\<lambda>(idt, s). Inr (idt, s\<lparr>ap_hw := enable_interrupts H (ap_hw s)\<rparr>)))
       (if cpuid_apic_available get_cpuid then
          init_apic H fw ac link (idt, s\<lparr>ap_hw := disable_pic H (ap_hw s)\<rparr>)
        else case init_pic H link (idt, ap_hw s) of (idt, h) \<Rightarrow> Some (Inr (idt, s\<lparr>ap_hw := h\<rparr>))))"

section \<open>The descriptor table\<close>

lemma length_apic_init_irq_handlers [simp]: "length (apic_init_irq_handlers link idt) = length idt"
  by (simp add: apic_init_irq_handlers_def)

lemma length_init_irq_handlers [simp]: "length (init_irq_handlers link idt) = length idt"
  by (simp add: init_irq_handlers_def)

lemma apic_init_irq_handlers_gates:
  fixes v :: u8
  assumes "length idt = 256"
  shows "kernel_gate (link Apic_err) 0 (apic_init_irq_handlers link idt ! 254)"
    and "kernel_gate (link Apic_spurious) 0 (apic_init_irq_handlers link idt ! 255)"
    and "32 \<le> unat v \<and> unat v < 254 \<Longrightarrow> kernel_gate (link (Apic_wrapper v)) 0 (apic_init_irq_handlers link idt ! unat v)"
    and "unat v < 32 \<Longrightarrow> apic_init_irq_handlers link idt ! unat v = idt ! unat v"
proof -
  let ?idt = "init_gates [(254, link Apic_err, 0), (255, link Apic_spurious, 0)] idt"
  let ?rest = "map (\<lambda>n. (of_nat n :: u8, link (Apic_wrapper (of_nat n)), 0 :: u8)) [32..<254]"
  have eq: "apic_init_irq_handlers link idt = init_gates ?rest ?idt"
    by (simp add: apic_init_irq_handlers_def init_gates_def)
  have len: "length ?idt = 256" using assms by simp
  note rest = init_gates_range [OF len, of 254 32 _ "\<lambda>n. link (Apic_wrapper (of_nat n))" "\<lambda>_. 0"]
  have first: "kernel_gate (link Apic_err) 0 (?idt ! unat (254 :: u8))"
    "kernel_gate (link Apic_spurious) 0 (?idt ! unat (255 :: u8))"
    by (rule init_gates_kernel [OF assms]; simp)+
  show "kernel_gate (link Apic_err) 0 (apic_init_irq_handlers link idt ! 254)"
    "kernel_gate (link Apic_spurious) 0 (apic_init_irq_handlers link idt ! 255)"
    using first rest(2) [of 254] rest(2) [of 255] by (simp_all add: eq)
  show "32 \<le> unat v \<and> unat v < 254 \<Longrightarrow> kernel_gate (link (Apic_wrapper v)) 0 (apic_init_irq_handlers link idt ! unat v)"
    using rest(1) [of v] by (simp add: eq)
  assume v: "unat v < 32"
  then have "v \<notin> fst ` set [(254, link Apic_err, 0), (255, link Apic_spurious, 0)]" by auto
  from init_gates_other [OF this] show "apic_init_irq_handlers link idt ! unat v = idt ! unat v"
    using rest(2) [of v] v by (simp add: eq)
qed

text \<open>What the gate of a vector has to be: \<open>None\<close> where the kernel installs nothing.\<close>

definition vector_isr :: "bool \<Rightarrow> u8 \<Rightarrow> (isr \<times> u8) option" where
  "vector_isr use_apic v =
     (if unat v < 20 then Some (Exc (unat v), exception_ist (unat v))
      else if unat v < 32 then None
      else if use_apic then
        Some (if v = 254 then Apic_err else if v = 255 then Apic_spurious else Apic_wrapper v, 0)
      else if v = 32 then Some (Pic_timer, 0)
      else if v = 33 then Some (Pic_keyboard, 0)
      else if v = 34 then None
      else Some (Pic_interrupt, 0))"

definition idt_typed :: "(isr \<Rightarrow> u64) \<Rightarrow> bool \<Rightarrow> idt \<Rightarrow> idt \<Rightarrow> bool" where
  "idt_typed link use_apic old idt \<longleftrightarrow> length idt = 256 \<and>
     (\<forall>v :: u8. case vector_isr use_apic v of
        Some (r, ist) \<Rightarrow> kernel_gate (link r) ist (idt ! unat v) | None \<Rightarrow> idt ! unat v = old ! unat v)"

lemma apic_idt_typed:
  assumes "length idt = 256"
  shows "idt_typed link True idt (apic_init_irq_handlers link (init_exceptions link idt))"
proof -
  have len: "length (init_exceptions link idt) = 256" using assms by simp
  note a = apic_init_irq_handlers_gates [OF len, where link = link]
  note e = init_exceptions_gates [OF assms, where link = link]
  have "case vector_isr True v of
        Some (r, ist) \<Rightarrow> kernel_gate (link r) ist (apic_init_irq_handlers link (init_exceptions link idt) ! unat v)
      | None \<Rightarrow> apic_init_irq_handlers link (init_exceptions link idt) ! unat v = idt ! unat v" for v
  proof -
    have "v = 254 \<or> v = 255 \<or> unat v < 254" using unat_u8_less [of v] by (auto simp: word_unat_eq_iff)
    then show ?thesis
      using a(1,2) a(3,4) [where v = v] e(1,2) [where v = v] by (auto simp: vector_isr_def)
  qed
  then show ?thesis using assms by (simp add: idt_typed_def)
qed

lemma pic_idt_typed:
  assumes "length idt = 256"
  shows "idt_typed link False idt (init_exceptions link (init_irq_handlers link idt))"
proof -
  have len: "length (init_irq_handlers link idt) = 256" using assms by simp
  note a = init_irq_handlers_gates [OF assms, where link = link]
  note e = init_exceptions_gates [OF len, where link = link]
  have "case vector_isr False v of
        Some (r, ist) \<Rightarrow> kernel_gate (link r) ist (init_exceptions link (init_irq_handlers link idt) ! unat v)
      | None \<Rightarrow> init_exceptions link (init_irq_handlers link idt) ! unat v = idt ! unat v" for v
  proof -
    have "v = 32 \<or> v = 33 \<or> v = 34 \<or> unat v < 32 \<or> 35 \<le> unat v" by (auto simp: word_unat_eq_iff)
    then show ?thesis
      using a(1,2) a(3,4) [where v = v] e(1,2) [where v = v] by (auto simp: vector_isr_def)
  qed
  then show ?thesis using assms by (simp add: idt_typed_def)
qed

lemma init_apic_idt:
  "init_apic H fw ac link (idt, s) = Some (Inr (idt', s')) \<Longrightarrow>
   idt' = apic_init_irq_handlers link (init_exceptions link idt)"
  by (auto simp: init_apic_def Let_def and_then_Inr_iff split: prod.splits)

lemma init_interrupts_gates:
  assumes "length idt = 256"
    and "init_interrupts H get_cpuid fw ac link (idt, s) = Some (Inr (idt', s'))"
  shows "idt_typed link (cpuid_apic_available get_cpuid) idt idt'"
proof (cases "cpuid_apic_available get_cpuid")
  case True
  obtain t t' where "init_apic H fw ac link (idt, t) = Some (Inr (idt', t'))"
    using assms(2) True by (auto simp: init_interrupts_def Let_def and_then_Inr_iff)
  then have "idt' = apic_init_irq_handlers link (init_exceptions link idt)" by (rule init_apic_idt)
  then show ?thesis using True apic_idt_typed [OF assms(1)] by simp
next
  case False
  then have "idt' = init_exceptions link (init_irq_handlers link idt)"
    using assms(2) by (auto simp: init_interrupts_def init_pic_def)
  then show ?thesis using False pic_idt_typed [OF assms(1)] by simp
qed

text \<open>C8:
  Whichever controller is chosen, when \<open>init_interrupts\<close> is done the table has 256 descriptors, and each vector
  that can occur leads through a present kernel interrupt gate to the routine for it, the double
  fault and the non maskable interrupt on stacks of their own: 20 exceptions, then one wrapper for each of
  the vectors 32 to 253, the error and the spurious handler with the APIC; timer, keyboard and the common
  handler with the PIC. The vectors 20 to 31, and 34 with the PIC, keep what was there.
\<close>

theorem init_interrupts_idt_typed:
  assumes "length idt = 256"
    and "init_interrupts H get_cpuid fw ac link (idt, s) = Some (Inr (idt', s'))"
  shows "idt_typed link (cpuid_apic_available get_cpuid) idt idt'"
  by (rule init_interrupts_gates [OF assms])

theorem init_interrupts_idt_typed_witness:
  "\<exists>idt s. init_interrupts (chipset_hw (\<lambda>_. 0) entry_fixed) (\<lambda>_. None) (\<lambda>_. 0)
      \<lparr>xsdp_detected = False, s_xsdp = 0, s_madt = 0, s_fadt = 0\<rparr> (\<lambda>_. 0x100000)
      (zero_idt, sample_apic) = Some (Inr (idt, s)) \<and>
    kernel_gate 0x100000 2 (idt ! 8) \<and> idt ! 20 = zero_gate"
proof -
  have none: "\<not> cpuid_apic_available (\<lambda>_. None)" by (simp add: cpuid_apic_available_def)
  obtain idt s where r: "init_interrupts (chipset_hw (\<lambda>_. 0) entry_fixed) (\<lambda>_. None) (\<lambda>_. 0)
      \<lparr>xsdp_detected = False, s_xsdp = 0, s_madt = 0, s_fadt = 0\<rparr> (\<lambda>_. 0x100000)
      (zero_idt, sample_apic) = Some (Inr (idt, s))"
    using none by (auto simp: init_interrupts_def init_pic_def)
  from init_interrupts_idt_typed [OF _ this] have t: "idt_typed (\<lambda>_. 0x100000) False zero_idt idt"
    using none by simp
  have "vector_isr False 8 = Some (Exc 8, 2)" "vector_isr False 20 = None"
    by (simp_all add: vector_isr_def exception_ist_def)
  moreover have "zero_idt ! 20 = zero_gate" by (simp add: zero_idt_def)
  ultimately have "kernel_gate 0x100000 2 (idt ! 8)" "idt ! 20 = zero_gate"
    using t [unfolded idt_typed_def, THEN conjunct2, THEN spec, of 8]
      t [unfolded idt_typed_def, THEN conjunct2, THEN spec, of 20] by simp_all
  then show ?thesis using r by blast
qed

section \<open>The registers of the local APIC\<close>

text \<open>A plain register holds what was last written to it.\<close>

locale local_apic_registers = apic_registers +
  assumes val_write: "\<not> win a \<Longrightarrow> \<not> win (a - 0x10) \<Longrightarrow> val (mmio_write H a v h) = (val h)(a := v)"

interpretation chip: local_apic_registers "chipset_hw wr fixed" is_window window_regs fixed plain_regs
  by unfold_locales (simp add: chipset_hw_def chipset_write_def)

text \<open>The registers of the page at \<open>apic_base\<close> are no windows.\<close>

definition plain_page :: "(u64 \<Rightarrow> bool) \<Rightarrow> u64 \<Rightarrow> bool" where
  "plain_page win b \<longleftrightarrow> (\<forall>r < 0x1000. \<not> win (b + r))"

lemma plain_page_at:
  "plain_page win b \<Longrightarrow> r < 0x1000 \<Longrightarrow> 0x10 \<le> r \<Longrightarrow> \<not> win (b + r) \<and> \<not> win (b + r - 0x10)"
proof -
  assume p: "plain_page win b" and r: "r < 0x1000" "(0x10 :: u64) \<le> r"
  have "r - 0x10 < 0x1000" using r by (simp add: word_less_nat_alt word_le_nat_alt unat_sub)
  then have "\<not> win (b + (r - 0x10))" using p by (simp add: plain_page_def)
  then show ?thesis using p r by (simp add: plain_page_def add_diff_eq)
qed

context local_apic_registers
begin

lemma apic_read_plain:
  assumes "plain_page win (apic_base s)" "0x10 \<le> r" "r < 0x1000"
  shows "\<exists>h'. apic_read H r s = (val (ap_hw s) (apic_base s + r), s\<lparr>ap_hw := h'\<rparr>) \<and>
    val h' = val (ap_hw s) \<and> reg h' = reg (ap_hw s)"
  using plain_page_at [OF assms(1,3,2)] val_read [of "apic_base s + r" "ap_hw s"]
    val_read_keeps [of "apic_base s + r" "ap_hw s"] reg_plain_read [of "apic_base s + r" "ap_hw s"]
  by (auto simp: apic_read_def prod.case_eq_if)

lemma apic_write_plain:
  assumes "plain_page win (apic_base s)" "0x10 \<le> r" "r < 0x1000"
  shows "\<exists>h'. apic_write H r v s = s\<lparr>ap_hw := h'\<rparr> \<and>
    val h' = (val (ap_hw s))(apic_base s + r := v) \<and> reg h' = reg (ap_hw s)"
  using plain_page_at [OF assms(1,3,2)] val_write reg_plain_write by (auto simp: apic_write_def)

lemma init_spurious_plain:
  assumes "plain_page win (apic_base s)" "length (allocated s) = 224"
  shows "\<exists>h'. init_spurious_interrupts H s = Inr (s\<lparr>ap_hw := h', allocated := (allocated s)[223 := True]\<rparr>) \<and>
    val h' = (val (ap_hw s))(apic_base s + APIC_SVR := (val (ap_hw s) (apic_base s + APIC_SVR) AND 0xffffff00) OR 0x1ff)"
proof -
  let ?svr = "(val (ap_hw s) (apic_base s + APIC_SVR) AND 0xffffff00) OR 0x1ff"
  obtain h1 where 1: "apic_read H APIC_SVR s = (val (ap_hw s) (apic_base s + APIC_SVR), s\<lparr>ap_hw := h1\<rparr>)"
    "val h1 = val (ap_hw s)"
    using apic_read_plain [OF assms(1), of APIC_SVR] by auto
  obtain h2 where "apic_write H APIC_SVR ?svr (s\<lparr>ap_hw := h1\<rparr>) = s\<lparr>ap_hw := h2\<rparr>"
    "val h2 = (val (ap_hw s))(apic_base s + APIC_SVR := ?svr)"
    using apic_write_plain [of "s\<lparr>ap_hw := h1\<rparr>" APIC_SVR ?svr] assms(1) 1 by auto
  then show ?thesis
    using 1 assms(2) by (intro exI [of _ h2]) (simp add: init_spurious_interrupts_def reserve_io_interrupt_def)
qed

lemma init_timer_plain:
  assumes "plain_page win (apic_base s)"
  shows "\<exists>h'. init_timer H s = s\<lparr>ap_hw := h'\<rparr> \<and>
    val h' = (val (ap_hw s))(apic_base s + APIC_LVT_TIMER := APIC_LVT_MASKED, apic_base s + APIC_DIV_CONFIG := 0)"
proof -
  obtain h1 where 1: "apic_write H APIC_LVT_TIMER APIC_LVT_MASKED s = s\<lparr>ap_hw := h1\<rparr>"
    "val h1 = (val (ap_hw s))(apic_base s + APIC_LVT_TIMER := APIC_LVT_MASKED)"
    using apic_write_plain [OF assms, of APIC_LVT_TIMER] by auto
  obtain h2 where 2: "snd (apic_read H APIC_LVT_TIMER (s\<lparr>ap_hw := h1\<rparr>)) = s\<lparr>ap_hw := h2\<rparr>" "val h2 = val h1"
    using apic_read_plain [of "s\<lparr>ap_hw := h1\<rparr>" APIC_LVT_TIMER] assms by auto
  obtain h3 where 3: "apic_write H APIC_DIV_CONFIG 0 (s\<lparr>ap_hw := h2\<rparr>) = s\<lparr>ap_hw := h3\<rparr>"
    "val h3 = (val h2)(apic_base s + APIC_DIV_CONFIG := 0)"
    using apic_write_plain [of "s\<lparr>ap_hw := h2\<rparr>" APIC_DIV_CONFIG 0] assms by auto
  obtain h4 where 4: "snd (apic_read H APIC_DIV_CONFIG (s\<lparr>ap_hw := h3\<rparr>)) = s\<lparr>ap_hw := h4\<rparr>" "val h4 = val h3"
    using apic_read_plain [of "s\<lparr>ap_hw := h3\<rparr>" APIC_DIV_CONFIG] assms by auto
  show ?thesis using 1 2 3 4 by (intro exI [of _ h4]) (simp add: init_timer_def prod.case_eq_if)
qed

lemma init_lvt_err_plain:
  assumes "plain_page win (apic_base s)" "length (allocated s) = 224"
  shows "\<exists>h'. init_lvt_err H s = Inr (s\<lparr>ap_hw := h', allocated := (allocated s)[222 := True]\<rparr>) \<and>
    val h' = (val (ap_hw s))(apic_base s + APIC_ERR_REG := val (ap_hw s) (apic_base s + APIC_ERR_REG) OR 0xfe)"
proof -
  let ?e = "val (ap_hw s) (apic_base s + APIC_ERR_REG)"
  obtain h1 where 1: "apic_read H APIC_ERR_REG s = (?e, s\<lparr>ap_hw := h1\<rparr>)" "val h1 = val (ap_hw s)"
    using apic_read_plain [OF assms(1), of APIC_ERR_REG] by auto
  obtain h2 where 2: "apic_read H APIC_ERR_REG (s\<lparr>ap_hw := h1\<rparr>) = (?e, s\<lparr>ap_hw := h2\<rparr>)" "val h2 = val h1"
    using apic_read_plain [of "s\<lparr>ap_hw := h1\<rparr>" APIC_ERR_REG] assms(1) 1 by auto
  obtain h3 where 3: "apic_write H APIC_ERR_REG (?e OR 0xfe) (s\<lparr>ap_hw := h2\<rparr>) = s\<lparr>ap_hw := h3\<rparr>"
    "val h3 = (val h2)(apic_base s + APIC_ERR_REG := ?e OR 0xfe)"
    using apic_write_plain [of "s\<lparr>ap_hw := h2\<rparr>" APIC_ERR_REG "?e OR 0xfe"] assms(1) by auto
  have "?e OR ((?e AND 0xffffff00) OR 0xfe) = ?e OR 0xfe"
    by (rule bit_word_eqI) (auto simp: bit_simps simp del: bit_numeral_iff)
  then show ?thesis
    using 1 2 3 assms(2) by (intro exI [of _ h3]) (simp add: init_lvt_err_def reserve_io_interrupt_def)
qed

lemma init_lvt_lints_plain:
  assumes "plain_page win (apic_base s)"
  shows "\<exists>h'. init_lvt_lints H s = s\<lparr>ap_hw := h'\<rparr> \<and>
    val h' = (val (ap_hw s))(apic_base s + APIC_LVT_LINT0 := APIC_LVT_MASKED, apic_base s + APIC_LVT_LINT1 := APIC_LVT_MASKED)"
proof -
  obtain h1 where 1: "apic_write H APIC_LVT_LINT0 APIC_LVT_MASKED s = s\<lparr>ap_hw := h1\<rparr>"
    "val h1 = (val (ap_hw s))(apic_base s + APIC_LVT_LINT0 := APIC_LVT_MASKED)"
    using apic_write_plain [OF assms, of APIC_LVT_LINT0] by auto
  then show ?thesis
    using apic_write_plain [of "s\<lparr>ap_hw := h1\<rparr>" APIC_LVT_LINT1] assms by (auto simp: init_lvt_lints_def)
qed

end

text \<open>The four steps of \<open>init_apic\<close> that program the local APIC.\<close>

definition init_local_apic :: "'h hw \<Rightarrow> 'h apic \<Rightarrow> fault + 'h apic" where
  "init_local_apic H s =
     and_then (init_spurious_interrupts H s) (\<lambda>s.
       and_then (init_lvt_err H (init_timer H s)) (\<lambda>s. Inr (init_lvt_lints H s)))"

lemma init_apic_local:
  "init_apic H fw ac link (idt, s) = Some (Inr (idt', s')) \<Longrightarrow>
   \<exists>t s1 r. init_local_apic H t = Inr s1 \<and> install_io_interrupt_handler H fw 1 Debug_keyboard 0 s1 = Inr (r, s')"
  by (fastforce simp: init_apic_def init_local_apic_def Let_def and_then_Inr_iff split: prod.splits)

definition apic_reg :: "('h \<Rightarrow> u64 \<Rightarrow> u32) \<Rightarrow> 'h apic \<Rightarrow> u64 \<Rightarrow> u32" where
  "apic_reg val s r = val (ap_hw s) (apic_base s + r)"

text \<open>C32:
  The local APIC after its initialisation: enabled with the spurious vector 255, the timer and the two local
  interrupt pins masked, the divider 0, and the error interrupt on vector 254, but masked whenever it was masked
  before, since its register is only or-ed (after a reset it is masked). The interrupts 222 and 223 of
  these vectors are reserved.
\<close>

theorem init_local_apic_registers:
  assumes "local_apic_registers H win reg fixed val"
    and "plain_page win (apic_base s)" and "length (allocated s) = 224"
  shows "\<exists>s'. init_local_apic H s = Inr s' \<and>
    apic_reg val s' APIC_SVR = (apic_reg val s APIC_SVR AND 0xffffff00) OR 0x1ff \<and>
    apic_reg val s' APIC_LVT_TIMER = APIC_LVT_MASKED \<and> apic_reg val s' APIC_LVT_LINT0 = APIC_LVT_MASKED \<and>
    apic_reg val s' APIC_LVT_LINT1 = APIC_LVT_MASKED \<and> apic_reg val s' APIC_DIV_CONFIG = 0 \<and>
    apic_reg val s' APIC_ERR_REG = apic_reg val s APIC_ERR_REG OR 0xfe \<and>
    allocated s' ! 222 \<and> allocated s' ! 223"
proof -
  obtain h1 where 1: "init_spurious_interrupts H s = Inr (s\<lparr>ap_hw := h1, allocated := (allocated s)[223 := True]\<rparr>)"
    "val h1 = (val (ap_hw s))(apic_base s + APIC_SVR := (apic_reg val s APIC_SVR AND 0xffffff00) OR 0x1ff)"
    using local_apic_registers.init_spurious_plain [OF assms] unfolding apic_reg_def by blast
  let ?s1 = "s\<lparr>ap_hw := h1, allocated := (allocated s)[223 := True]\<rparr>"
  obtain h2 where 2: "init_timer H ?s1 = ?s1\<lparr>ap_hw := h2\<rparr>"
    "val h2 = (val h1)(apic_base s + APIC_LVT_TIMER := APIC_LVT_MASKED, apic_base s + APIC_DIV_CONFIG := 0)"
    using local_apic_registers.init_timer_plain [OF assms(1), of ?s1] assms(2) by auto
  have e: "val h2 (apic_base s + APIC_ERR_REG) = apic_reg val s APIC_ERR_REG"
    by (simp add: 1(2) 2(2) apic_reg_def)
  obtain h3 where 3: "init_lvt_err H (?s1\<lparr>ap_hw := h2\<rparr>) =
      Inr (?s1\<lparr>ap_hw := h3, allocated := (allocated s)[223 := True, 222 := True]\<rparr>)"
    "val h3 = (val h2)(apic_base s + APIC_ERR_REG := apic_reg val s APIC_ERR_REG OR 0xfe)"
    using local_apic_registers.init_lvt_err_plain [OF assms(1), of "?s1\<lparr>ap_hw := h2\<rparr>"] assms(2,3) e by auto
  let ?s3 = "?s1\<lparr>ap_hw := h3, allocated := (allocated s)[223 := True, 222 := True]\<rparr>"
  obtain h4 where 4: "init_lvt_lints H ?s3 = ?s3\<lparr>ap_hw := h4\<rparr>"
    "val h4 = (val h3)(apic_base s + APIC_LVT_LINT0 := APIC_LVT_MASKED, apic_base s + APIC_LVT_LINT1 := APIC_LVT_MASKED)"
    using local_apic_registers.init_lvt_lints_plain [OF assms(1), of ?s3] assms(2) by auto
  have "init_local_apic H s = Inr (?s3\<lparr>ap_hw := h4\<rparr>)"
    using 1(1) 2(1) 3(1) 4(1) by (simp add: init_local_apic_def)
  then show ?thesis
    using assms(3) by (simp add: apic_reg_def 4(2) 3(2) 2(2) 1(2))
qed

theorem init_local_apic_registers_witness:
  "\<exists>s'. init_local_apic (chipset_hw (\<lambda>_. 0) entry_fixed) sample_apic = Inr s' \<and>
    apic_reg plain_regs s' APIC_SVR = 0x1ff \<and> apic_reg plain_regs s' APIC_LVT_TIMER = APIC_LVT_MASKED"
proof -
  have "\<not> is_window (0xfee00000 + r)" if "r < 0x1000" for r
  proof
    assume "is_window (0xfee00000 + r)"
    then have "((0xfee00000 + r) AND 0xfffffffffff00fff) AND 0x200000 = 0xfec00000 AND 0x200000"
      by (simp only: is_window_def)
    moreover have "0xfee00000 + r = 0xfee00000 OR r"
    proof (rule disjunctive_add_eq_or, rule bit_word_eqI)
      fix n assume "n < LENGTH(64)"
      have "n < 12" if "bit r n"
        using bit_bounded [of r 12 n] that \<open>r < 0x1000\<close> by (cases "12 \<le> n") (simp_all add: word_less_nat_alt)
      moreover have "(0xfee00000 :: u64) = push_bit 12 0xfee00" by simp
      then have "\<not> bit (0xfee00000 :: u64) n" if "n < 12"
        using that by (simp only: bit_push_bit_iff) simp
      ultimately show "bit (0xfee00000 AND r) n = bit 0 n" by (auto simp: bit_and_iff simp del: bit_numeral_iff)
    qed
    ultimately show False by (simp add: bit.conj_disj_distrib2 and.assoc)
  qed
  then have "plain_page is_window (apic_base sample_apic)" by (simp add: plain_page_def)
  from init_local_apic_registers [OF chip.local_apic_registers_axioms this] show ?thesis
    by (force simp: apic_reg_def sample_regs_def)
qed

section \<open>Delivery\<close>

lemma apic_wrapper_runs:
  assumes "unat g < 222" "io_handlers s ! unat g = \<lparr>h_func = Some (Driver n), h_data = data, h_vector = g\<rparr>"
    and "length (io_handlers s) = 224" "drivers n data s = Inr (r, s')"
  shows "apic_interrupt_handler_wrapper (g + 32) H (Suc depth) drivers s = Inr (apic_eoi H s')"
proof -
  have "unat (g + 32) = unat g + 32" using assms(1) by (simp add: unat_word_ariths)
  then show ?thesis
    using assms by (simp add: apic_interrupt_handler_wrapper_def apic_interrupt_handler_def)
qed

lemma install_entry:
  assumes "apic_registers H win reg fixed val"
    and "install_io_interrupt_handler H fw g f data s = Inr (0, s')" "enabled_gsi fw (overrides s) g = g"
    and "get_io_apic g s = Some io" "win (ucast (io_addr io))" "input_index io g < 120"
    and "entry_of fixed (input_index io g) AND 0x10000 = 0"
  shows "gsi_entry (reg (ap_hw s')) io g = gsi_entry (reg (ap_hw s)) io g AND NOT 0x10000"
proof -
  let ?s = "s\<lparr>io_handlers := (io_handlers s)[unat g := \<lparr>h_func = Some f, h_data = data, h_vector = g\<rparr>]\<rparr>"
  have "change_entry H (\<lambda>entry. entry AND NOT 0x10000) g ?s = Inr s'"
    using assms(2,3) by (auto simp: install_io_interrupt_handler_def and_then_Inr_iff enable_change split: if_splits)
  moreover have "get_io_apic g ?s = Some io" using assms(4) by (simp add: get_io_apic_def)
  ultimately show ?thesis
    using apic_registers.change_entry_entries(1) [OF assms(1) _ assms(5,6)] merge_keep(1) [OF assms(7)] by fastforce
qed

lemma input_index_gsi:
  assumes "unat (io_gsi_base io) + idx < 224"
  shows "input_index io (of_nat (unat (io_gsi_base io) + idx)) = of_nat idx"
proof -
  have "unat (of_nat (unat (io_gsi_base io) + idx) :: u8) = unat (io_gsi_base io) + idx"
    using assms by (simp add: unat_of_nat del: of_nat_add)
  then have "(ucast (of_nat (unat (io_gsi_base io) + idx) :: u8) :: u32) = of_nat (unat (io_gsi_base io) + idx)"
    using assms by (simp add: word_unat_eq_iff unat_ucast_up unat_of_nat del: of_nat_add)
  then have "(ucast (of_nat (unat (io_gsi_base io) + idx) :: u8) - io_gsi_base io :: u32) = of_nat idx"
    by simp
  then show ?thesis
    using assms by (simp add: input_index_def word_unat_eq_iff unat_ucast_mod unat_of_nat del: of_nat_add)
qed

lemma bit_clear_mask: "bit ((x :: u64) AND NOT 0x10000) n \<longleftrightarrow> bit x n \<and> n \<noteq> 16"
  unfolding bit_and_iff bit_not_iff bit_masked using bit_imp_le_length [of x n] by auto

lemma unmasked_selectors:
  "entry_vector (e AND NOT 0x10000) = entry_vector e" "entry_delivery (e AND NOT 0x10000) = entry_delivery e"
  "entry_destination (e AND NOT 0x10000) = entry_destination e" "entry_logical (e AND NOT 0x10000) = entry_logical e"
  "\<not> entry_masked (e AND NOT 0x10000)"
proof -
  have m: "(0xff :: u64) = mask 8" "(7 :: u64) = mask 3" by (simp_all add: mask_eq_exp_minus_1)
  show "entry_vector (e AND NOT 0x10000) = entry_vector e"
    unfolding entry_vector_def m by (rule bit_word_eqI) (unfold bit_and_iff [of _ "mask 8"] bit_clear_mask bit_mask_iff, auto)
  show "entry_delivery (e AND NOT 0x10000) = entry_delivery e"
    unfolding entry_delivery_def m
    by (rule bit_word_eqI) (unfold bit_and_iff [of _ "mask 3"] bit_drop_bit_eq comp_def bit_clear_mask bit_mask_iff, auto)
  show "entry_destination (e AND NOT 0x10000) = entry_destination e"
    unfolding entry_destination_def by (rule bit_word_eqI) (unfold bit_drop_bit_eq comp_def bit_clear_mask, simp)
  show "entry_logical (e AND NOT 0x10000) = entry_logical e" "\<not> entry_masked (e AND NOT 0x10000)"
    unfolding entry_logical_def entry_masked_def bit_clear_mask by simp_all
qed

text \<open>C3:
  From the pin to the driver: after the IO APICs are initialised and a driver's handler is installed for
  an interrupt below 222 other than 0 (which is left to the legacy controllers) that has no override, the entry of that
  interrupt is unmasked and sends it, with fixed delivery, as the vector \<open>v\<close>, to the processor that ran the
  initialisation; the descriptor of \<open>v\<close> in the table that \<open>init_apic\<close> fills leads through a present kernel interrupt gate
  to the wrapper for \<open>v\<close>; and the wrapper runs the driver's handler with its data and then signals the end of the interrupt.
\<close>

theorem interrupt_reaches_driver:
  assumes "apic_registers H win reg fixed val"
    and "\<not> win (apic_base s + 0x20)" "\<not> win (apic_base s + 0x20 - 0x10)"
    and "length (overrides s) = 16" "length (allocated s) = 224" "length (io_handlers s) = 224"
    and "ios = take (unat (ioapics_len s)) (ioapics s)" "distinct (map io_addr ios)"
    and "\<And>io. io \<in> set ios \<Longrightarrow> win (ucast (io_addr io)) \<and> unat (io_max_entries io) \<le> 120 \<and>
      unat (io_gsi_base io) + unat (io_max_entries io) \<le> 224"
    and "\<And>i. i < 120 \<Longrightarrow> entry_of fixed i AND entry_fields = 0"
    and "init_entries H fw s = Inr s1"
    and "io \<in> set ios" "idx < unat (io_max_entries io)" "g = of_nat (unat (io_gsi_base io) + idx)" "g \<noteq> 0" "unat g < 222"
    and "get_io_apic g s = Some io" "enabled_gsi fw (overrides s) g = g"
    and "install_io_interrupt_handler H fw g (Driver n) data s1 = Inr (0, s2)"
    and "io_handlers s3 = io_handlers s2" "drivers n data s3 = Inr (r, s4)"
    and "v = ucast (entry_vector (entry_at (reg (ap_hw s2)) io idx))" "length idt = 256"
  shows "\<not> entry_masked (entry_at (reg (ap_hw s2)) io idx) \<and>
    entry_destination (entry_at (reg (ap_hw s2)) io idx) = ucast (cpu_id val s) \<and>
    entry_delivery (entry_at (reg (ap_hw s2)) io idx) = 0 \<and> \<not> entry_logical (entry_at (reg (ap_hw s2)) io idx) \<and>
    kernel_gate (link (Apic_wrapper v)) 0 (apic_init_irq_handlers link (init_exceptions link idt) ! unat v) \<and>
    apic_interrupt_handler_wrapper v H (Suc depth) drivers s3 = Inr (apic_eoi H s4)"
proof -
  obtain h' a' where s1: "s1 = s\<lparr>ap_hw := h', allocated := a'\<rparr>"
    and init: "initial_entry fw (overrides s) (cpu_id val s) (unat (io_gsi_base io) + idx) (entry_at (reg h') io idx)"
    using init_entries_result [OF assms(1-5,7-10), of fw] assms(11,12,13) by auto
  have small: "unat (io_gsi_base io) + idx < 224" "idx < 120" using assms(9,12,13) by fastforce+
  have g: "unat g = unat (io_gsi_base io) + idx"
    using small assms(14) by (simp add: unat_of_nat del: of_nat_add)
  then have nz: "unat (io_gsi_base io) + idx \<noteq> 0" using assms(15) by (simp add: unat_eq_zero [symmetric])
  have idx: "input_index io g = of_nat idx" unfolding assms(14) by (rule input_index_gsi [OF small(1)])
  have lt: "(of_nat idx :: u8) < 120" using small(2) by (simp add: word_less_nat_alt unat_of_nat)
  have "entry_of fixed (of_nat idx) AND 0x10000 = (entry_of fixed (of_nat idx) AND entry_fields) AND 0x10000"
    by (simp add: and.assoc entry_fields_def)
  then have fx: "entry_of fixed (of_nat idx) AND 0x10000 = 0" by (simp add: assms(10) [OF lt])
  let ?e = "entry_at (reg h') io idx"
  have e2: "entry_at (reg (ap_hw s2)) io idx = ?e AND NOT 0x10000"
    using install_entry [OF assms(1,19), of io] assms(9,12,17,18) lt fx
    by (simp add: s1 idx gsi_entry_def entry_at_def get_io_apic_def)
  have kept: "entry_vector (?e AND NOT 0x10000) = entry_vector ?e" "entry_delivery (?e AND NOT 0x10000) = entry_delivery ?e"
    "entry_destination (?e AND NOT 0x10000) = entry_destination ?e" "entry_logical (?e AND NOT 0x10000) = entry_logical ?e"
    "\<not> entry_masked (?e AND NOT 0x10000)"
    by (rule unmasked_selectors)+
  have "v = of_nat (unat g + 32)"
    using init assms(22) small(1) unfolding e2 kept(1)
    by (simp add: initial_entry_def g word_unat_eq_iff unat_ucast_mod unat_of_nat del: of_nat_add)
  then have v: "v = g + 32" "unat v = unat g + 32"
    using assms(16) by (simp_all add: word_unat_eq_iff unat_word_ariths unat_of_nat del: of_nat_add)
  have "io_handlers s3 ! unat g = \<lparr>h_func = Some (Driver n), h_data = data, h_vector = g\<rparr>" "length (io_handlers s3) = 224"
    using install_result [OF assms(19)] assms(6,16,20) by (auto simp: s1)
  from apic_wrapper_runs [where drivers = drivers, OF assms(16) this assms(21)]
  have "apic_interrupt_handler_wrapper v H (Suc depth) drivers s3 = Inr (apic_eoi H s4)" by (simp add: v)
  moreover have "kernel_gate (link (Apic_wrapper v)) 0 (apic_init_irq_handlers link (init_exceptions link idt) ! unat v)"
    using apic_init_irq_handlers_gates(3) [of "init_exceptions link idt" v link] v(2) assms(16,23) by simp
  moreover have "entry_destination ?e = ucast (cpu_id val s)" "entry_delivery ?e = 0" "\<not> entry_logical ?e"
    using init nz by (auto simp: initial_entry_def)
  ultimately show ?thesis unfolding e2 kept using kept(5) by blast
qed

theorem interrupt_reaches_driver_witness:
  "\<exists>s1 s2. init_entries (chipset_hw (\<lambda>_. 0) entry_fixed) (\<lambda>_. 0) sample_apic = Inr s1 \<and>
    install_io_interrupt_handler (chipset_hw (\<lambda>_. 0) entry_fixed) (\<lambda>_. 0) 17 (Driver 4) 0xabc s1 = Inr (0, s2) \<and>
    \<not> entry_masked (entry_at (window_regs (ap_hw s2)) sample_ioapic 17) \<and>
    entry_destination (entry_at (window_regs (ap_hw s2)) sample_ioapic 17) = 3 \<and>
    entry_delivery (entry_at (window_regs (ap_hw s2)) sample_ioapic 17) = 0"
proof -
  let ?H = "chipset_hw (\<lambda>_. 0) entry_fixed"
  have id: "cpu_id plain_regs sample_apic = 3" by (simp add: cpu_id_def sample_regs_def)
  obtain h' a' where s1: "init_entries ?H (\<lambda>_. 0) sample_apic = Inr (sample_apic\<lparr>ap_hw := h', allocated := a'\<rparr>)"
    using init_entries_result [OF chip.apic_registers_axioms, of sample_apic "[sample_ioapic]" entry_fixed "\<lambda>_. 0" "\<lambda>_. 0"]
    by (force simp: is_window_def sample_ioapic_def entry_fixed_fields entry_fields_def)
  let ?s1 = "sample_apic\<lparr>ap_hw := h', allocated := a'\<rparr>"
  have io: "get_io_apic 17 ?s1 = Some sample_ioapic" "get_io_apic 17 sample_apic = Some sample_ioapic"
    by (simp_all add: get_io_apic_def sample_ioapic_def)
  obtain s2 where s2: "install_io_interrupt_handler ?H (\<lambda>_. 0) 17 (Driver 4) 0xabc ?s1 = Inr (0, s2)"
    using install_total [of 17 ?s1 "\<lambda>_. 0" sample_ioapic ?H "Driver 4" "0xabc"] io by (auto simp: enabled_gsi_def)
  have sample: "io_addr sample_ioapic = 0xfec00000" "io_gsi_base sample_ioapic = 0"
    "io_max_entries sample_ioapic = 24" by (simp_all add: sample_ioapic_def)
  have fields: "entry_of entry_fixed i AND entry_fields = 0" if "i < 120" for i
    using entry_fixed_fields [OF that] by (simp add: entry_fields_def)
  have w: "is_window 0xfec00000" "\<not> is_window 0xfee00020" "\<not> is_window 0xfee00010" by (simp_all add: is_window_def)
  let ?e = "entry_at (window_regs (ap_hw s2)) sample_ioapic 17" and ?link = "(\<lambda>_. 0x100000) :: isr \<Rightarrow> u64"
  have "\<not> entry_masked ?e \<and> entry_destination ?e = ucast (cpu_id plain_regs sample_apic) \<and> entry_delivery ?e = 0 \<and>
    \<not> entry_logical ?e \<and>
    kernel_gate (?link (Apic_wrapper (ucast (entry_vector ?e)))) 0
      (apic_init_irq_handlers ?link (init_exceptions ?link zero_idt) ! unat (ucast (entry_vector ?e) :: u8)) \<and>
    apic_interrupt_handler_wrapper (ucast (entry_vector ?e)) ?H (Suc 0) (\<lambda>_ _ s. Inr (0, s)) s2 = Inr (apic_eoi ?H s2)"
    by (rule interrupt_reaches_driver [where g = 17 and ios = "[sample_ioapic]" and n = 4 and data = "0xabc" and r = 0
          and link = ?link and idt = zero_idt,
          OF chip.apic_registers_axioms _ _ _ _ _ _ _ _ fields s1 _ _ _ _ _ io(2) _ s2])
      (simp_all add: sample w enabled_gsi_def zero_idt_def)
  then show ?thesis using s1 s2 id by simp
qed

end
