(* ===== verification/Kernel.thy ===== *)
theory Kernel
  imports Memory_Test Interrupts Xhci Ahci
begin

text \<open>
  The start of the kernel: \<open>kernel_main\<close> of \<open>src/src/main.c\<close> and the calls of the firmware in
  \<open>src/src/interrupt/bios/bios.c\<close>. \<open>kernel_main\<close> runs up to the first halt loop (what follows it is never reached) or into
  the event loop of the XHCI driver. Of the messages with values it prints the greeting; those of the drivers are left out,
  as is the breakpoint exception, which only prints one. The real-mode routine that the boot loader leaves is a parameter.
\<close>

section \<open>Calls of the firmware\<close>

abbreviation (input) BIOS_SERV_SET_VBE :: u32 where "BIOS_SERV_SET_VBE \<equiv> 0"
abbreviation (input) BIOS_SERV_READ_CHS :: u32 where "BIOS_SERV_READ_CHS \<equiv> 1"

definition set_vbe_mode :: "'h hw \<Rightarrow> (u32 \<Rightarrow> u32 \<Rightarrow> 'h \<Rightarrow> 'h) \<Rightarrow> u16 \<Rightarrow> 'h \<Rightarrow> 'h" where
  "set_vbe_mode H bios_service_wrapped mode h = remap_pic H (bios_service_wrapped BIOS_SERV_SET_VBE (ucast mode) h)"

definition readCHS :: "'h hw \<Rightarrow> (u32 \<Rightarrow> u32 \<Rightarrow> 'h \<Rightarrow> 'h) \<Rightarrow> 'h \<Rightarrow> 'h" where
  "readCHS H bios_service_wrapped h = remap_pic H (bios_service_wrapped BIOS_SERV_READ_CHS 0 h)"

text \<open>
  Both leave all lines of both 8259A unmasked with interrupts enabled, also after \<open>init_apic\<close> has masked them for the APIC.
\<close>

lemma firmware_call_unmasks:
  assumes "drives_pics H pics"
  shows "irq_mask (master (pics (set_vbe_mode H svc mode h))) = 0" "irq_mask (slave (pics (set_vbe_mode H svc mode h))) = 0"
    "irq_mask (master (pics (readCHS H svc h))) = 0" "irq_mask (slave (pics (readCHS H svc h))) = 0"
  using remap_pic_state [OF assms, THEN conjunct1] by (simp_all add: set_vbe_mode_def readCHS_def)

section \<open>State\<close>

text \<open>
  The static variables of all components. The record of the APICs holds the hardware, the page tables with the bitmap,
  the console and the keyboard (\<open>ap_hw\<close>, \<open>ap_mm\<close>, \<open>ap_console\<close>, \<open>ap_keyboard\<close>); those of PCI and XHCI get the hardware
  when they run.
\<close>

record 'h boot =
  b_apic :: "'h apic"
  b_info :: memory_info
  b_acpi :: acpi
  b_idt :: idt
  b_devs :: "pci_dev list"
  b_xhci :: "xhci_controller list"

datatype 'h boot_end =
    Halt_loop "'h boot"
  | Event_loop xhci_controller "'h boot"

definition final :: "'h boot_end \<Rightarrow> 'h boot" where
  "final e = (case e of Halt_loop s \<Rightarrow> s | Event_loop c s \<Rightarrow> s)"

abbreviation (input) BLACK :: u8 where "BLACK \<equiv> 0"
abbreviation (input) PINK :: u8 where "PINK \<equiv> 13"
abbreviation (input) QWERTZ_LAYOUT :: u32 where "QWERTZ_LAYOUT \<equiv> 0"

section \<open>The steps of \<open>kernel_main\<close>\<close>

definition upd_console :: "(console \<Rightarrow> console) \<Rightarrow> 'h boot \<Rightarrow> 'h boot" where
  "upd_console f s = s\<lparr>b_apic := (b_apic s)\<lparr>ap_console := f (ap_console (b_apic s))\<rparr>\<rparr>"

text \<open>The first message.\<close>

definition greeting :: "va_area \<Rightarrow> 'h boot \<Rightarrow> fault + 'h boot" where
  "greeting found s =
     and_then (kprintln_va found ''%s to %s!'' [VStr (bytes_of ''Welcome''), VStr (bytes_of ''haiirOS'')] (ap_console (b_apic s)))
       (\<lambda>c. Inr (upd_console (\<lambda>_. c) s))"

definition start_memory :: "boot_info \<Rightarrow> u64 \<Rightarrow> 'h boot \<Rightarrow> 'h boot" where
  "start_memory bi cr3 s =
     (let (info, m) = init_memory bi cr3 (ap_mm (b_apic s)) in s\<lparr>b_info := info, b_apic := (b_apic s)\<lparr>ap_mm := m\<rparr>\<rparr>)"

definition start_acpi :: "(u64 \<Rightarrow> u8) \<Rightarrow> u64 \<Rightarrow> 'h boot \<Rightarrow> 'h boot" where
  "start_acpi fw rsdp s =
     (let (ac, m) = init_acpi fw rsdp (b_acpi s, ap_mm (b_apic s)) in s\<lparr>b_acpi := ac, b_apic := (b_apic s)\<lparr>ap_mm := m\<rparr>\<rparr>)"

definition start_keyboard :: "'h boot \<Rightarrow> fault + 'h boot" where
  "start_keyboard s =
     (let (r, k) = select_keyboard_layout QWERTZ_LAYOUT (ap_keyboard (b_apic s)) (ap_console (b_apic s))
      in and_then r (\<lambda>c. Inr (s\<lparr>b_apic := (b_apic s)\<lparr>ap_console := c, ap_keyboard := k\<rparr>\<rparr>)))"

definition start_interrupts ::
    "'h hw \<Rightarrow> (u32 \<Rightarrow> (u32 \<times> u32 \<times> u32 \<times> u32) option) \<Rightarrow> (u64 \<Rightarrow> u8) \<Rightarrow> (isr \<Rightarrow> u64) \<Rightarrow> 'h boot \<Rightarrow>
      (fault + 'h boot) option" where
  "start_interrupts H get_cpuid fw link s =
     map_option (\<lambda>r. and_then r (\<lambda>(idt, a). Inr (s\<lparr>b_idt := idt, b_apic := a\<rparr>)))
       (init_interrupts H get_cpuid fw (b_acpi s) link (b_idt s, b_apic s))"

definition start_pci :: "'h hw \<Rightarrow> nat \<Rightarrow> 'h boot \<Rightarrow> fault + 'h boot" where
  "start_pci H depth s =
     and_then (init_pci H depth \<lparr>pci_hw = ap_hw (b_apic s), pci_devs = b_devs s\<rparr>)
       (\<lambda>p. Inr (s\<lparr>b_devs := pci_devs p, b_apic := (b_apic s)\<lparr>ap_hw := pci_hw p\<rparr>\<rparr>))"

definition after_xhci :: "'h boot \<Rightarrow> 'h xhci \<Rightarrow> 'h boot" where
  "after_xhci s x =
     s\<lparr>b_xhci := xhci_controllers x, b_apic := (b_apic s)\<lparr>ap_hw := xh_hw x, ap_mm := xh_mm x\<rparr>\<rparr>"

definition start_xhci :: "'h hw \<Rightarrow> 'h ram \<Rightarrow> 'h boot \<Rightarrow> (fault + 'h boot_end) option" where
  "start_xhci H M s =
     map_option (\<lambda>r. and_then r (\<lambda>e. Inr (case e of
         Returned x \<Rightarrow> Halt_loop (after_xhci s x)
       | Looping c x \<Rightarrow> Event_loop c (after_xhci s x))))
     (init_xhci H M \<lparr>pci_hw = ap_hw (b_apic s), pci_devs = b_devs s\<rparr>
       \<lparr>xh_hw = ap_hw (b_apic s), xh_mm = ap_mm (b_apic s), xhci_controllers = b_xhci s\<rparr>)"

text \<open>
  \<open>depth\<close> bounds the nested calls of \<open>check_bus\<close>, \<open>load\<close> gives the values that \<open>test_mapping\<close> prints, \<open>found\<close> what the
  greeting reads for the values that \<open>kprintln\<close> does not pass on.
\<close>

definition kernel_main ::
    "va_area \<Rightarrow> 'h hw \<Rightarrow> 'h ram \<Rightarrow> (u32 \<Rightarrow> (u32 \<times> u32 \<times> u32 \<times> u32) option) \<Rightarrow> (u64 \<Rightarrow> u8) \<Rightarrow> (isr \<Rightarrow> u64) \<Rightarrow> nat \<Rightarrow>
      (u64 \<Rightarrow> mm \<Rightarrow> u64) \<Rightarrow> u64 \<Rightarrow> u64 \<Rightarrow> boot_info \<Rightarrow> 'h boot \<Rightarrow> (fault + 'h boot_end) option" where
  "kernel_main found H M get_cpuid fw link depth load cr3 rsdp bi s =
     (let s = upd_console kclear_screen s;
          s = upd_console (kset_color BLACK PINK) s
      in case greeting found s of Inl e \<Rightarrow> Some (Inl e)
      | Inr s \<Rightarrow>
          let s = start_memory bi cr3 s;
              s = start_acpi fw rsdp s
          in (case start_keyboard s of Inl e \<Rightarrow> Some (Inl e)
      | Inr s \<Rightarrow> (case start_interrupts H get_cpuid fw link s of None \<Rightarrow> None | Some (Inl e) \<Rightarrow> Some (Inl e)
      | Some (Inr s) \<Rightarrow>
          let s = upd_console kclear_screen s;
              s = s\<lparr>b_apic := (b_apic s)\<lparr>ap_mm := snd (test_mapping load (ap_mm (b_apic s)))\<rparr>\<rparr>;
              s = upd_console kclear_screen s
          in (case start_pci H depth s of Inl e \<Rightarrow> Some (Inl e)
      | Inr s \<Rightarrow> start_xhci H M s))))"

text \<open>
  The test of the disk behind the halt loop, which is never reached: without a device \<open>kernel_main\<close> goes on to the
  example tasks, otherwise it reads one sector more than 8 MiB and halts.
\<close>

definition disk_test ::
    "'h hw \<Rightarrow> 'h ram \<Rightarrow> 'h ahci \<Rightarrow> mm \<times> 'h \<Rightarrow> (u64 option \<times> mm \<times> 'h) option" where
  "disk_test H M drives = (\<lambda>(mm, h).
     case get_ahci_dev 0 0 drives of
       None \<Rightarrow> Some (None, mm, h)
     | Some ahci_dev \<Rightarrow>
         let (buffer, mm) = pmm_alloc ((0x800000 + AHCI_SECTOR_SIZE - 1) div 4096 + 1) mm
         in map_option (\<lambda>(res, mm, h). (Some res, mm, h))
              (ahci_read H M 0 (0x800000 + AHCI_SECTOR_SIZE) buffer ahci_dev (mm, h)))"

section \<open>The allocator's invariant through the start\<close>

lemma madt_walk_invariant:
  fixes P :: "'s \<Rightarrow> bool"
  assumes step: "\<And>type p s s'. P s \<Longrightarrow> visit type p s = Inr s' \<Longrightarrow> P s'"
    and "P s" "madt_walk fw madt visit s = Some (Inr s')"
  shows "P s'"
proof -
  let ?Q = "\<lambda>(f :: u64 \<Rightarrow> u8) (a :: u64) (l :: u32) v (i :: u32) s (r :: fault + 's). v = visit \<and> P s \<longrightarrow> (\<forall>s'. r = Inr s' \<longrightarrow> P s')"
  have r: "madt_loop fw (madt_entries madt) (entries_size fw madt - 1) visit 0 s = Some (Inr s')"
    using assms(3) by (simp add: madt_walk_def)
  have "?Q fw (madt_entries madt) (entries_size fw madt - 1) visit 0 s (Inr s')"
  proof (rule madt_loop.raw_induct [where P = ?Q, OF _ r])
    fix F f a l v i s r
    assume IH: "\<And>f a l v i s r. F f a l v i s = Some r \<Longrightarrow> ?Q f a l v i s r"
      and eq: "(if i < l then
        (case v (f (a + ucast i)) (a + ucast i) s of
           Inl e \<Rightarrow> Some (Inl e)
         | Inr s' \<Rightarrow> F f a l v (i + ucast (f (a + ucast (i + 1)))) s')
      else Some (Inr s)) = Some r"
    show "?Q f a l v i s r"
    proof
      assume *: "v = visit \<and> P s"
      show "\<forall>s'. r = Inr s' \<longrightarrow> P s'"
      proof (cases "i < l")
        case True
        show ?thesis
        proof (cases "v (f (a + ucast i)) (a + ucast i) s")
          case (Inl e)
          then show ?thesis using eq True by auto
        next
          case (Inr t)
          then have "F f a l v (i + ucast (f (a + ucast (i + 1)))) t = Some r" "P t" using eq True * step by auto
          with IH [OF this(1)] * show ?thesis by blast
        qed
      next
        case False
        then show ?thesis using eq * by auto
      qed
    qed
  qed
  then show ?thesis using assms(2) by blast
qed

lemma run_ops_invariant:
  "(\<And>op s s'. P s \<Longrightarrow> step op s = Inr s' \<Longrightarrow> P s') \<Longrightarrow> P s \<Longrightarrow> run_ops step ops s = Inr s' \<Longrightarrow> P s'"
  by (induction ops arbitrary: s) (auto split: sum.splits)

text \<open>Operations of the interrupt controllers that do not touch the page tables.\<close>

lemma reserve_mm: "reserve_io_interrupt v s = Inr s' \<Longrightarrow> ap_mm s' = ap_mm s"
  by (auto simp: reserve_io_interrupt_def and_then_Inr_iff)

lemma change_entry_mm: "change_entry H f gsi s = Inr s' \<Longrightarrow> ap_mm s' = ap_mm s"
  by (auto simp: change_entry_def Let_def split: option.splits prod.splits)

lemma install_mm: "install_io_interrupt_handler H fw v f d s = Inr (r, s') \<Longrightarrow> ap_mm s' = ap_mm s"
  by (auto simp: install_io_interrupt_handler_def enable_io_interrupt_def Let_def and_then_Inr_iff
      dest: change_entry_mm split: if_splits)

lemma visit_override_mm: "visit_override H fw type p s = Inr s' \<Longrightarrow> ap_mm s' = ap_mm s"
  by (auto simp: visit_override_def and_then_Inr_iff dest: install_mm split: if_splits)

lemma init_one_entry_mm: "init_one_entry H fw io idx s = Inr s' \<Longrightarrow> ap_mm s' = ap_mm s"
  by (auto simp: init_one_entry_def get_local_apic_id_def Let_def and_then_Inr_iff dest: reserve_mm split: prod.splits)

lemma init_entries_mm: "init_entries H fw s = Inr s' \<Longrightarrow> ap_mm s' = ap_mm s"
  unfolding init_entries_def
  by (rule run_ops_invariant [where P = "\<lambda>t. ap_mm t = ap_mm s"])
    (auto dest: init_one_entry_mm elim!: run_ops_invariant [where P = "\<lambda>t. ap_mm t = ap_mm s", rotated 2])

lemma local_apic_mm:
  "init_spurious_interrupts H s = Inr s' \<Longrightarrow> ap_mm s' = ap_mm s" "init_lvt_err H s = Inr s' \<Longrightarrow> ap_mm s' = ap_mm s"
  "ap_mm (init_timer H s) = ap_mm s" "ap_mm (init_lvt_lints H s) = ap_mm s"
  by (auto simp: init_spurious_interrupts_def init_lvt_err_def init_timer_def init_lvt_lints_def apic_read_def
      apic_write_def Let_def dest!: reserve_mm split: prod.splits)

lemma pmm_ok_visit_ioapic: "pmm_ok (ap_mm s) \<Longrightarrow> visit_ioapic H fw type p s = Inr s' \<Longrightarrow> pmm_ok (ap_mm s')"
  by (auto simp: visit_ioapic_def Let_def and_then_Inr_iff map_frame_def pmm_ok_map_page split: if_splits prod.splits)

lemma pmm_ok_init_io_apics:
  assumes "pmm_ok (ap_mm s)" "init_io_apics H fw madt s = Some (Inr s')"
  shows "pmm_ok (ap_mm s')"
proof -
  obtain t u where t: "madt_walk fw madt (visit_ioapic H fw) s = Some (Inr t)"
    "madt_walk fw madt (visit_override H fw) t = Some (Inr u)" "init_entries H fw u = Inr s'"
    using assms(2) by (auto simp: init_io_apics_def get_io_apics_def init_overrides_def split: option.splits sum.splits)
  from t(1) have "pmm_ok (ap_mm t)"
    by (rule madt_walk_invariant [where P = "\<lambda>s. pmm_ok (ap_mm s)", rotated 2]) (use assms(1) pmm_ok_visit_ioapic in blast)+
  moreover from t(2) have "ap_mm u = ap_mm t"
    by (rule madt_walk_invariant [where P = "\<lambda>s. ap_mm s = ap_mm t", rotated 2]) (use visit_override_mm in fastforce)+
  ultimately show ?thesis using init_entries_mm [OF t(3)] by simp
qed

lemma pmm_ok_init_interrupts:
  assumes "pmm_ok (ap_mm s)" "init_interrupts H get_cpuid fw ac link (idt, s) = Some (Inr (idt', s'))"
  shows "pmm_ok (ap_mm s')"
proof (cases "cpuid_apic_available get_cpuid")
  case False
  then show ?thesis using assms by (auto simp: init_interrupts_def init_pic_def)
next
  case True
  have m: "pmm_ok (map_frame p f g m)" if "pmm_ok m" for p f g m using that by (simp add: map_frame_def pmm_ok_map_page)
  obtain a b where a: "init_apic H fw ac link (idt, s\<lparr>ap_hw := a\<rparr>) = Some (Inr (idt', b))" "ap_mm s' = ap_mm b"
    using assms(2) True by (auto simp: init_interrupts_def Let_def and_then_Inr_iff)
  obtain t u v w r x where t: "init_io_apics H fw (get_madt ac) t = Some (Inr u)" "pmm_ok (ap_mm t)"
    "init_spurious_interrupts H u = Inr v" "init_lvt_err H (init_timer H v) = Inr w"
    "install_io_interrupt_handler H fw 1 Debug_keyboard 0 (init_lvt_lints H w) = Inr (r, b)"
    using a(1) assms(1) by (auto simp: init_apic_def Let_def and_then_Inr_iff m split: prod.splits)
  have "pmm_ok (ap_mm u)" by (rule pmm_ok_init_io_apics [OF t(2,1)])
  then show ?thesis
    using local_apic_mm(1) [OF t(3)] local_apic_mm(2) [OF t(4)] install_mm [OF t(5)] a(2) by (simp add: local_apic_mm)
qed

lemma pmm_ok_map_sdt: "pmm_ok m \<Longrightarrow> pmm_ok (map_sdt fw sdt m)"
  by (simp add: map_sdt_def pmm_ok_map_frames map_frame_def pmm_ok_map_page)

lemma pmm_ok_visit_sdts:
  "pmm_ok (snd st) \<Longrightarrow> pmm_ok (snd (fold (\<lambda>i. visit_sdt fw (a i)) is st))"
  by (induction "is" arbitrary: st) (auto simp: visit_sdt_def pmm_ok_map_sdt Let_def split_def)

lemma pmm_ok_init_acpi: "pmm_ok m \<Longrightarrow> pmm_ok (snd (init_acpi fw rsdp (s, m)))"
  by (simp add: init_acpi_def init_with_rsdp_def init_with_xsdp_def Let_def pmm_ok_visit_sdts pmm_ok_map_sdt)

lemma pmm_ok_map_bar: "pmm_ok m \<Longrightarrow> pmm_ok (map_bar bar m)"
  by (simp add: map_bar_def pmm_ok_map_frames)

lemma pmm_ok_rings:
  assumes "pmm_ok m" "init_xhci_rings H M c (m, h) = (c', m', h')"
  shows "pmm_ok m'"
proof -
  obtain c1 m1 h1 where 1: "init_dcbaa H M c (m, h) = (c1, m1, h1)" by (metis prod_cases3)
  have m1: "pmm_ok m1"
    using 1 pmm_ok_pmm_alloc [OF assms(1), of 64] by (auto simp: init_dcbaa_def dev_context_size_def Let_def split_def)
  obtain c2 m2 h2 where 2: "init_cmd_ring H M c1 (m1, h1) = (c2, m2, h2)" by (metis prod_cases3)
  have m2: "pmm_ok m2" using 2 pmm_ok_alloc_custom [OF m1, of 1 "0x13"] by (auto simp: init_cmd_ring_def Let_def split_def)
  have "init_event_ring_seg_table H M c2 (m2, h2) = (c', m', h')" using assms(2) by (simp add: init_xhci_rings_def 1 2)
  then show ?thesis
    using pmm_ok_alloc_custom [OF pmm_ok_alloc_custom [OF m2, of 1 "0x13"], of 1 "0x13"]
    by (auto simp: init_event_ring_seg_table_def create_event_ring_seg_def Let_def split_def)
qed

definition outcome_mm :: "'h xhci_outcome \<Rightarrow> mm" where
  "outcome_mm r = (case r of Returned x \<Rightarrow> xh_mm x | Looping c x \<Rightarrow> xh_mm x)"

lemma pmm_ok_xhci_controller:
  assumes "pmm_ok (xh_mm s)" "init_xhci_controller H M dev s = Some (Inr r)"
  shows "pmm_ok (outcome_mm r)"
proof -
  have rings: "pmm_ok (fst (snd (init_xhci_rings H M c (m, h))))" if "pmm_ok m" for c m h
    using pmm_ok_rings [OF that] by (metis prod.collapse)
  show ?thesis
    using assms pmm_ok_map_bar
    by (auto simp: init_xhci_controller_def outcome_mm_def Let_def bind_eq_Some_conv split_def rings split: if_splits)
qed

lemma pmm_ok_xhci_in:
  "pmm_ok (xh_mm s) \<Longrightarrow> init_xhci_in H M ds s = Some (Inr r) \<Longrightarrow> pmm_ok (outcome_mm r)"
proof (induction ds arbitrary: s)
  case Nil
  then show ?case by (auto simp: outcome_mm_def)
next
  case (Cons d ds)
  show ?case
  proof (cases "is_xhci d")
    case True
    with Cons.prems(2) obtain q where q: "init_xhci_controller H M d s = Some (Inr q)"
      by (auto split: option.splits sum.splits)
    note ok = pmm_ok_xhci_controller [OF Cons.prems(1) q]
    show ?thesis
    proof (cases q)
      case (Returned x)
      with ok have "pmm_ok (xh_mm x)" by (simp add: outcome_mm_def)
      from Cons.IH [OF this] show ?thesis using Cons.prems(2) True q Returned by simp
    next
      case (Looping c x)
      then show ?thesis using Cons.prems(2) True q ok by simp
    qed
  qed (use Cons in simp)
qed

text \<open>The first message of the kernel loses its arguments: \<open>kprintln\<close> does not pass them on.\<close>

lemma greeting_faults: "con_ok (ap_console (b_apic s)) \<Longrightarrow> greeting nothing_found s = Inl MissingVaArg"
  using kprintln_missing [of "ap_console (b_apic s)" "[]" "CHR ''s''" "'' to %s!''"]
  by (simp add: greeting_def reads_arg_def kprintln_va_nothing)

lemma greeting_reads:
  assumes "con_ok (ap_console (b_apic s))" "va_readable found"
  shows "\<exists>c. greeting found s = Inr (upd_console (\<lambda>_. c) s) \<and> con_ok c"
  using kprintln_va_reads [OF assms, of "''%s to %s!''" "[VStr (bytes_of ''Welcome''), VStr (bytes_of ''haiirOS'')]"]
  by (auto simp: greeting_def)

lemma greeting_keeps: "greeting found s = Inr s' \<Longrightarrow> \<exists>c. s' = upd_console (\<lambda>_. c) s"
  by (auto simp: greeting_def and_then_Inr_iff)

section \<open>Properties\<close>

text \<open>C18:
  What holds when the start is over. On a machine with at least 4 MiB of memory whose memory map is in order, when
  \<open>kernel_main\<close> reaches its halt loop or the event loop, the allocator's invariant holds through all that the ACPI, APIC,
  PCI and XHCI drivers and the mapping test have allocated and mapped, and the interrupt descriptor table is well-formed.
\<close>

theorem kernel_main_invariant:
  assumes "map_small (init_memory_map bi)" "125 \<le> get_bitmap_size (init_memory_map bi)"
    and "last_idx (ap_mm (b_apic s)) = 0" "last_idx_bit (ap_mm (b_apic s)) = 7" "length (b_idt s) = 256"
    and "kernel_main found H M get_cpuid fw link depth load cr3 rsdp bi s = Some (Inr r)"
  shows "pmm_ok (ap_mm (b_apic (final r))) \<and> idt_typed link (cpuid_apic_available get_cpuid) (b_idt s) (b_idt (final r))"
proof -
  let ?m = "init_pmm (init_memory_map bi) (init_paging cr3 (ap_mm (b_apic s)))"
  have m: "pmm_ok ?m"
    by (rule init_pmm_invariant [OF assms(1)]) (use assms(2-4) in \<open>simp_all add: init_paging_def\<close>)
  let ?g = "upd_console (kset_color BLACK PINK) (upd_console kclear_screen s)"
  obtain s0 where s0: "greeting found ?g = Inr s0" using assms(6) by (auto simp: kernel_main_def Let_def split: sum.splits)
  then obtain c where c: "s0 = upd_console (\<lambda>_. c) ?g" using greeting_keeps by blast
  let ?s = "start_acpi fw rsdp (start_memory bi cr3 s0)"
  have s: "pmm_ok (ap_mm (b_apic ?s))" "b_idt ?s = b_idt s"
    using pmm_ok_init_acpi [OF m] by (simp_all add: c start_acpi_def start_memory_def init_memory_def upd_console_def split_def Let_def)
  obtain s1 where s1: "start_keyboard ?s = Inr s1" using assms(6) s0 by (auto simp: kernel_main_def Let_def split: sum.splits)
  then have k: "ap_mm (b_apic s1) = ap_mm (b_apic ?s)" "b_idt s1 = b_idt s"
    using s(2) by (auto simp: start_keyboard_def Let_def split_def and_then_Inr_iff)
  obtain s2 where s2: "start_interrupts H get_cpuid fw link s1 = Some (Inr s2)"
    using assms(6) s0 s1 by (auto simp: kernel_main_def Let_def split: sum.splits option.splits)
  then have i: "init_interrupts H get_cpuid fw (b_acpi s1) link (b_idt s1, b_apic s1) = Some (Inr (b_idt s2, b_apic s2))"
    by (auto simp: start_interrupts_def and_then_Inr_iff)
  have idt: "idt_typed link (cpuid_apic_available get_cpuid) (b_idt s) (b_idt s2)"
    using init_interrupts_gates [OF _ i] k(2) assms(5) by simp
  have mm: "pmm_ok (ap_mm (b_apic s2))" using pmm_ok_init_interrupts [OF _ i] k(1) s(1) by simp
  define s3 where "s3 = upd_console kclear_screen ((upd_console kclear_screen s2)
    \<lparr>b_apic := (b_apic (upd_console kclear_screen s2))\<lparr>ap_mm := snd (test_mapping load (ap_mm (b_apic (upd_console kclear_screen s2))))\<rparr>\<rparr>)"
  have s3: "pmm_ok (ap_mm (b_apic s3))" "b_idt s3 = b_idt s2"
    using pmm_ok_test_mapping [OF mm] by (simp_all add: s3_def upd_console_def)
  obtain s4 where s4: "start_pci H depth s3 = Inr s4" "start_xhci H M s4 = Some (Inr r)"
    using assms(6) s0 s1 s2 by (auto simp: kernel_main_def Let_def s3_def split: sum.splits)
  then have p: "pmm_ok (ap_mm (b_apic s4))" "b_idt s4 = b_idt s2"
    using s3 by (auto simp: start_pci_def and_then_Inr_iff)
  obtain q where q: "init_xhci H M \<lparr>pci_hw = ap_hw (b_apic s4), pci_devs = b_devs s4\<rparr>
      \<lparr>xh_hw = ap_hw (b_apic s4), xh_mm = ap_mm (b_apic s4), xhci_controllers = b_xhci s4\<rparr> = Some (Inr q)"
    "r = (case q of Returned x \<Rightarrow> Halt_loop (after_xhci s4 x) | Looping c x \<Rightarrow> Event_loop c (after_xhci s4 x))"
    using s4(2) by (auto simp: start_xhci_def and_then_Inr_iff)
  have "pmm_ok (outcome_mm q)" using pmm_ok_xhci_in [OF _ q(1) [unfolded init_xhci_def]] p(1) by simp
  moreover have "ap_mm (b_apic (final r)) = outcome_mm q" "b_idt (final r) = b_idt s4"
    using q(2) by (cases q; simp add: final_def after_xhci_def outcome_mm_def)+
  ultimately show ?thesis using idt p(2) by simp
qed

section \<open>The start on a machine without APIC and USB\<close>

lemma no_xhci: "\<forall>d \<in> set ds. \<not> is_xhci d \<Longrightarrow> init_xhci_in H M ds s = Some (Inr (Returned s))"
  by (induction ds) simp_all

text \<open>Ports and the interrupt flag are apart from the configuration space.\<close>

definition ports_apart :: "'h hw \<Rightarrow> ('h \<Rightarrow> u32 \<Rightarrow> u32) \<Rightarrow> bool" where
  "ports_apart H cfg \<longleftrightarrow>
     (\<forall>port v h. cfg (port_out H port v h) = cfg h) \<and> (\<forall>b h. cfg (interrupt_flag H b h) = cfg h)"

lemma ports_apart_remap: "ports_apart H cfg \<Longrightarrow> cfg (remap_pic H h) = cfg h"
  by (simp add: ports_apart_def remap_pic_def remap_bytes_def io_wait_def outb_def disable_interrupts_def enable_interrupts_def)

lemma start_interrupts_pic:
  assumes "ports_apart H cfg" "\<not> cpuid_apic_available get_cpuid"
  shows "\<exists>s'. start_interrupts H get_cpuid fw link s = Some (Inr s') \<and> b_devs s' = b_devs s \<and>
    cfg (ap_hw (b_apic s')) = cfg (ap_hw (b_apic s))"
  using assms ports_apart_remap [OF assms(1)]
  by (simp add: start_interrupts_def init_interrupts_def init_pic_def Let_def ports_apart_def disable_interrupts_def
      enable_interrupts_def)

lemma start_pci_enumerates:
  assumes "config_space H cfg writable" "buses_ordered c" "256 \<le> depth" "cfg_word c 0 0 0 0xc AND 0x80 = 0"
    "length (bus_devices c depth 0) \<le> MAX_PCI_DEVICES" "cfg (ap_hw (b_apic s)) = c" "b_devs s = []"
  shows "\<exists>s'. start_pci H depth s = Inr s' \<and> b_devs s' = bus_devices c depth 0"
proof -
  obtain h1 where h1: "pci_readw H 0 0 0 0xc (ap_hw (b_apic s)) = (cfg_word c 0 0 0 0xc, h1)" "cfg h1 = c"
    using config_space.readw [OF assms(1), of 0 0 0 "0xc" "ap_hw (b_apic s)"] assms(6) by auto
  obtain h' where "check_bus H depth 0 \<lparr>pci_hw = h1, pci_devs = []\<rparr> =
      Inr \<lparr>pci_hw = h', pci_devs = bus_devices c depth 0\<rparr>"
    using config_space.check_bus_enumerates [OF assms(1,2), of 0 depth "\<lparr>pci_hw = h1, pci_devs = []\<rparr>"]
      h1(2) assms(3,5) by auto
  then show ?thesis using h1(1) assms(4,7) by (simp add: start_pci_def init_pci_def)
qed

lemma kernel_main_halts:
  assumes "config_space H cfg writable" "ports_apart H cfg" "\<not> cpuid_apic_available get_cpuid"
    and "con_ok (ap_console (b_apic s))" "b_devs s = []" "c = cfg (ap_hw (b_apic s))"
    and "buses_ordered c" "256 \<le> depth" "cfg_word c 0 0 0 0xc AND 0x80 = 0"
    and "length (bus_devices c depth 0) \<le> MAX_PCI_DEVICES" "\<forall>d \<in> set (bus_devices c depth 0). \<not> is_xhci d"
    and "va_readable found"
  shows "\<exists>s'. kernel_main found H M get_cpuid fw link depth load cr3 rsdp bi s = Some (Inr (Halt_loop s')) \<and>
    b_devs s' = bus_devices c depth 0"
proof -
  let ?g = "upd_console (kset_color BLACK PINK) (upd_console kclear_screen s)"
  have "con_ok (ap_console (b_apic ?g))"
    using assms(4) kclear_screen_result [of "ap_console (b_apic s)"] by (simp add: upd_console_def con_ok_def kset_color_def)
  then obtain g where g: "greeting found ?g = Inr (upd_console (\<lambda>_. g) ?g)" "con_ok g"
    using greeting_reads assms(12) by blast
  define t where "t = start_acpi fw rsdp (start_memory bi cr3 (upd_console (\<lambda>_. g) ?g))"
  have t: "con_ok (ap_console (b_apic t))" "cfg (ap_hw (b_apic t)) = c" "b_devs t = []"
    using assms(5,6) g(2) by (simp_all add: t_def start_acpi_def start_memory_def upd_console_def split_def Let_def)
  obtain k where "kprintln ''Keyboard layout QWERTZ'' [] (ap_console (b_apic t)) = Inr k"
    using kprintln_plain [OF t(1), of "''Keyboard layout QWERTZ''" "[]"] by auto
  then obtain s1 where s1: "start_keyboard t = Inr s1" "cfg (ap_hw (b_apic s1)) = c" "b_devs s1 = []"
    using t(2,3) by (auto simp: start_keyboard_def select_keyboard_layout_def)
  obtain s2 where s2: "start_interrupts H get_cpuid fw link s1 = Some (Inr s2)"
      "cfg (ap_hw (b_apic s2)) = c" "b_devs s2 = []"
    using start_interrupts_pic [OF assms(2,3), of fw link s1] s1 by auto
  define s3 where "s3 = upd_console kclear_screen ((upd_console kclear_screen s2)
    \<lparr>b_apic := (b_apic (upd_console kclear_screen s2))\<lparr>ap_mm := snd (test_mapping load (ap_mm (b_apic (upd_console kclear_screen s2))))\<rparr>\<rparr>)"
  have "cfg (ap_hw (b_apic s3)) = c" "b_devs s3 = []"
    using s2(2,3) by (simp_all add: s3_def upd_console_def)
  then obtain s4 where s4: "start_pci H depth s3 = Inr s4" "b_devs s4 = bus_devices c depth 0"
    using start_pci_enumerates [OF assms(1,7-10)] by blast
  then have "start_xhci H M s4 = Some (Inr (Halt_loop (after_xhci s4
      \<lparr>xh_hw = ap_hw (b_apic s4), xh_mm = ap_mm (b_apic s4), xhci_controllers = b_xhci s4\<rparr>)))"
    using assms(11) by (simp add: start_xhci_def init_xhci_def get_pci_devs_def get_pci_devs_len_def no_xhci)
  then show ?thesis using s1(1) s2(1) s4
    by (simp add: kernel_main_def Let_def g(1) t_def [symmetric] s3_def [symmetric] after_xhci_def)
qed

lemma kernel_main_greeting:
  assumes "con_ok (ap_console (b_apic s))"
  shows "kernel_main nothing_found H M get_cpuid fw link depth load cr3 rsdp bi s = Some (Inl MissingVaArg)"
proof -
  have "con_ok (ap_console (b_apic (upd_console (kset_color BLACK PINK) (upd_console kclear_screen s))))"
    using assms kclear_screen_result [of "ap_console (b_apic s)"] by (simp add: upd_console_def con_ok_def kset_color_def)
  from greeting_faults [OF this] show ?thesis by (simp add: kernel_main_def)
qed

text \<open>C19:
  Where no device can hold the start up, only its own messages can: on a machine without a local APIC and without a USB
  controller, whatever the firmware tables, the memory map and the state of the hardware are, \<open>kernel_main\<close> stops at its
  greeting when \<open>kprintf\<close> finds none of the values that \<open>kprintln\<close> dropped, and reaches its halt loop when it finds values
  of the right types; the device table then holds the devices of the buses in order. (The other messages with values, and
  the breakpoint exception, are not part of the model.)
\<close>

theorem kernel_main_completes:
  assumes "config_space H cfg writable" "ports_apart H cfg" "\<not> cpuid_apic_available get_cpuid"
    and "con_ok (ap_console (b_apic s))" "b_devs s = []" "c = cfg (ap_hw (b_apic s))"
    and "buses_ordered c" "256 \<le> depth" "cfg_word c 0 0 0 0xc AND 0x80 = 0"
    and "length (bus_devices c depth 0) \<le> MAX_PCI_DEVICES" "\<forall>d \<in> set (bus_devices c depth 0). \<not> is_xhci d"
    and "va_readable found"
  shows "kernel_main nothing_found H M get_cpuid fw link depth load cr3 rsdp bi s = Some (Inl MissingVaArg) \<and>
    (\<exists>s'. kernel_main found H M get_cpuid fw link depth load cr3 rsdp bi s = Some (Inr (Halt_loop s')) \<and>
    b_devs s' = bus_devices c depth 0)"
  using kernel_main_halts [OF assms] kernel_main_greeting [OF assms(4)] by blast

text \<open>A run of the whole start: the memory of \<open>sample_info\<close>, no local APIC, a disk controller behind a bridge.\<close>

definition sample_boot_info :: boot_info where
  "sample_boot_info = \<lparr>boot_memory_map = memory_map sample_info, lower_memory_KiB = 639, upper_memory_64KiB = 0,
     boot_kernel_addr = 0x100000, boot_kernel_size = 0x20000,
     vbe_mode = \<lparr>framebuffer = 0, width = 0, height = 0, bpp = 0\<rparr>\<rparr>"

definition sample_boot :: "chipset boot" where
  "sample_boot = \<lparr>b_apic = sample_apic\<lparr>ap_hw := sample_chipset\<rparr>, b_info = sample_info,
     b_acpi = \<lparr>xsdp_detected = False, s_xsdp = 0, s_madt = 0, s_fadt = 0\<rparr>, b_idt = zero_idt, b_devs = [], b_xhci = []\<rparr>"

definition sample_start :: "(fault + chipset boot_end) option" where
  "sample_start = kernel_main passed_on (chipset_hw (\<lambda>_. 0) (\<lambda>_. 0)) \<lparr>mem_of = \<lambda>_ _. 0, with_mem = \<lambda>m h. h\<rparr> (\<lambda>_. None) (\<lambda>_. 0)
     (\<lambda>_. 0x100000) 256 (\<lambda>_ _. 0) 0x4000 0 sample_boot_info sample_boot"

lemma sample_no_xhci: "\<forall>d \<in> set (bus_devices sample_space 256 0). \<not> is_xhci d"
proof
  fix d assume "d \<in> set (bus_devices sample_space 256 0)"
  then obtain b df where "d = device sample_space b df" "df \<in> set slots" "present sample_space b df"
    using set_bus_devices [OF sample_ordered, of 0 256] by auto
  then have "d = device sample_space b df" "(b, df) \<in> {(0, 0, 0), (0, 1, 0), (1, 0, 0)}"
    by (auto simp: sample_present prod_eq_iff)
  then show "\<not> is_xhci d"
    by (auto simp: is_xhci_def device_def class_byte_def cfg_word_def cfg_dword_def sample_space_at)
qed

lemma sample_start_facts:
  "ports_apart (chipset_hw wr fixed) space" "\<not> cpuid_apic_available (\<lambda>_. None)"
  "con_ok (ap_console (b_apic sample_boot))" "b_devs sample_boot = []" "sample_space = space (ap_hw (b_apic sample_boot))"
  "cfg_word sample_space 0 0 0 0xc AND 0x80 = 0"
  by (simp_all add: ports_apart_def chipset_hw_def cpuid_apic_available_def sample_boot_def sample_apic_def con_ok_def
      init_console_def sample_chipset_def cfg_word_def cfg_dword_def sample_space_at)

theorem kernel_main_completes_witness:
  "\<exists>s'. sample_start = Some (Inr (Halt_loop s')) \<and> b_devs s' = bus_devices sample_space 256 0"
  unfolding sample_start_def
  by (rule conjunct2 [OF kernel_main_completes [OF chip.config_space_axioms sample_start_facts(1-5) sample_ordered order_refl
        sample_start_facts(6) sample_devices sample_no_xhci va_readable_passed_on]])

theorem kernel_main_invariant_witness:
  "\<exists>r. sample_start = Some (Inr r) \<and> pmm_ok (ap_mm (b_apic (final r))) \<and> kernel_gate 0x100000 2 (b_idt (final r) ! 8)"
proof -
  let ?link = "(\<lambda>_. 0x100000) :: isr \<Rightarrow> u64"
  obtain r where r: "sample_start = Some (Inr r)"
    using kernel_main_halts [OF chip.config_space_axioms sample_start_facts(1-5) sample_ordered order_refl
        sample_start_facts(6) sample_devices sample_no_xhci va_readable_passed_on] unfolding sample_start_def by blast
  have info: "init_memory_map sample_boot_info = sample_info"
    by (simp add: init_memory_map_def sample_boot_info_def sample_info_def)
  have "pmm_ok (ap_mm (b_apic (final r))) \<and>
      idt_typed ?link (cpuid_apic_available (\<lambda>_. None)) (b_idt sample_boot) (b_idt (final r))"
    by (rule kernel_main_invariant [OF _ _ _ _ _ r [unfolded sample_start_def]])
      (simp_all add: info sample_info_facts, simp_all add: sample_boot_def sample_apic_def sample_def zero_idt_def)
  then have "idt_typed ?link False (b_idt sample_boot) (b_idt (final r))" "pmm_ok (ap_mm (b_apic (final r)))"
    by (simp_all add: sample_start_facts(2))
  moreover have "vector_isr False 8 = Some (Exc 8, 2)" by (simp add: vector_isr_def exception_ist_def)
  ultimately have "kernel_gate 0x100000 2 (b_idt (final r) ! 8)" "pmm_ok (ap_mm (b_apic (final r)))"
    unfolding idt_typed_def by (auto dest!: spec [of _ "8 :: u8"])
  then show ?thesis using r by blast
qed

end
