(* ===== verification/Boot.thy ===== *)
theory Boot
  imports Cpu Interrupts
begin

text \<open>
  The start of the processor in \<open>src/src/boot/boot.asm\<close>, with the descriptor table and the task state segment it sets up,
  and the switch to 32-bit mode and back around a call of the firmware in \<open>src/src/interrupt/bios/bios.asm\<close>. Addresses that
  the linker chooses are parameters.
\<close>

section \<open>Tables\<close>

text \<open>A descriptor: two \<open>dw\<close> and four \<open>db\<close>.\<close>

definition descriptor :: "u16 \<Rightarrow> u16 \<Rightarrow> u8 \<Rightarrow> u8 \<Rightarrow> u8 \<Rightarrow> u8 \<Rightarrow> u8 list" where
  "descriptor limit base_low base_middle access_byte flags_byte base_high =
     [ucast limit, ucast (drop_bit 8 limit), ucast base_low, ucast (drop_bit 8 base_low), base_middle, access_byte, flags_byte,
      base_high]"

definition dq :: "u64 \<Rightarrow> u8 list" where
  "dq v = map (\<lambda>i. ucast (drop_bit (8 * i) v)) [0..<8]"

abbreviation (input) TSS_SIZE :: u16 where "TSS_SIZE \<equiv> 103"

definition gdt64 :: "u8 list" where
  "gdt64 = replicate 8 0 @ descriptor 0 0 0 0x9a 0xa0 0 @ descriptor 0 0 0 0x92 0xa0 0 @
     replicate 8 0 @ descriptor 0 0 0 0xf2 0xa0 0 @ descriptor 0 0 0 0xfa 0xa0 0 @
     descriptor TSS_SIZE 0 0 0x89 0xa0 0 @ replicate 8 0 @
     descriptor 0xffff 0 0 0x9a 0xcf 0 @ descriptor 0xffff 0 0 0x92 0xcf 0"

text \<open>The selectors, which are offsets in the table.\<close>

abbreviation (input) gdt64_code :: u16 where "gdt64_code \<equiv> 0x08"
abbreviation (input) gdt64_data :: u16 where "gdt64_data \<equiv> 0x10"
abbreviation (input) gdt64_user_data :: u16 where "gdt64_user_data \<equiv> 0x20"
abbreviation (input) gdt64_user_code :: u16 where "gdt64_user_code \<equiv> 0x28"
abbreviation (input) gdt64_tss :: u16 where "gdt64_tss \<equiv> 0x30"
abbreviation (input) gdt64_code32 :: u16 where "gdt64_code32 \<equiv> 0x40"
abbreviation (input) gdt64_data32 :: u16 where "gdt64_data32 \<equiv> 0x48"

text \<open>The stacks in \<open>.bss\<close>.\<close>

definition stack_top :: "u64 \<Rightarrow> u64" where "stack_top stack_bottom = stack_bottom + 4096 * 6"
definition ist_stack1 :: "u64 \<Rightarrow> u64" where "ist_stack1 stack_bottom = stack_top stack_bottom + 4096"
definition ist_stack2 :: "u64 \<Rightarrow> u64" where "ist_stack2 stack_bottom = ist_stack1 stack_bottom + 4096"

definition TSS64 :: "u64 \<Rightarrow> u8 list" where
  "TSS64 stack_bottom = replicate 4 0 @ dq (stack_top stack_bottom) @ dq 0 @ dq 0 @ dq 0 @
     dq (ist_stack1 stack_bottom) @ dq (ist_stack2 stack_bottom) @ dq 0 @ dq 0 @ dq 0 @ dq 0 @ dq 0 @ dq 0 @
     replicate 2 0 @ replicate 2 0"

definition holds :: "memory \<Rightarrow> u64 \<Rightarrow> u8 list \<Rightarrow> bool" where
  "holds m a bs \<longleftrightarrow> (\<forall>i < length bs. m (a + of_nat i) = bs ! i)"

section \<open>The start\<close>

definition store8 :: "reg \<Rightarrow> u64 \<Rightarrow> reg \<Rightarrow> cpu \<Rightarrow> cpu" where
  "store8 b off r c = c\<lparr>cpu_mem := (cpu_mem c)(gpr c b + off := ucast (gpr c r))\<rparr>"

definition store16 :: "reg \<Rightarrow> u64 \<Rightarrow> reg \<Rightarrow> cpu \<Rightarrow> cpu" where
  "store16 b off r c = c\<lparr>cpu_mem := wr16 (gpr c b + off) (ucast (gpr c r)) (cpu_mem c)\<rparr>"

definition store32 :: "reg \<Rightarrow> u64 \<Rightarrow> reg \<Rightarrow> cpu \<Rightarrow> cpu" where
  "store32 b off r c = c\<lparr>cpu_mem := wr32 (gpr c b + off) (low r c) (cpu_mem c)\<rparr>"

definition set_tss :: "u64 \<Rightarrow> u64 \<Rightarrow> cpu \<Rightarrow> cpu" where
  "set_tss gdt tss = run
     [set_reg RBX gdt, \<lambda>c. set_reg RBX (gpr c RBX + ucast gdt64_tss) c, set_reg RAX tss,
      store16 RBX 2 RAX, shr_reg RAX 16, store8 RBX 4 RAX, shr_reg RAX 8, store8 RBX 7 RAX, shr_reg RAX 8,
      store32 RBX 8 RAX]"

text \<open>The load of the 16-bit part of a register, and a near return; \<open>after_call\<close> is the address behind \<open>call set_tss\<close>.\<close>

definition set_word :: "reg \<Rightarrow> u16 \<Rightarrow> cpu \<Rightarrow> cpu" where
  "set_word r v c = set_reg r (gpr c r AND NOT 0xffff OR ucast v) c"

definition ret :: "cpu \<Rightarrow> cpu" where
  "ret c = (set_reg RSP (gpr c RSP + 8) c)\<lparr>pc := rd64 (cpu_mem c) (gpr c RSP)\<rparr>"

definition load_gdt :: "u64 \<Rightarrow> cpu \<Rightarrow> cpu" where
  "load_gdt gdt c = c\<lparr>gdtr := (of_nat (length gdt64) - 1, gdt)\<rparr>"

text \<open>
  The load of the task register. \<open>None\<close>: a fault, when the selector is null or beyond the table, or the descriptor is not
  a present and available 64-bit task state segment (type 9 of the system types). The processor marks the descriptor busy.
\<close>

definition ltr :: "reg \<Rightarrow> cpu \<Rightarrow> cpu option" where
  "ltr r c =
     (let sel = ucast (gpr c r) :: u16; d = snd (gdtr c) + ucast (sel AND 0xfff8)
      in if sel AND 0xfffc \<noteq> 0 \<and> unat (sel AND 0xfff8) + 15 \<le> unat (fst (gdtr c)) \<and> cpu_mem c (d + 5) AND 0x9f = 0x89
         then Some (c\<lparr>tr_sel := sel, cpu_mem := (cpu_mem c)(d + 5 := cpu_mem c (d + 5) OR 2)\<rparr>) else None)"

definition start :: "u64 \<Rightarrow> u64 \<Rightarrow> u64 \<Rightarrow> u64 \<Rightarrow> u64 \<Rightarrow> cpu \<Rightarrow> cpu option" where
  "start gdt tss stack_bottom after_call kernel_main c =
     map_option (\<lambda>c. c\<lparr>pc := kernel_main\<rparr>)
       (ltr RAX (run [cli, set_reg RSP (stack_top stack_bottom), push_val after_call, set_tss gdt tss, ret, load_gdt gdt,
          set_word RAX gdt64_tss] c))"

section \<open>Calls of the firmware\<close>

definition load_data_segments :: "u16 \<Rightarrow> cpu \<Rightarrow> cpu" where
  "load_data_segments sel c = (set_word RAX sel c)\<lparr>ss_sel := sel, data_sel := sel\<rparr>"

text \<open>The far return of 64-bit code.\<close>

definition retfq :: "cpu \<Rightarrow> cpu" where
  "retfq c = (set_reg RSP (gpr c RSP + 16) c)
     \<lparr>pc := rd64 (cpu_mem c) (gpr c RSP), cs_sel := ucast (rd64 (cpu_mem c) (gpr c RSP + 8))\<rparr>"

definition cr0_to_eax :: "cpu \<Rightarrow> cpu" where
  "cr0_to_eax c = set_low RAX (ucast (cr0 c)) c"

definition eax_to_cr0 :: "cpu \<Rightarrow> cpu" where
  "eax_to_cr0 c = c\<lparr>cr0 := ucast (low RAX c)\<rparr>"

definition to_compatibility_mode :: "u64 \<Rightarrow> cpu \<Rightarrow> cpu" where
  "to_compatibility_mode comp_mode = run
     [push_val (ucast gdt64_code32), set_low RCX (ucast comp_mode), push RCX, retfq,
      cli, load_data_segments gdt64_data32,
      cr0_to_eax, and_eax (NOT 0x80000000), eax_to_cr0,
      set_low RCX EFER, rdmsr_instr, and_eax (NOT 0x100), wrmsr_instr]"

definition to_long_mode :: "u64 \<Rightarrow> cpu \<Rightarrow> cpu" where
  "to_long_mode gdt = run
     [set_low RCX EFER, rdmsr_instr, or_eax 0x100, wrmsr_instr,
      cr0_to_eax, or_eax 0x80000000, eax_to_cr0,
      load_gdt gdt, \<lambda>c. c\<lparr>cs_sel := gdt64_code\<rparr>,
      load_data_segments gdt64_data, ret]"

text \<open>
  The address of the routine is kept in the variable \<open>bios_service\<close>, at the address \<open>var\<close>; \<open>routine\<close> is what a call of the
  code at an address does. In 32-bit mode the call reads the lower half of the variable.
\<close>

definition init_bios_services :: "u64 \<Rightarrow> u64 \<Rightarrow> cpu \<Rightarrow> cpu" where
  "init_bios_services var call_bios_service c = c\<lparr>cpu_mem := wr64 var call_bios_service (cpu_mem c)\<rparr>"

text \<open>
  The 32-bit call through a variable: four bytes are pushed at \<open>esp\<close>, whose write clears the upper half of \<open>rsp\<close>;
  \<open>after_service\<close> is the address behind the call.
\<close>

definition push32 :: "u32 \<Rightarrow> cpu \<Rightarrow> cpu" where
  "push32 v c = (let a = low RSP c - 4 in (set_low RSP a c)\<lparr>cpu_mem := wr32 (ucast a) v (cpu_mem c)\<rparr>)"

definition enter_routine :: "u32 \<Rightarrow> u32 \<Rightarrow> cpu \<Rightarrow> cpu" where
  "enter_routine after_service address c = (push32 after_service c)\<lparr>pc := ucast address\<rparr>"

definition call32 :: "u32 \<Rightarrow> u64 \<Rightarrow> (u32 \<Rightarrow> cpu \<Rightarrow> cpu) \<Rightarrow> cpu \<Rightarrow> cpu" where
  "call32 after_service var routine c =
     (let address = rd32 (cpu_mem c) var in routine address (enter_routine after_service address c))"

definition bios_service_wrapped :: "u64 \<Rightarrow> u64 \<Rightarrow> u32 \<Rightarrow> u64 \<Rightarrow> (u32 \<Rightarrow> cpu \<Rightarrow> cpu) \<Rightarrow> cpu \<Rightarrow> cpu" where
  "bios_service_wrapped gdt comp_mode after_service var routine =
     run [to_compatibility_mode comp_mode, call32 after_service var routine, to_long_mode gdt]"

text \<open>
  The routine of the firmware is code outside of the repository. What a call relies on: called with the 32-bit segments and
  without paging, it comes back as a near return does, in the same code segment, and leaves the eight bytes above its own
  return address alone, where its caller keeps the address to return to. Everything else, flags and mode bits included,
  is its own.
\<close>

definition firmware_call_ok :: "(cpu \<Rightarrow> cpu) \<Rightarrow> bool" where
  "firmware_call_ok f \<longleftrightarrow> (\<forall>c. cs_sel c = gdt64_code32 \<and> \<not> bit (cr0 c) 31 \<and> \<not> bit (msr c EFER) 8 \<longrightarrow>
     pc (f c) = ucast (rd32 (cpu_mem c) (gpr c RSP)) \<and> cs_sel (f c) = gdt64_code32 \<and> gpr (f c) RSP = gpr c RSP + 4 \<and>
     rd64 (cpu_mem (f c)) (gpr c RSP + 4) = rd64 (cpu_mem c) (gpr c RSP + 4))"

section \<open>What the processor reads from the tables\<close>

definition desc_present :: "memory \<Rightarrow> u64 \<Rightarrow> bool" where "desc_present m d \<longleftrightarrow> bit (m (d + 5)) 7"
definition desc_dpl :: "memory \<Rightarrow> u64 \<Rightarrow> u8" where "desc_dpl m d = drop_bit 5 (m (d + 5)) AND 3"
definition desc_segment :: "memory \<Rightarrow> u64 \<Rightarrow> bool" where "desc_segment m d \<longleftrightarrow> bit (m (d + 5)) 4"
definition desc_code :: "memory \<Rightarrow> u64 \<Rightarrow> bool" where "desc_code m d \<longleftrightarrow> bit (m (d + 5)) 3"
definition desc_long :: "memory \<Rightarrow> u64 \<Rightarrow> bool" where "desc_long m d \<longleftrightarrow> bit (m (d + 6)) 5"

definition desc_base64 :: "memory \<Rightarrow> u64 \<Rightarrow> u64" where
  "desc_base64 m d = ucast (m (d + 2)) OR push_bit 8 (ucast (m (d + 3))) OR push_bit 16 (ucast (m (d + 4))) OR
     push_bit 24 (ucast (m (d + 7))) OR push_bit 32 (ucast (rd32 m (d + 8)))"

definition desc_default :: "memory \<Rightarrow> u64 \<Rightarrow> bool" where "desc_default m d \<longleftrightarrow> bit (m (d + 6)) 6"
definition desc_granular :: "memory \<Rightarrow> u64 \<Rightarrow> bool" where "desc_granular m d \<longleftrightarrow> bit (m (d + 6)) 7"

definition desc_limit :: "memory \<Rightarrow> u64 \<Rightarrow> u32" where
  "desc_limit m d = ucast (m d) OR push_bit 8 (ucast (m (d + 1))) OR push_bit 16 (ucast (m (d + 6) AND 0xf))"

definition desc_base32 :: "memory \<Rightarrow> u64 \<Rightarrow> u32" where
  "desc_base32 m d = ucast (m (d + 2)) OR push_bit 8 (ucast (m (d + 3))) OR push_bit 16 (ucast (m (d + 4))) OR
     push_bit 24 (ucast (m (d + 7)))"

text \<open>A busy 64-bit task state segment of the length of the one in the kernel, and the flat 32-bit segments.\<close>

definition busy_tss :: "memory \<Rightarrow> u64 \<Rightarrow> bool" where
  "busy_tss m d \<longleftrightarrow> desc_present m d \<and> m (d + 5) AND 0x1f = 0xb \<and> desc_dpl m d = 0 \<and> desc_limit m d = 103"

definition flat32 :: "memory \<Rightarrow> u64 \<Rightarrow> bool" where
  "flat32 m d \<longleftrightarrow> desc_present m d \<and> desc_segment m d \<and> desc_dpl m d = 0 \<and> \<not> desc_long m d \<and> desc_default m d \<and>
     desc_granular m d \<and> desc_limit m d = 0xfffff \<and> desc_base32 m d = 0"

definition long_code_segment :: "memory \<Rightarrow> u64 \<Rightarrow> u8 \<Rightarrow> bool" where
  "long_code_segment m d dpl \<longleftrightarrow>
     desc_present m d \<and> desc_segment m d \<and> desc_code m d \<and> desc_long m d \<and> desc_dpl m d = dpl"

definition data_segment :: "memory \<Rightarrow> u64 \<Rightarrow> u8 \<Rightarrow> bool" where
  "data_segment m d dpl \<longleftrightarrow> desc_present m d \<and> desc_segment m d \<and> \<not> desc_code m d \<and> desc_dpl m d = dpl"

definition tss_rsp0 :: "memory \<Rightarrow> u64 \<Rightarrow> u64" where "tss_rsp0 m tss = rd64 m (tss + 4)"
definition tss_ist :: "memory \<Rightarrow> u64 \<Rightarrow> u8 \<Rightarrow> u64" where "tss_ist m tss n = rd64 m (tss + 28 + 8 * ucast n)"

section \<open>Contents of the tables\<close>

lemma holds_append: "holds m a (xs @ ys) \<longleftrightarrow> holds m a xs \<and> holds m (a + of_nat (length xs)) ys"
proof (intro iffI conjI)
  assume h: "holds m a (xs @ ys)"
  show "holds m a xs" unfolding holds_def
  proof (intro allI impI)
    fix i assume "i < length xs"
    then show "m (a + of_nat i) = xs ! i" using h [unfolded holds_def, rule_format, of i] by (simp add: nth_append)
  qed
  show "holds m (a + of_nat (length xs)) ys" unfolding holds_def
  proof (intro allI impI)
    fix i assume "i < length ys"
    then show "m (a + of_nat (length xs) + of_nat i) = ys ! i"
      using h [unfolded holds_def, rule_format, of "length xs + i"] by (simp add: add.assoc)
  qed
next
  assume h: "holds m a xs \<and> holds m (a + of_nat (length xs)) ys"
  show "holds m a (xs @ ys)" unfolding holds_def
  proof (intro allI impI)
    fix i assume i: "i < length (xs @ ys)"
    show "m (a + of_nat i) = (xs @ ys) ! i"
    proof (cases "i < length xs")
      case True
      then show ?thesis using h by (simp add: holds_def nth_append)
    next
      case False
      then have "(of_nat i :: u64) = of_nat (length xs) + of_nat (i - length xs)" by (simp flip: of_nat_add)
      then have at: "a + of_nat i = a + of_nat (length xs) + of_nat (i - length xs)" by (simp only: add.assoc)
      have "i - length xs < length ys" using False i by simp
      then have "m (a + of_nat (length xs) + of_nat (i - length xs)) = ys ! (i - length xs)" using h by (simp add: holds_def)
      then show ?thesis unfolding at using False by (simp add: nth_append)
    qed
  qed
qed

lemma holds_cong: "holds m a bs \<Longrightarrow> (\<And>i. i < length bs \<Longrightarrow> m' (a + of_nat i) = m (a + of_nat i)) \<Longrightarrow> holds m' a bs"
  by (simp add: holds_def)

lemma length_dq [simp]: "length (dq v) = 8"
  by (simp add: dq_def)

lemma wr64_byte:
  assumes "i < 8"
  shows "wr64 a v m (a + of_nat i) = ucast (drop_bit (8 * i) v)"
proof -
  have byte: "(ucast (drop_bit 8 (ucast v :: u16)) :: u8) = ucast (drop_bit 8 v)"
    "(ucast (ucast (drop_bit 16 (ucast v :: u32)) :: u16) :: u8) = ucast (drop_bit 16 v)"
    "(ucast (drop_bit 8 (ucast (drop_bit 16 (ucast v :: u32)) :: u16)) :: u8) = ucast (drop_bit 24 v)"
    "(ucast (ucast v :: u16) :: u8) = ucast v" for v :: u64
    by (rule bit_word_eqI; simp add: bit_simps)+
  have cases: "i = 0 \<or> i = 1 \<or> i = 2 \<or> i = 3 \<or> i = 4 \<or> i = 5 \<or> i = 6 \<or> i = 7" using assms by linarith
  have s: "(ucast (ucast w :: u32) :: u16) = ucast w" for w :: u64 by (rule bit_word_eqI) (simp add: bit_simps)
  show ?thesis
    using cases byte [of v] byte [of "drop_bit 32 v"]
    by (elim disjE) (simp_all add: wr64_def wr32_def wr16_apply s add.commute [of a])
qed

lemma rd64_dq:
  assumes "holds m a (dq v)"
  shows "rd64 m a = v"
proof -
  have "rd64 m a = rd64 (wr64 a v m) a"
  proof (rule rd64_cong)
    fix x assume "x \<in> area a 8"
    then have "unat (x - a) < 8" by (simp add: area_def)
    moreover have "x = a + of_nat (unat (x - a))" by simp
    ultimately show "m x = wr64 a v m x"
      using wr64_byte [of "unat (x - a)" a v m] assms [unfolded holds_def, rule_format, of "unat (x - a)"]
      by (simp add: dq_def)
  qed
  then show ?thesis by (simp only: rd64_wr64)
qed

lemma tss_stacks:
  assumes "holds m tss (TSS64 stack_bottom)"
  shows "tss_rsp0 m tss = stack_top stack_bottom" "tss_ist m tss 1 = ist_stack1 stack_bottom"
    "tss_ist m tss 2 = ist_stack2 stack_bottom"
proof -
  have "holds m (tss + 4) (dq (stack_top stack_bottom))" "holds m (tss + 36) (dq (ist_stack1 stack_bottom))"
    "holds m (tss + 44) (dq (ist_stack2 stack_bottom))"
    using assms unfolding TSS64_def holds_append by (simp_all add: add.assoc)
  then show "tss_rsp0 m tss = stack_top stack_bottom" "tss_ist m tss 1 = ist_stack1 stack_bottom"
    "tss_ist m tss 2 = ist_stack2 stack_bottom"
    by (simp_all add: tss_rsp0_def tss_ist_def rd64_dq add.assoc)
qed

lemma gdt64_eval:
  "gdt64 = [0,0,0,0,0,0,0,0, 0,0,0,0,0,0x9a,0xa0,0, 0,0,0,0,0,0x92,0xa0,0, 0,0,0,0,0,0,0,0, 0,0,0,0,0,0xf2,0xa0,0,
     0,0,0,0,0,0xfa,0xa0,0, 103,0,0,0,0,0x89,0xa0,0, 0,0,0,0,0,0,0,0, 0xff,0xff,0,0,0,0x9a,0xcf,0, 0xff,0xff,0,0,0,0x92,0xcf,0]"
  by code_simp

lemma set_tss_result:
  "set_tss gdt tss c = (set_reg RBX (gdt + 0x30) (set_reg RAX (drop_bit 32 tss) c))
     \<lparr>cpu_mem := wr32 (gdt + 0x38) (ucast (drop_bit 32 tss)) ((wr16 (gdt + 0x32) (ucast tss) (cpu_mem c))
        (gdt + 0x34 := ucast (drop_bit 16 tss), gdt + 0x37 := ucast (drop_bit 24 tss)))\<rparr>"
  by (simp add: set_tss_def set_reg_def shr_reg_def store8_def store16_def store32_def low_def fun_upd_twist add.commute [of gdt])

text \<open>\<open>set_tss\<close> changes the base of its descriptor only.\<close>

lemma set_tss_other:
  assumes "unat (x - gdt) \<notin> {0x32, 0x33, 0x34, 0x37} \<union> {0x38..<0x3c}"
  shows "cpu_mem (set_tss gdt tss c) x = cpu_mem c x"
proof -
  have ne: "x \<noteq> gdt + of_nat k" if "k \<in> {0x32, 0x33, 0x34, 0x37} \<union> {0x38..<0x3c}" for k
    using assms that by (auto simp: unat_of_nat)
  have far: "4 \<le> unat (x - (gdt + 0x38))"
  proof (rule ccontr)
    assume "\<not> 4 \<le> unat (x - (gdt + 0x38))"
    moreover have "x = gdt + of_nat (0x38 + unat (x - (gdt + 0x38)))" by simp
    ultimately show False using ne [of "0x38 + unat (x - (gdt + 0x38))"] by simp
  qed
  show ?thesis
    using ne [of "0x32"] ne [of "0x33"] ne [of "0x34"] ne [of "0x37"]
    by (simp add: set_tss_result wr32_other [OF far] wr16_apply add.assoc)
qed

lemma set_tss_base: "desc_base64 (cpu_mem (set_tss gdt tss c)) (gdt + 0x30) = tss"
proof -
  have near: "wr32 (gdt + 0x38) v m (gdt + of_nat k) = m (gdt + of_nat k)" if "k < 0x38" for v m k
  proof (rule wr32_other)
    have "unat (of_nat k - 0x38 :: u64) = 2 ^ 64 - 0x38 + k" using that by (simp add: unat_sub_if' unat_of_nat)
    then show "4 \<le> unat (gdt + of_nat k - (gdt + 0x38))" by simp
  qed
  have "desc_base64 (cpu_mem (set_tss gdt tss c)) (gdt + 0x30) =
      ucast (ucast (ucast tss :: u16) :: u8) OR push_bit 8 (ucast (ucast (drop_bit 8 (ucast tss :: u16)) :: u8)) OR
      push_bit 16 (ucast (ucast (drop_bit 16 tss) :: u8)) OR push_bit 24 (ucast (ucast (drop_bit 24 tss) :: u8)) OR
      push_bit 32 (ucast (ucast (drop_bit 32 tss) :: u32))"
    using near [of "0x32"] near [of "0x33"] near [of "0x34"] near [of "0x37"]
    by (simp add: desc_base64_def set_tss_result wr16_apply add.assoc)
  also have "\<dots> = tss"
  proof (rule bit_word_eqI)
    fix n assume "n < LENGTH(64)"
    then show "bit (ucast (ucast (ucast tss :: u16) :: u8) OR push_bit 8 (ucast (ucast (drop_bit 8 (ucast tss :: u16)) :: u8)) OR
      push_bit 16 (ucast (ucast (drop_bit 16 tss) :: u8)) OR push_bit 24 (ucast (ucast (drop_bit 24 tss) :: u8)) OR
      push_bit 32 (ucast (ucast (drop_bit 32 tss) :: u32)) :: u64) n = bit tss n"
      by (cases "32 \<le> n"; cases "24 \<le> n"; cases "16 \<le> n"; cases "8 \<le> n") (auto simp: bit_simps)
  qed
  finally show ?thesis .
qed

lemma tss_selector: "ucast ((x :: u64) AND - 65536 OR 48) = (48 :: u16)"
proof -
  have m: "(- 65536 :: u64) = NOT (mask 16)" by (simp add: mask_eq_exp_minus_1)
  have "ucast ((x :: u64) AND - 65536 OR 48) = (ucast (48 :: u64) :: u16)"
    by (auto intro!: bit_word_eqI simp: m bit_or_iff bit_and_iff bit_not_iff bit_mask_iff bit_unsigned_iff simp del: unsigned_numeral)
  then show ?thesis by simp
qed

text \<open>The state before the task register is loaded, and the descriptor tables in its memory.\<close>

definition before_ltr :: "u64 \<Rightarrow> u64 \<Rightarrow> u64 \<Rightarrow> u64 \<Rightarrow> cpu \<Rightarrow> cpu" where
  "before_ltr gdt tss stack_bottom after_call = run
     [cli, set_reg RSP (stack_top stack_bottom), push_val after_call, set_tss gdt tss, ret, load_gdt gdt,
      set_word RAX gdt64_tss]"

lemma before_ltr_state:
  "\<not> bit (eflags (before_ltr gdt tss stack_bottom after_call c)) 9"
  "gpr (before_ltr gdt tss stack_bottom after_call c) RSP = stack_top stack_bottom"
  "gdtr (before_ltr gdt tss stack_bottom after_call c) = (79, gdt)"
  "(ucast (gpr (before_ltr gdt tss stack_bottom after_call c) RAX) :: u16) = 0x30"
  "cpu_mem (before_ltr gdt tss stack_bottom after_call c) =
     cpu_mem (set_tss gdt tss (push_val after_call (set_reg RSP (stack_top stack_bottom) (cli c))))"
  by (simp_all add: before_ltr_def set_tss_result cli_def bit_and_iff bit_not_iff gdt64_eval ret_def push_val_def
      load_gdt_def set_word_def Let_def tss_selector)

lemma before_ltr_tables:
  assumes "holds (cpu_mem c) gdt gdt64" "holds (cpu_mem c) tss (TSS64 stack_bottom)" "area gdt 80 \<inter> area tss 104 = {}"
    "area (stack_top stack_bottom - 8) 8 \<inter> (area gdt 80 \<union> area tss 104) = {}"
  shows "holds (cpu_mem (before_ltr gdt tss stack_bottom after_call c)) tss (TSS64 stack_bottom)"
    and "k < 80 \<Longrightarrow> k \<notin> {0x32, 0x33, 0x34, 0x37} \<union> {0x38..<0x3c} \<Longrightarrow>
      cpu_mem (before_ltr gdt tss stack_bottom after_call c) (gdt + of_nat k) = gdt64 ! k"
proof -
  let ?m = "cpu_mem (before_ltr gdt tss stack_bottom after_call c)"
  let ?base = "{0x32, 0x33, 0x34, 0x37} \<union> {0x38..<0x3c} :: nat set"
  have pushed: "cpu_mem (push_val after_call (set_reg RSP (stack_top stack_bottom) (cli c))) x = cpu_mem c x"
    if "x \<in> area gdt 80 \<union> area tss 104" for x
  proof -
    have "x \<notin> area (stack_top stack_bottom - 8) 8" using that assms(4) by blast
    then show ?thesis by (simp add: push_val_def Let_def cli_def wr64_other area_def)
  qed
  have keep: "?m x = cpu_mem c x" if "unat (x - gdt) \<notin> ?base" "x \<in> area gdt 80 \<union> area tss 104" for x
    using set_tss_other [OF that(1)] pushed [OF that(2)] by (simp add: before_ltr_state(5))
  show "holds ?m tss (TSS64 stack_bottom)"
  proof (rule holds_cong [OF assms(2)], rule keep)
    fix i assume "i < length (TSS64 stack_bottom)"
    then have i: "tss + of_nat i \<in> area tss 104" by (simp add: TSS64_def area_def unat_of_nat)
    then show "tss + of_nat i \<in> area gdt 80 \<union> area tss 104" by simp
    have "tss + of_nat i \<notin> area gdt 80" using assms(3) i by blast
    then show "unat (tss + of_nat i - gdt) \<notin> ?base" by (auto simp: area_def)
  qed
  assume k: "k < 80" "k \<notin> ?base"
  have "?m (gdt + of_nat k) = cpu_mem c (gdt + of_nat k)"
    by (rule keep) (use k in \<open>simp_all add: unat_of_nat area_def\<close>)
  then show "?m (gdt + of_nat k) = gdt64 ! k" using assms(1) k(1) by (simp add: holds_def gdt64_eval)
qed

text \<open>The task register is loaded, and the descriptor becomes busy.\<close>

lemma start_loads:
  assumes "cpu_mem (before_ltr gdt tss stack_bottom after_call c) (gdt + 0x35) = 0x89"
  shows "start gdt tss stack_bottom after_call kernel_main c = Some ((before_ltr gdt tss stack_bottom after_call c)
    \<lparr>tr_sel := 0x30, cpu_mem := (cpu_mem (before_ltr gdt tss stack_bottom after_call c))(gdt + 0x35 := 0x8b),
      pc := kernel_main\<rparr>)"
  using assms unfolding start_def before_ltr_def [symmetric] ltr_def Let_def before_ltr_state(3,4)
  by (simp add: add.assoc)

lemma desc_base64_busy: "desc_base64 (m(d + 5 := v)) d = desc_base64 m d"
  by (simp add: desc_base64_def rd32_def rd16_def add.assoc)

lemma gdt64_descriptors:
  assumes "\<And>k. k < 80 \<Longrightarrow> k \<notin> {0x32, 0x33, 0x34, 0x37} \<union> {0x38..<0x3c} \<Longrightarrow> m (gdt + of_nat k) = gdt64 ! k"
  shows "long_code_segment m (gdt + 8) 0" "data_segment m (gdt + 0x10) 0" "long_code_segment m (gdt + 0x28) 3"
    "data_segment m (gdt + 0x20) 3" "flat32 m (gdt + 0x40)" "desc_code m (gdt + 0x40)" "flat32 m (gdt + 0x48)"
    "\<not> desc_code m (gdt + 0x48)" "busy_tss (m(gdt + 0x35 := 0x8b)) (gdt + 0x30)"
proof -
  note seg = long_code_segment_def data_segment_def flat32_def desc_present_def desc_segment_def desc_code_def desc_long_def
    desc_dpl_def desc_default_def desc_granular_def desc_limit_def desc_base32_def
  have byte: "m (gdt + 0x0d) = 0x9a" "m (gdt + 0x0e) = 0xa0" "m (gdt + 0x15) = 0x92" "m (gdt + 0x25) = 0xf2"
    "m (gdt + 0x2d) = 0xfa" "m (gdt + 0x2e) = 0xa0" "m (gdt + 0x30) = 103" "m (gdt + 0x31) = 0" "m (gdt + 0x36) = 0xa0"
    "m (gdt + 0x40) = 0xff" "m (gdt + 0x41) = 0xff" "m (gdt + 0x42) = 0" "m (gdt + 0x43) = 0" "m (gdt + 0x44) = 0"
    "m (gdt + 0x45) = 0x9a" "m (gdt + 0x46) = 0xcf" "m (gdt + 0x47) = 0"
    "m (gdt + 0x48) = 0xff" "m (gdt + 0x49) = 0xff" "m (gdt + 0x4a) = 0" "m (gdt + 0x4b) = 0" "m (gdt + 0x4c) = 0"
    "m (gdt + 0x4d) = 0x92" "m (gdt + 0x4e) = 0xcf" "m (gdt + 0x4f) = 0"
    using assms [of "0x0d"] assms [of "0x0e"] assms [of "0x15"] assms [of "0x25"] assms [of "0x2d"] assms [of "0x2e"]
      assms [of "0x30"] assms [of "0x31"] assms [of "0x36"] assms [of "0x40"] assms [of "0x41"] assms [of "0x42"]
      assms [of "0x43"] assms [of "0x44"] assms [of "0x45"] assms [of "0x46"] assms [of "0x47"] assms [of "0x48"]
      assms [of "0x49"] assms [of "0x4a"] assms [of "0x4b"] assms [of "0x4c"] assms [of "0x4d"] assms [of "0x4e"]
      assms [of "0x4f"]
    by (simp_all add: gdt64_eval)
  show "long_code_segment m (gdt + 8) 0" "data_segment m (gdt + 0x10) 0" "long_code_segment m (gdt + 0x28) 3"
    "data_segment m (gdt + 0x20) 3" "flat32 m (gdt + 0x40)" "desc_code m (gdt + 0x40)" "flat32 m (gdt + 0x48)"
    "\<not> desc_code m (gdt + 0x48)"
    by (simp_all add: seg byte add.assoc bit_numeral_rec)
  show "busy_tss (m(gdt + 0x35 := 0x8b)) (gdt + 0x30)"
    by (simp add: busy_tss_def seg byte add.assoc bit_numeral_rec)
qed

section \<open>Properties\<close>

text \<open>C21:
  The start hands the processor over as the rest of the kernel expects it: interrupts off, on the boot stack, at
  \<open>kernel_main\<close>; the task register is loaded without a fault and names the state segment, now busy, which holds the stack
  for interrupts from user mode and the stacks for the non maskable interrupt and the double fault; the selectors that
  the gates (8), \<open>syscall\<close> (8, 16) and \<open>sysret\<close> (0x28, 0x20) load name a long code segment and a data segment of the right
  privilege; and the two that the calls of the firmware load name flat 32-bit segments.
\<close>

theorem start_tables:
  assumes "holds (cpu_mem c) gdt gdt64" "holds (cpu_mem c) tss (TSS64 stack_bottom)" "area gdt 80 \<inter> area tss 104 = {}"
    "area (stack_top stack_bottom - 8) 8 \<inter> (area gdt 80 \<union> area tss 104) = {}"
  shows "\<exists>s. start gdt tss stack_bottom after_call kernel_main c = Some s \<and>
    \<not> bit (eflags s) 9 \<and> gpr s RSP = stack_top stack_bottom \<and> pc s = kernel_main \<and> gdtr s = (79, gdt) \<and>
    tr_sel s = gdt64_tss \<and> busy_tss (cpu_mem s) (gdt + ucast (tr_sel s)) \<and> desc_base64 (cpu_mem s) (gdt + ucast (tr_sel s)) = tss \<and>
    tss_rsp0 (cpu_mem s) tss = stack_top stack_bottom \<and>
    tss_ist (cpu_mem s) tss IST_NO_MASKABLE_INT = ist_stack1 stack_bottom \<and>
    tss_ist (cpu_mem s) tss IST_DOUBLE_FAULT = ist_stack2 stack_bottom \<and>
    long_code_segment (cpu_mem s) (gdt + ucast CODE_SEG) 0 \<and> data_segment (cpu_mem s) (gdt + 0x10) 0 \<and>
    long_code_segment (cpu_mem s) (gdt + 0x28) 3 \<and> data_segment (cpu_mem s) (gdt + 0x20) 3 \<and>
    flat32 (cpu_mem s) (gdt + ucast gdt64_code32) \<and> desc_code (cpu_mem s) (gdt + ucast gdt64_code32) \<and>
    flat32 (cpu_mem s) (gdt + ucast gdt64_data32) \<and> \<not> desc_code (cpu_mem s) (gdt + ucast gdt64_data32)"
proof -
  let ?b = "before_ltr gdt tss stack_bottom after_call c"
  let ?m = "(cpu_mem ?b)(gdt + 0x35 := 0x8b)"
  note t = before_ltr_tables [OF assms, where after_call = after_call]
  have start: "start gdt tss stack_bottom after_call kernel_main c = Some (?b\<lparr>tr_sel := 0x30, cpu_mem := ?m, pc := kernel_main\<rparr>)"
    by (rule start_loads) (use t(2) [of "0x35"] in \<open>simp add: gdt64_eval\<close>)
  have "holds ?m tss (TSS64 stack_bottom)"
  proof (rule holds_cong [OF t(1)])
    fix i assume "i < length (TSS64 stack_bottom)"
    then have "tss + of_nat i \<in> area tss 104" by (simp add: TSS64_def area_def unat_of_nat)
    moreover have "gdt + 0x35 \<in> area gdt 80" by (simp add: area_def)
    ultimately have "tss + of_nat i \<noteq> gdt + 0x35" using assms(3) by (metis disjoint_iff)
    then show "?m (tss + of_nat i) = cpu_mem ?b (tss + of_nat i)" by simp
  qed
  note stacks = tss_stacks [OF this]
  note seg = gdt64_descriptors [OF t(2)]
  have new: "?m (gdt + k) = cpu_mem ?b (gdt + k)" if "k \<noteq> 0x35" for k using that by simp
  have segs: "long_code_segment ?m (gdt + 8) 0 \<and> data_segment ?m (gdt + 0x10) 0 \<and> long_code_segment ?m (gdt + 0x28) 3 \<and>
      data_segment ?m (gdt + 0x20) 3 \<and> flat32 ?m (gdt + 0x40) \<and> desc_code ?m (gdt + 0x40) \<and> flat32 ?m (gdt + 0x48) \<and>
      \<not> desc_code ?m (gdt + 0x48) \<and> busy_tss ?m (gdt + 0x30)"
    using seg by (simp add: long_code_segment_def data_segment_def flat32_def desc_present_def desc_segment_def desc_code_def
        desc_long_def desc_dpl_def desc_default_def desc_granular_def desc_limit_def desc_base32_def add.assoc)
  have "desc_base64 ?m (gdt + 0x30) = tss"
    using desc_base64_busy [of "cpu_mem ?b" "gdt + 0x30"] set_tss_base [of gdt tss] by (simp add: before_ltr_state(5) add.assoc)
  then show ?thesis using stacks segs before_ltr_state [of gdt tss stack_bottom after_call c] unfolding start by simp
qed

definition boot_image :: "memory" where
  "boot_image x = (if x \<in> area 0x101000 80 then gdt64 ! unat (x - 0x101000)
     else if x \<in> area 0x102000 104 then TSS64 0x110000 ! unat (x - 0x102000) else 0)"

definition boot_cpu :: cpu where
  "boot_cpu = \<lparr>gpr = \<lambda>_. 0, pc = 0x100000, eflags = 0x202, cr0 = 0x80000011, cr3 = 0x9000, cs_sel = 0x28, ss_sel = 0x30,
     data_sel = 0x30, tr_sel = 0, gdtr = (0, 0), msr = \<lambda>_. 0, cpu_mem = boot_image\<rparr>"

lemma boot_image_holds: "holds boot_image 0x101000 gdt64" "holds boot_image 0x102000 (TSS64 0x110000)"
proof -
  show "holds boot_image 0x101000 gdt64"
    by (simp add: holds_def boot_image_def area_def unat_of_nat gdt64_eval)
  have apart: "(0x102000 + of_nat i :: u64) \<notin> area 0x101000 80" if "i < 104" for i
  proof -
    have "(0x102000 + of_nat i - 0x101000 :: u64) = of_nat (0x1000 + i)" by simp
    then have "unat (0x102000 + of_nat i - 0x101000 :: u64) = 0x1000 + i" using that by (simp only: unat_of_nat) simp
    then show ?thesis by (simp add: area_def)
  qed
  show "holds boot_image 0x102000 (TSS64 0x110000)"
    unfolding holds_def
  proof (intro allI impI)
    fix i assume "i < length (TSS64 0x110000)"
    then have i: "i < 104" by (simp add: TSS64_def)
    then have "unat (of_nat i :: u64) = i" by (simp add: unat_of_nat)
    then show "boot_image (0x102000 + of_nat i) = TSS64 0x110000 ! i"
      using apart [OF i] i by (simp add: boot_image_def area_def)
  qed
qed

lemma areas_apart:
  fixes a b :: u64
  assumes "unat a + n \<le> unat b" "unat b + k \<le> 2 ^ 64"
  shows "area a n \<inter> area b k = {}"
proof -
  have "x \<notin> area b k" if x: "x \<in> area a n" for x
  proof -
    have "unat x = (unat a + unat (x - a)) mod 2 ^ 64" using unat_word_ariths(1) [of a "x - a"] by simp
    then have "unat x = unat a + unat (x - a)" using x assms by (simp add: area_def)
    then have lt: "unat x < unat b" using x assms(1) by (simp add: area_def)
    then have "unat (x - b) = 2 ^ 64 + unat x - unat b" by (simp add: unat_sub_if')
    then show ?thesis using assms(2) by (simp add: area_def)
  qed
  then show ?thesis by blast
qed

theorem start_tables_witness:
  "\<exists>s. start 0x101000 0x102000 0x110000 0x100010 0x100800 boot_cpu = Some s \<and> tr_sel s = 0x30 \<and>
     desc_base64 (cpu_mem s) (0x101000 + 0x30) = 0x102000 \<and> busy_tss (cpu_mem s) (0x101000 + 0x30) \<and>
     \<not> bit (eflags s) 9 \<and> tss_rsp0 (cpu_mem s) 0x102000 = 0x116000"
proof -
  have "area 0x101000 80 \<inter> area 0x102000 104 = {}" "area 0x101000 80 \<inter> area 0x115ff8 8 = {}"
    "area 0x102000 104 \<inter> area 0x115ff8 8 = {}"
    by (rule areas_apart; simp)+
  then obtain s where s: "start 0x101000 0x102000 0x110000 0x100010 0x100800 boot_cpu = Some s" "\<not> bit (eflags s) 9"
    "tr_sel s = 0x30" "busy_tss (cpu_mem s) (0x101000 + ucast (tr_sel s))"
    "desc_base64 (cpu_mem s) (0x101000 + ucast (tr_sel s)) = 0x102000" "tss_rsp0 (cpu_mem s) 0x102000 = stack_top 0x110000"
    using start_tables [where c = boot_cpu and gdt = "0x101000" and tss = "0x102000" and stack_bottom = "0x110000" and
        after_call = "0x100010" and kernel_main = "0x100800"] boot_image_holds
    by (auto simp: boot_cpu_def [THEN arg_cong, of cpu_mem] stack_top_def Int_Un_distrib Int_commute)
  show ?thesis
    using s(1,2,4-6) unfolding s(3) by (intro exI [of _ s]) (simp add: s(3) stack_top_def)
qed

lemma rd32_low: "rd32 m a = ucast (rd64 m a)"
  by (rule bit_word_eqI) (auto simp: rd64_def bit_simps)

lemma split_halves: "push_bit 32 (ucast (ucast (drop_bit 32 v) :: u32)) OR ucast (ucast v :: u32) = (v :: u64)"
  by (rule bit_word_eqI) (auto simp: bit_simps)

lemma compatibility_state:
  "gpr (to_compatibility_mode target c) RSP = gpr c RSP"
  "cr0 (to_compatibility_mode target c) = ucast (ucast (cr0 c) AND NOT 0x80000000 :: u32)"
  "cr3 (to_compatibility_mode target c) = cr3 c"
  "msr (to_compatibility_mode target c) EFER =
     push_bit 32 (ucast (ucast (drop_bit 32 (msr c EFER)) :: u32)) OR ucast (ucast (msr c EFER) AND NOT 0x100 :: u32)"
  "eflags (to_compatibility_mode target c) = eflags c AND NOT 0x200"
  "pc (to_compatibility_mode target c) = ucast (ucast target :: u32)"
  "cs_sel (to_compatibility_mode target c) = 0x40" "ss_sel (to_compatibility_mode target c) = 0x48"
  "data_sel (to_compatibility_mode target c) = 0x48"
  "rd64 (cpu_mem (to_compatibility_mode target c)) (gpr c RSP) = rd64 (cpu_mem c) (gpr c RSP)"
  "\<forall>x. x \<notin> area (gpr c RSP - 16) 16 \<longrightarrow> cpu_mem (to_compatibility_mode target c) x = cpu_mem c x"
proof -
  let ?a = "gpr c RSP"
  let ?m = "wr64 (?a - 16) (ucast (ucast target :: u32)) (wr64 (?a - 8) 0x40 (cpu_mem c))"
  have first: "rd64 ?m (?a - 8) = 0x40"
  proof -
    have "rd64 ?m (?a - 8) = rd64 (wr64 (?a - 8) 0x40 (cpu_mem c)) (?a - 8)"
      by (rule rd64_cong, rule wr64_other) (use cell_apart [of _ "?a - 16" 1] in \<open>simp add: algebra_simps\<close>)
    then show ?thesis by (simp add: rd64_wr64)
  qed
  have out: "?m x = cpu_mem c x" if "x \<notin> area (?a - 16) 16" for x
  proof -
    have far: "16 \<le> unat (x - (?a - 16))" using that by (simp add: area_def)
    have "unat (x - (?a - 16)) = (unat (x - (?a - 8)) + 8) mod 2 ^ 64"
      using unat_cell [of 1 x "?a - 16"] by (simp add: algebra_simps)
    then have "unat (x - (?a - 16)) \<le> unat (x - (?a - 8)) + 8" by (simp only: mod_less_eq_dividend)
    then have "16 \<le> unat (x - (?a - 8)) + 8" by (rule order_trans [OF far])
    then have "8 \<le> unat (x - (?a - 8))" by simp
    then show ?thesis using far by (simp add: wr64_other)
  qed
  have keep: "rd64 ?m ?a = rd64 (cpu_mem c) ?a"
  proof (rule rd64_cong, rule out)
    fix x assume "x \<in> area ?a 8"
    then show "x \<notin> area (?a - 16) 16"
      using unat_cell [of 2 x "?a - 16"] by (simp add: area_def)
  qed
  note steps = to_compatibility_mode_def push_def push_val_def Let_def set_low_def retfq_def cli_def load_data_segments_def
    set_word_def cr0_to_eax_def eax_to_cr0_def rdmsr_instr_def wrmsr_instr_def and_eax_def low_def
  have narrow: "(ucast (ucast w :: u64) :: u32) = w" for w :: u32 by simp
  show "gpr (to_compatibility_mode target c) RSP = gpr c RSP"
    "cr0 (to_compatibility_mode target c) = ucast (ucast (cr0 c) AND NOT 0x80000000 :: u32)"
    "cr3 (to_compatibility_mode target c) = cr3 c"
    "msr (to_compatibility_mode target c) EFER =
       push_bit 32 (ucast (ucast (drop_bit 32 (msr c EFER)) :: u32)) OR ucast (ucast (msr c EFER) AND NOT 0x100 :: u32)"
    "eflags (to_compatibility_mode target c) = eflags c AND NOT 0x200"
    "pc (to_compatibility_mode target c) = ucast (ucast target :: u32)"
    "cs_sel (to_compatibility_mode target c) = 0x40" "ss_sel (to_compatibility_mode target c) = 0x48"
    "data_sel (to_compatibility_mode target c) = 0x48"
    "rd64 (cpu_mem (to_compatibility_mode target c)) (gpr c RSP) = rd64 (cpu_mem c) (gpr c RSP)"
    "\<forall>x. x \<notin> area (gpr c RSP - 16) 16 \<longrightarrow> cpu_mem (to_compatibility_mode target c) x = cpu_mem c x"
    by (simp_all add: steps first keep rd64_wr64 narrow out)
qed

lemma long_mode_state:
  "gpr (to_long_mode gdt c) RSP = gpr c RSP + 8" "pc (to_long_mode gdt c) = rd64 (cpu_mem c) (gpr c RSP)"
  "cr0 (to_long_mode gdt c) = ucast (ucast (cr0 c) OR 0x80000000 :: u32)" "cr3 (to_long_mode gdt c) = cr3 c"
  "msr (to_long_mode gdt c) EFER =
     push_bit 32 (ucast (ucast (drop_bit 32 (msr c EFER)) :: u32)) OR ucast (ucast (msr c EFER) OR 0x100 :: u32)"
  "eflags (to_long_mode gdt c) = eflags c" "cs_sel (to_long_mode gdt c) = 8" "ss_sel (to_long_mode gdt c) = 0x10"
  "data_sel (to_long_mode gdt c) = 0x10" "gdtr (to_long_mode gdt c) = (79, gdt)"
  "cpu_mem (to_long_mode gdt c) = cpu_mem c"
  "r \<notin> {RAX, RCX, RDX, RSP} \<Longrightarrow> gpr (to_long_mode gdt c) r = gpr c r"
  by (simp_all add: to_long_mode_def set_low_def rdmsr_instr_def wrmsr_instr_def or_eax_def low_def cr0_to_eax_def
      eax_to_cr0_def load_gdt_def load_data_segments_def set_word_def ret_def Let_def gdt64_eval)

lemma bit_mode: "bit (0x80000000 :: u32) n \<longleftrightarrow> n = 31" "bit (0x100 :: u32) n \<longleftrightarrow> n = 8" "bit (0x100 :: u64) n \<longleftrightarrow> n = 8"
proof -
  have "(0x80000000 :: u32) = 2 ^ 31" "(0x100 :: u32) = 2 ^ 8" "(0x100 :: u64) = 2 ^ 8" by simp_all
  then show "bit (0x80000000 :: u32) n \<longleftrightarrow> n = 31" "bit (0x100 :: u32) n \<longleftrightarrow> n = 8" "bit (0x100 :: u64) n \<longleftrightarrow> n = 8"
    by (auto simp only: bit_exp_iff) simp_all
qed

lemma efer_long: "push_bit 32 (ucast (ucast (drop_bit 32 v) :: u32)) OR ucast (ucast v OR 0x100 :: u32) = (v OR 0x100 :: u64)"
proof (rule bit_word_eqI)
  fix n assume "n < LENGTH(64)"
  then show "bit (push_bit 32 (ucast (ucast (drop_bit 32 v) :: u32)) OR ucast (ucast v OR 0x100 :: u32) :: u64) n = bit (v OR 0x100 :: u64) n"
    unfolding bit_or_iff bit_push_bit_iff bit_unsigned_iff bit_drop_bit_eq bit_mode by auto
qed

text \<open>The state in which the routine is entered: four bytes were pushed below the caller's return address.\<close>

lemma enter_routine_state:
  assumes "4 \<le> unat (gpr c RSP)" "unat (gpr c RSP) < 2 ^ 32"
  shows "gpr (enter_routine after_service address c) RSP = gpr c RSP - 4"
    "pc (enter_routine after_service address c) = ucast address"
    "rd32 (cpu_mem (enter_routine after_service address c)) (gpr c RSP - 4) = after_service"
    "rd64 (cpu_mem (enter_routine after_service address c)) (gpr c RSP) = rd64 (cpu_mem c) (gpr c RSP)"
    "cs_sel (enter_routine after_service address c) = cs_sel c" "ss_sel (enter_routine after_service address c) = ss_sel c"
    "data_sel (enter_routine after_service address c) = data_sel c" "cr0 (enter_routine after_service address c) = cr0 c"
    "msr (enter_routine after_service address c) = msr c" "eflags (enter_routine after_service address c) = eflags c"
proof -
  let ?a = "gpr c RSP"
  have l: "unat (ucast ?a :: u32) = unat ?a" using assms(2) by (simp add: unat_ucast_mod)
  then have "unat (ucast ?a - 4 :: u32) = unat ?a - 4" using assms(1) by (simp add: unat_sub word_le_nat_alt)
  moreover have "unat (ucast w :: u64) = unat w" for w :: u32
    using unat_lt2p [of w] by (simp add: unat_ucast_mod)
  ultimately have e: "ucast (ucast ?a - 4 :: u32) = ?a - 4"
    using assms(1) by (simp add: word_unat_eq_iff unat_sub word_le_nat_alt)
  have keep: "rd64 (wr32 (?a - 4) v m) ?a = rd64 m ?a" for v m
  proof (rule rd64_cong, rule wr32_other)
    fix x assume "x \<in> area ?a 8"
    then have "unat (x - ?a + 4) = unat (x - ?a) + 4" by (simp add: area_def unat_word_ariths)
    moreover have "x - (?a - 4) = x - ?a + 4" by (simp add: algebra_simps)
    ultimately show "4 \<le> unat (x - (?a - 4))" by (simp only:)
  qed
  show "gpr (enter_routine after_service address c) RSP = ?a - 4"
    "pc (enter_routine after_service address c) = ucast address"
    "rd32 (cpu_mem (enter_routine after_service address c)) (?a - 4) = after_service"
    "rd64 (cpu_mem (enter_routine after_service address c)) ?a = rd64 (cpu_mem c) ?a"
    "cs_sel (enter_routine after_service address c) = cs_sel c" "ss_sel (enter_routine after_service address c) = ss_sel c"
    "data_sel (enter_routine after_service address c) = data_sel c" "cr0 (enter_routine after_service address c) = cr0 c"
    "msr (enter_routine after_service address c) = msr c" "eflags (enter_routine after_service address c) = eflags c"
    by (simp_all add: enter_routine_def push32_def Let_def set_low_def low_def e keep rd32_wr32)
qed

text \<open>C35:
  A call of the firmware leaves long mode, runs the routine whose address was kept, and comes back: the routine is entered
  with the 32-bit segments, paging and long mode off, interrupts off and its return address on the stack; what it leaves in
  memory, in the flags, in cr3 and in the registers other than rax, rcx, rdx and rsp is what the caller finds; and behind
  the call the kernel is in its own segments again, with paging and long mode on, at the address its caller pushed.
\<close>

theorem firmware_call_returns:
  assumes "c = init_bios_services var address c0" "unat address < 2 ^ 32" "firmware_call_ok (routine (ucast address))"
    "unat target < 2 ^ 32" "area (gpr c RSP - 16) 16 \<inter> area var 8 = {}" "4 \<le> unat (gpr c RSP)" "unat (gpr c RSP) < 2 ^ 32"
  shows "let p = to_compatibility_mode target c;
      k = enter_routine after_service (ucast address) p; q = routine (ucast address) k;
      s = bios_service_wrapped gdt target after_service var routine c in
    pc p = target \<and> pc k = address \<and> cs_sel k = gdt64_code32 \<and> ss_sel k = gdt64_data32 \<and> data_sel k = gdt64_data32 \<and>
    \<not> bit (cr0 k) 31 \<and> \<not> bit (msr k EFER) 8 \<and> \<not> bit (eflags k) 9 \<and>
    gpr k RSP = gpr c RSP - 4 \<and> rd32 (cpu_mem k) (gpr k RSP) = after_service \<and> pc q = ucast after_service \<and>
    cpu_mem s = cpu_mem q \<and> eflags s = eflags q \<and> cr3 s = cr3 q \<and>
    gpr s = (gpr q)(RAX := gpr s RAX, RCX := gpr s RCX, RDX := gpr s RDX, RSP := gpr c RSP + 8) \<and>
    (ucast (cr0 s) :: u32) = ucast (cr0 q) OR 0x80000000 \<and> msr s EFER = msr q EFER OR 0x100 \<and>
    pc s = rd64 (cpu_mem c) (gpr c RSP) \<and>
    cs_sel s = gdt64_code \<and> ss_sel s = gdt64_data \<and> data_sel s = gdt64_data \<and> gdtr s = (79, gdt)"
proof -
  let ?p = "to_compatibility_mode target c" let ?s = "bios_service_wrapped gdt target after_service var routine c"
  define k where "k = enter_routine after_service (ucast address) ?p"
  define q where "q = routine (ucast address) k"
  note p = compatibility_state [where target = target and c = c]
  have clear: "\<not> bit (cr0 ?p) 31" "\<not> bit (msr ?p EFER) 8" "\<not> bit (eflags ?p) 9"
    unfolding p by (simp_all only: bit_simps bit_mode) (simp_all add: bit_exp_iff)
  have "rd64 (cpu_mem ?p) var = rd64 (cpu_mem c) var"
    by (rule rd64_cong, rule p(11) [rule_format]) (use assms(5) in blast)
  then have var: "rd64 (cpu_mem ?p) var = address" by (simp add: assms(1) init_bios_services_def rd64_wr64)
  then have s_def: "?s = to_long_mode gdt q"
    using rd32_low [of "cpu_mem ?p" var] by (simp add: bios_service_wrapped_def call32_def q_def k_def Let_def)
  note k = enter_routine_state [of ?p after_service "ucast address", unfolded p(1), OF assms(6,7), folded k_def]
  have "pc q = ucast (rd32 (cpu_mem k) (gpr k RSP)) \<and> gpr q RSP = gpr k RSP + 4 \<and>
      rd64 (cpu_mem q) (gpr k RSP + 4) = rd64 (cpu_mem k) (gpr k RSP + 4)"
    using assms(3) clear p(7) k(5,8,9) unfolding firmware_call_ok_def q_def by metis
  then have q: "pc q = ucast after_service" "gpr q RSP = gpr c RSP" "rd64 (cpu_mem q) (gpr c RSP) = rd64 (cpu_mem c) (gpr c RSP)"
    using k(1,3,4) p(10) by simp_all
  note s = long_mode_state [where gdt = gdt and c = q, folded s_def]
  have regs: "gpr ?s = (gpr q)(RAX := gpr ?s RAX, RCX := gpr ?s RCX, RDX := gpr ?s RDX, RSP := gpr c RSP + 8)"
    using s(1,12) q(2) by (auto simp: fun_eq_iff)
  have at: "ucast (ucast w :: u32) = w" if "unat w < 2 ^ 32" for w :: u64
    using that by (simp add: word_unat_eq_iff unsigned_ucast_eq unsigned_take_bit_eq take_bit_nat_eq_self)
  have low: "(ucast (cr0 ?s) :: u32) = ucast (cr0 q) OR 0x80000000" unfolding s(3) by simp
  have "pc ?p = target" "pc k = address" using at assms(2,4) p(6) k(2) by simp_all
  moreover have "cs_sel k = 0x40" "ss_sel k = 0x48" "data_sel k = 0x48" "\<not> bit (cr0 k) 31" "\<not> bit (msr k EFER) 8"
    "\<not> bit (eflags k) 9"
    using k p(7-9) clear by simp_all
  moreover have "pc ?s = rd64 (cpu_mem c) (gpr c RSP)" unfolding s(2) q(2) by (rule q(3))
  ultimately show ?thesis
    unfolding Let_def k_def [symmetric] q_def [symmetric]
    using k(1,3) q(1) regs low s(4-11) efer_long [of "msr q EFER"] by simp
qed

text \<open>A routine that leaves a value in a register and returns.\<close>

theorem firmware_call_returns_witness:
  "let s = bios_service_wrapped 0x101000 0x103000 0x103040 0x108000 (\<lambda>address c. (set_reg RSP (gpr c RSP + 4)
         (set_reg RBX (ucast address) c))\<lparr>pc := ucast (rd32 (cpu_mem c) (gpr c RSP))\<rparr>)
       (init_bios_services 0x108000 0x7e00 (boot_cpu\<lparr>gpr := \<lambda>_. 0x116000, msr := \<lambda>_. 0xd00\<rparr>)) in
   cs_sel s = 8 \<and> gpr s RBX = 0x7e00 \<and> gpr s RSP = 0x116008"
proof -
  let ?c = "init_bios_services 0x108000 0x7e00 (boot_cpu\<lparr>gpr := \<lambda>_. 0x116000, msr := \<lambda>_. 0xd00\<rparr>)"
  let ?r = "\<lambda>address c. (set_reg RSP (gpr c RSP + 4) (set_reg RBX (ucast (address :: u32)) c))
      \<lparr>pc := ucast (rd32 (cpu_mem c) (gpr c RSP))\<rparr>"
  have c: "gpr ?c RSP = 0x116000" by (simp add: init_bios_services_def)
  have "area 0x108000 8 \<inter> area (gpr ?c RSP - 16) 16 = {}" unfolding c by (rule areas_apart) simp_all
  then have apart: "area (gpr ?c RSP - 16) 16 \<inter> area 0x108000 8 = {}" by blast
  have ok: "firmware_call_ok (?r (ucast (0x7e00 :: u64)))" by (simp add: firmware_call_ok_def)
  have "unat (0x7e00 :: u64) < 2 ^ 32" "unat (0x103000 :: u64) < 2 ^ 32" "4 \<le> unat (gpr ?c RSP)" "unat (gpr ?c RSP) < 2 ^ 32"
    by (simp_all add: c)
  note call = firmware_call_returns [where routine = ?r, OF refl this(1) ok this(2) apart this(3,4), where after_service = "0x103040" and gdt = "0x101000"]
  let ?s = "bios_service_wrapped 0x101000 0x103000 0x103040 0x108000 ?r ?c"
  let ?k = "enter_routine 0x103040 (ucast (0x7e00 :: u64)) (to_compatibility_mode 0x103000 ?c)"
  have "cs_sel ?s = 8" using call unfolding Let_def by (elim conjE)
  moreover have g: "gpr ?s = (gpr (?r (ucast (0x7e00 :: u64)) ?k))
        (RAX := gpr ?s RAX, RCX := gpr ?s RCX, RDX := gpr ?s RDX, RSP := gpr ?c RSP + 8)"
    using call unfolding Let_def by (elim conjE)
  moreover have "gpr ?s RSP = 0x116008" using fun_cong [OF g, of RSP] unfolding c by simp
  moreover have "gpr ?s RBX = 0x7e00" using fun_cong [OF g, of RBX] by simp
  ultimately show ?thesis unfolding Let_def by blast
qed

end
