(* ===== verification/Spec2Isabelle.thy ===== *)
theory Spec2Isabelle
  imports Trap_Entry Ahci_Transfer Xhci_Rings Kernel Boot
begin

text \<open>
  A verification development for haiirOS, a small x86-64 kernel in C and assembly.

  \<^bold>\<open>The program.\<close> \<open>kernel_main\<close> (\<open>src/src/main.c\<close>) clears the screen, sets up memory from the boot
  loader's information, finds the ACPI tables, installs the interrupt descriptor table with either the APICs or the
  legacy controllers, enumerates PCI and starts the XHCI driver. Behind its halt loop stand the disk test, the addition of two
  tasks and the step to user mode, from where the system calls come back.

  \<^bold>\<open>Theories and sources.\<close>
  \<^item> \<open>Prelude\<close>: faults as values, sequencing, arrays with bounds, machine integers, operation systems (a locale
    of operations with an invariant). Not code of the kernel.
  \<^item> \<open>Console\<close>: \<open>io/io.c\<close>. \<open>Keycodes\<close>, \<open>Keyboard\<close>: \<open>io/input.h\<close>, \<open>io/input.c\<close>, \<open>io/keyboard/qwertz_keyboard.h\<close> and the
    two keyboard handlers.
  \<^item> \<open>Frames\<close>, \<open>Frame_Alloc\<close>, \<open>Memory\<close>: \<open>memory/phys.c\<close> (bitmap ranges; search and allocation; set-up, freeing, listing)
    and \<open>memory/memory.c\<close>.
  \<^item> \<open>Paging\<close>, \<open>Paging_Map\<close>: \<open>memory/paging.c\<close> (definitions and translation; correctness of the changing operations).
  \<^item> \<open>Tasks\<close>: \<open>proc/scheduler.c\<close>, \<open>proc/task.c\<close>. \<open>Syscalls\<close>: \<open>syscall/syscall.c\<close>, \<open>syscall.h\<close>.
  \<^item> \<open>Hardware\<close>: \<open>interrupt/asm.h\<close>, the interfaces of the devices, and a machine that provides them.
  \<^item> \<open>Pci\<close>: \<open>pci/pci.c\<close>. \<open>Acpi\<close>: \<open>boot/acpi.c\<close> and the walk over the MADT.
  \<^item> \<open>Idt\<close>, \<open>Exceptions\<close>, \<open>Pic\<close>, \<open>Ioapic\<close>, \<open>Interrupts\<close>: \<open>interrupt/idt.c\<close>, \<open>interrupt/exceptions/exceptions.c\<close>,
    \<open>interrupt/pic/pic.c\<close>, \<open>interrupt/apic/ioapic.c\<close>, and \<open>interrupt/apic/apic.c\<close> with \<open>irq.c\<close> and \<open>cpuid/cpuid.c\<close>.
  \<^item> \<open>Ram\<close>: the memory a driver shares with its device. \<open>Ahci\<close>, \<open>Ahci_Transfer\<close>: \<open>driver/ahci/ahci.c\<close> (definitions; transfers
    and hand-over). \<open>Xhci\<close>, \<open>Xhci_Rings\<close>: \<open>driver/xhci/xhci.c\<close> (definitions; the command and event rings).
  \<^item> \<open>Memory_Test\<close>: \<open>show_entries\<close> and \<open>test_mapping\<close> of \<open>memory/paging.c\<close>. \<open>Kernel\<close>: \<open>main.c\<close> and \<open>interrupt/bios/bios.c\<close>, the
    composition of all components. \<open>Example_Tasks\<close>: \<open>example_tasks/\<close> and their start.
  \<^item> \<open>Cpu\<close>: the processor that the assembly files work on, one function per instruction. \<open>Trap_Entry\<close>: \<open>syscall/syscall.asm\<close> and
    \<open>init_syscalls\<close> of \<open>proc/task.c\<close>. \<open>Boot\<close>: \<open>boot/boot.asm\<close>, \<open>interrupt/bios/bios.asm\<close> and
    \<open>init_bios_services\<close>.

  \<^bold>\<open>State.\<close> Each component's static variables are a record (\<open>console\<close>, \<open>keyboard\<close>, \<open>mm\<close> for the bitmap and the page
  tables, \<open>sched\<close>, \<open>pci\<close>, \<open>acpi\<close>, \<open>apic\<close>, the descriptor list \<open>idt\<close>, \<open>ahci\<close>, \<open>xhci\<close>), passed explicitly; \<open>boot\<close> holds those that
  \<open>kernel_main\<close> works on. C integers are words of their
  width. A null dereference, an access outside an array, an argument that was not passed, a loop that does
  not end and a recursion without end are values of \<open>fault\<close>, so that each operation says when
  they occur. Physical memory is a function: of bytes for the bitmap, of 8-byte entries for the page tables, of
  bytes that do not change for the firmware's tables. What a driver shares with its device is a memory of bytes inside the
  hardware state, which the device reads and writes at each access to a register. Assembly works on a record \<open>cpu\<close> of registers,
  selectors, model specific registers and a memory of bytes; a piece of straight code is a list of instructions.

  \<^bold>\<open>Hardware.\<close> What ports, device registers and model specific registers do is the parameter \<open>H\<close> of the definitions. Theorems
  assume of it what the documentation of the devices promises: the locales \<open>config_space\<close> (PCI configuration mechanism),
  \<open>window_registers\<close>, \<open>apic_registers\<close> and \<open>local_apic_registers\<close> (registers of the APICs), \<open>drives_pics\<close> (8259A),
  \<open>shared_memory\<close> (memory that stays as written), \<open>ahci_port\<close> (a port that runs the command in a slot as the AHCI
  specification says, at the access that issues it) and \<open>quiet_registers\<close> (registers that keep what is written and whose
  access leaves memory alone).
  \<open>chipset_hw\<close>, \<open>pic_pair_hw\<close>, \<open>sata_hw\<close> (a disk) and \<open>box_hw\<close> satisfy them; the witnesses run the code on these machines. Other parameters: the address
  of each service routine (the linker's), the result of \<open>cpuid\<close>, the handlers of drivers, the bytes of user strings, what va_arg
  finds where \<open>kprintln\<close> has passed nothing (\<open>found\<close>), the routine of the firmware (which comes back as a near return does), and the compiled handlers of system calls, which keep to the calling convention of C
  (the locale \<open>compiled_handlers\<close>).

  \<^bold>\<open>Loops and recursion.\<close> Loops with a bound are structural or have a measure. Loops that may run for ever are partial
  functions with \<open>None\<close> for not returning (\<open>madt_loop\<close>, \<open>find_cap_from\<close>, the waits and \<open>send_rw_rest\<close> of the
  drivers) or the fault \<open>Hang\<close> (backspace); that they return is
  a theorem of its own (\<open>madt_walk_ends\<close>, \<open>find_cap_terminates\<close>, \<open>console_run_total\<close>; for transfers it is part of
  \<open>ahci_read_sound\<close>). The event loop of XHCI never ends: \<open>event_turns\<close> runs a number of its turns, and \<open>kernel_main\<close> ends in
  \<open>Event_loop\<close> where the code enters it. Mutual recursion has the depth of
  nested calls as an argument: \<open>check_bus\<close>, where 256 is enough on buses numbered in order (\<open>init_pci_finds_devices\<close>) and no
  depth is on a cycle, and \<open>exec_io_handler\<close>, where 2 is enough for an override (\<open>override_reaches_handler\<close>) and no depth
  is for an override by itself.

  \<^bold>\<open>What the theorems show.\<close>
  \<^item> Memory: allocation is sound, complete and keeps its invariant; initialisation frees exactly the usable frames;
    mapping, unmapping and translating agree and, where the tables form a tree (\<open>page_tree\<close>), leave the mappings of all other
    pages alone; a new address space shares the kernel's part and can be written by the kernel. Initialisation is exact for
    ranges that are \<open>neat\<close>; for others \<open>frame_ranges_exact\<close> has the frames that the range updates miss.
  \<^item> Interrupts: the descriptor table is well-formed for both controllers; the redirection entries have the vector, delivery,
    polarity, trigger and destination of \<open>initial_entry\<close>, where interrupt 0 is left to the legacy controllers; any other
    interrupt reaches the driver's handler and is acknowledged; vectors are handed out once.
  \<^item> Devices: enumeration finds exactly the functions that answer; BARs and capability lists are decoded; the
    firmware's tables are found and walked; the legacy controllers are programmed as intended.
  \<^item> Console and keyboard: output appears where it should, numbers read back, backspace undoes, key presses are shown.
  \<^item> Tasks and system calls: tasks run in order (where va_arg finds readable values for the messages of the scheduler; where it
    finds none, no task is entered), \<open>mmap\<close> maps a fresh frame, the other calls are safe; what the example tasks do.
    The way of a system call through entry and exit code is what the model of the wrappers says (\<open>trap_returns\<close>), and the tasks
    are entered in user mode (\<open>tasks_on_processor\<close>).
  \<^item> Disk: a command describes exactly the bytes of its buffer, reading delivers the disk's bytes, and what was written is read
    back. USB: the rings are initialised as the controller expects, it fetches the commands in order, and the event ring
    is a queue.
  \<^item> The start: the processor is handed over with its tables in order and the task register loaded (\<open>start_tables\<close>), a call of
    the firmware runs the routine and comes back to long mode (\<open>firmware_call_returns\<close>), the greeting of \<open>kernel_main\<close> is a
    fault or not by what va_arg finds (\<open>kernel_main_completes\<close>), and when \<open>kernel_main\<close> reaches its halt loop or the event loop, the
    allocator's invariant holds and the descriptor table is well-formed.
  \<^item> Where the code falls short, a theorem says exactly how: eight-frame allocations that overlap, page tables that are not cleared,
    reports that lose their values, overrides that recurse, an entry that writes where the stack pointer of a task points, long
    reads that are cut, controllers with one command slot, and others.

  \<^bold>\<open>Not modelled.\<close> The real-mode routine of the BIOS services, which is not in the repository; faults of single instructions
  of the assembly code (addresses that are not canonical, pages that are not mapped; the load of the task register does
  check its descriptor); page faults of the kernel's own accesses (\<open>Paging\<close>); the write test and the VBE test of
  \<open>main.c\<close>, which are compiled out; the fields of USB contexts and the
  constants of the drivers that no code uses; diagnostics that drivers, interrupt set-up, paging and, after its greeting, \<open>kernel_main\<close> print on the way
  (\<open>kprintln_drops_arguments\<close> shows what becomes of those with values; where va_arg finds readable values they only print); timing and concurrency: handlers run to their end,
  as the kernel's interrupt gates make them, and a device works while one of its registers is accessed.
\<close>

end
